(* ===== verification/Prelude.thy ===== *)
theory Prelude
  imports Complex_Main "HOL-Library.Word" "HOL-Library.Multiset"
begin

text \<open>
  The vocabulary every component shares: the Go \<^verbatim>\<open>error\<close> values, the type synonyms that
  name the model's identifiers and clocks, the hint collections, and the list lemmas behind
  SQL statements (row filters, row updates, descending order, LIMIT) and Redis lists.
\<close>

section \<open>Types shared by all components\<close>

text \<open>
  A Go \<^verbatim>\<open>error\<close> is the text of the error, a wrapper made by \<^verbatim>\<open>fmt.Errorf("...: %w", err)\<close>, or
  the worker package's \<^verbatim>\<open>errUnrecoverable\<close> wrapper. A fallible call is \<open>err + 'a\<close>, with
  \<open>Inl\<close> for a non-nil error. \<open>Panic\<close> is not an error value: it stands for a run-time panic, which no
  caller's error check sees.
\<close>

datatype err =
    Err string
  | Wrapped string err
  | Unrecoverable err
  | Panic string

type_synonym 'a res = "err + 'a"

text \<open>A UUID is Go's \<^verbatim>\<open>[16]byte\<close>; a time is a number of nanoseconds since the Unix epoch.\<close>

type_synonym uuid = "128 word"
type_synonym time = int

definition second :: int where
  "second = 1000000000"

text \<open>Embedding vectors (\<^verbatim>\<open>[]float32\<close>) and FLOAT8 columns are exact rationals.\<close>

type_synonym vec = "rat list"

section \<open>Hint collections\<close>

named_theorems row_simps \<open>evaluation of row filters, updates and orderings\<close>
named_theorems inv_intros \<open>preservation of the components' invariants\<close>
named_theorems text_simps \<open>evaluation of text operations\<close>

section \<open>Fallible values\<close>

definition is_ok :: "'a res \<Rightarrow> bool" where
  "is_ok r = (case r of Inl _ \<Rightarrow> False | Inr _ \<Rightarrow> True)"

lemma is_ok_simps [simp]: "is_ok (Inr x)" "\<not> is_ok (Inl e)"
  by (simp_all add: is_ok_def)

lemma is_ok_iff: "is_ok r \<longleftrightarrow> (\<exists>x. r = Inr x)"
  by (cases r) auto

definition ok_or :: "'a \<Rightarrow> 'a res \<Rightarrow> 'a" where
  "ok_or d r = (case r of Inl _ \<Rightarrow> d | Inr x \<Rightarrow> x)"

lemma ok_or_simps [simp]: "ok_or d (Inr x) = x" "ok_or d (Inl e) = d"
  by (simp_all add: ok_or_def)

text \<open>The error of a call whose only result is an error.\<close>

definition err_of :: "'a res \<Rightarrow> err option" where
  "err_of r = (case r of Inl e \<Rightarrow> Some e | Inr _ \<Rightarrow> None)"

lemma err_of_simps [simp]: "err_of (Inl e) = Some e" "err_of (Inr x) = None"
  by (simp_all add: err_of_def)

lemma err_of_None: "err_of r = None \<longleftrightarrow> (\<exists>x. r = Inr x)"
  by (cases r) auto

section \<open>Rows\<close>

text \<open>UPDATE ... SET ... WHERE: the rows that match are rewritten, the others stay.\<close>

definition update_where :: "('r \<Rightarrow> bool) \<Rightarrow> ('r \<Rightarrow> 'r) \<Rightarrow> 'r list \<Rightarrow> 'r list" where
  "update_where p f = map (\<lambda>r. if p r then f r else r)"

lemma update_where_simps [simp]:
  "update_where p f [] = []"
  "update_where p f (r # rs) = (if p r then f r else r) # update_where p f rs"
  by (simp_all add: update_where_def)

lemma update_where_append [simp]:
  "update_where p f (xs @ ys) = update_where p f xs @ update_where p f ys"
  by (simp add: update_where_def)

lemma length_update_where [simp]: "length (update_where p f rs) = length rs"
  by (simp add: update_where_def)

lemma set_update_where: "set (update_where p f rs) = (\<lambda>r. if p r then f r else r) ` set rs"
  by (simp add: update_where_def)

lemma update_where_none: "(\<And>r. r \<in> set rs \<Longrightarrow> \<not> p r) \<Longrightarrow> update_where p f rs = rs"
  by (induction rs) auto

text \<open>A filter that the update can only turn off, on rows that matched it before.\<close>

lemma filter_update_where_off:
  "(\<And>r. r \<in> set rs \<Longrightarrow> p r \<Longrightarrow> \<not> q (f r)) \<Longrightarrow>
     filter q (update_where p f rs) = filter (\<lambda>r. q r \<and> \<not> p r) rs"
  by (induction rs) auto

text \<open>A filter that the update does not change.\<close>

lemma filter_update_where_other:
  "(\<And>r. r \<in> set rs \<Longrightarrow> p r \<Longrightarrow> \<not> q r \<and> \<not> q (f r)) \<Longrightarrow>
     filter q (update_where p f rs) = filter q rs"
  by (induction rs) auto

lemma map_update_where_same:
  "(\<And>r. r \<in> set rs \<Longrightarrow> p r \<Longrightarrow> g (f r) = g r) \<Longrightarrow> map g (update_where p f rs) = map g rs"
  by (induction rs) auto

text \<open>ORDER BY a descending key, and LIMIT; ties keep the table's order.\<close>

definition order_desc :: "('r \<Rightarrow> 'k::{linorder, ab_group_add}) \<Rightarrow> 'r list \<Rightarrow> 'r list" where
  "order_desc k rs = sort_key (\<lambda>r. - k r) rs"

lemma set_order_desc [simp]: "set (order_desc k rs) = set rs"
  by (simp add: order_desc_def)

lemma length_order_desc [simp]: "length (order_desc k rs) = length rs"
  by (simp add: order_desc_def)

lemma mset_order_desc: "mset (order_desc k rs) = mset rs"
  by (simp add: order_desc_def)

lemma distinct_order_desc [simp]: "distinct (order_desc k rs) = distinct rs"
  by (simp add: order_desc_def)

lemma order_desc_empty [simp]: "order_desc k [] = []"
  by (simp add: order_desc_def)

lemma order_desc_sorted: "sorted (map (\<lambda>r. - k r) (order_desc k rs))"
  by (simp add: order_desc_def)

text \<open>A row newer than all the others comes first.\<close>

lemma sort_key_snoc_least:
  "(\<And>y. y \<in> set xs \<Longrightarrow> f x < f y) \<Longrightarrow> sort_key f (xs @ [x]) = x # sort_key f xs"
proof -
  assume least: "\<And>y. y \<in> set xs \<Longrightarrow> f x < f y"
  have ins: "insort_key f x ys = x # ys" if "\<And>y. y \<in> set ys \<Longrightarrow> f x < f y" for ys
    using that by (cases ys) (auto dest: less_imp_le)
  have comm: "sort_key f (xs @ [x]) = insort_key f x (sort_key f xs)" using least
  proof (induction xs)
    case Nil
    then show ?case by simp
  next
    case (Cons y ys)
    then have "f x < f y" by simp
    then have "insort_key f y (insort_key f x zs) = insort_key f x (insort_key f y zs)" for zs
      by (simp add: insort_key_left_comm)
    with Cons show ?case by simp
  qed
  have "insort_key f x (sort_key f xs) = x # sort_key f xs"
    by (rule ins) (simp add: least)
  with comm show ?thesis by simp
qed

lemma order_desc_snoc_newest:
  fixes k :: "'r \<Rightarrow> int"
  assumes "\<And>y. y \<in> set rs \<Longrightarrow> k y < k r"
  shows "order_desc k (rs @ [r]) = r # order_desc k rs"
  using sort_key_snoc_least [of rs "\<lambda>r. - k r" r] assms by (simp add: order_desc_def)

section \<open>Lists\<close>

lemma take_rev_append: "length xs \<ge> n \<Longrightarrow> take n (xs @ ys) = take n xs"
  by simp

lemma set_take_le: "x \<in> set (take n xs) \<Longrightarrow> x \<in> set xs"
  by (rule in_set_takeD)

lemma distinct_map_filter: "distinct (map f xs) \<Longrightarrow> distinct (map f (filter p xs))"
  by (induction xs) auto

lemma length_filter_le_one_distinct:
  "distinct (map k xs) \<Longrightarrow> length (filter (\<lambda>x. k x = a) xs) \<le> 1"
proof (induction xs)
  case (Cons x xs)
  have "filter (\<lambda>y. k y = k x) xs = []"
    using Cons.prems by (auto simp: filter_empty_conv image_iff)
  with Cons show ?case by auto
qed simp

lemma find_filter: "filter p xs = y # ys \<Longrightarrow> List.find p xs = Some y"
  by (induction xs) (auto split: if_splits)

lemma find_in_filter: "List.find (\<lambda>x. q x \<and> p x) xs = List.find p (filter q xs)"
  by (induction xs) auto

lemma find_distinct:
  assumes "distinct (map k xs)" "x \<in> set xs" "p x" and key: "\<And>y. p y \<Longrightarrow> k y = k x"
  shows "List.find p xs = Some x"
  using assms(1,2)
proof (induction xs)
  case (Cons y ys)
  show ?case
  proof (cases "p y")
    case True
    then have "k y = k x" by (rule key)
    then have "y = x" using Cons.prems by (auto simp: image_iff)
    with True show ?thesis by simp
  next
    case False
    then have "x \<in> set ys" using Cons.prems(2) assms(3) by auto
    with False Cons show ?thesis by simp
  qed
qed simp

text \<open>The elements of a list kept at their first occurrence of a key.\<close>

fun first_by :: "('a \<Rightarrow> 'k) \<Rightarrow> 'k list \<Rightarrow> 'a list \<Rightarrow> 'a list" where
  "first_by k seen [] = []"
| "first_by k seen (x # xs) =
     (if k x \<in> set seen then first_by k seen xs else x # first_by k (k x # seen) xs)"

lemma set_first_by: "set (first_by k seen xs) \<subseteq> set xs"
  by (induction k seen xs rule: first_by.induct) auto

lemma first_by_keys: "k ` set (first_by k seen xs) = k ` set xs - set seen"
  by (induction k seen xs rule: first_by.induct) auto

lemma first_by_distinct: "distinct (map k (first_by k seen xs))"
proof (induction k seen xs rule: first_by.induct)
  case (1 k seen)
  then show ?case by simp
next
  case (2 k seen x xs)
  have "k x \<notin> k ` set (first_by k (k x # seen) xs)"
    by (simp only: first_by_keys) simp
  with 2 show ?case by (simp del: first_by_keys add: image_iff)
qed

lemma length_first_by: "length (first_by k seen xs) \<le> length xs"
  by (induction k seen xs rule: first_by.induct) auto

lemma first_by_first:
  assumes "xs = ys @ x # zs" "k x \<notin> k ` set ys" "k x \<notin> set seen"
  shows "x \<in> set (first_by k seen xs)"
  using assms
proof (induction k seen xs arbitrary: ys rule: first_by.induct)
  case (1 k seen)
  then show ?case by simp
next
  case (2 k seen y xs)
  show ?case
  proof (cases ys)
    case Nil
    with "2.prems" show ?thesis by simp
  next
    case (Cons w ws)
    with 2 show ?thesis by auto
  qed
qed

section \<open>Filtering a slice in place\<close>

text \<open>
  The Go idiom \<^verbatim>\<open>out := xs[:0]; for _, x := range xs { ...; out = append(out, x) }\<close>: the kept elements
  are written over the array that is being read. \<open>step s x\<close> is \<open>None\<close> when the loop body skips \<open>x\<close>,
  otherwise the loop's next state. The result is the array after the loop and the length of \<open>out\<close>.
\<close>

fun compact :: "('s \<Rightarrow> 'a \<Rightarrow> 's option) \<Rightarrow> 'a list \<Rightarrow> nat \<Rightarrow> 's \<Rightarrow> nat list \<Rightarrow> 'a list \<times> nat" where
  "compact step arr w s [] = (arr, w)"
| "compact step arr w s (i # is) =
     (case step s (arr ! i) of
        None \<Rightarrow> compact step arr w s is
      | Some s' \<Rightarrow> compact step (arr[w := arr ! i]) (Suc w) s' is)"

fun kept :: "('s \<Rightarrow> 'a \<Rightarrow> 's option) \<Rightarrow> 's \<Rightarrow> 'a list \<Rightarrow> 'a list" where
  "kept step s [] = []"
| "kept step s (x # xs) =
     (case step s x of None \<Rightarrow> kept step s xs | Some s' \<Rightarrow> x # kept step s' xs)"

text \<open>The writes never overtake the reads, so the slice is what a copying filter would return.\<close>

lemma compact_kept:
  "w \<le> i \<Longrightarrow> i \<le> length arr \<Longrightarrow> compact step arr w s [i..<length arr] = (arr', w') \<Longrightarrow>
     take w' arr' = take w arr @ kept step s (drop i arr) \<and> length arr' = length arr \<and> w' \<le> length arr"
proof (induction "length arr - i" arbitrary: arr w s i)
  case 0
  then show ?case by simp
next
  case (Suc k)
  then have i: "i < length arr" and drop: "drop i arr = arr ! i # drop (Suc i) arr"
    by (simp_all add: Cons_nth_drop_Suc)
  then have upt: "[i..<length arr] = i # [Suc i..<length arr]" by (simp add: upt_conv_Cons)
  show ?case
  proof (cases "step s (arr ! i)")
    case None
    then have "compact step arr w s [Suc i..<length arr] = (arr', w')"
      using Suc.prems(3) upt by simp
    moreover have "k = length arr - Suc i" using Suc.hyps(2) by simp
    ultimately show ?thesis using Suc.hyps(1) [of arr "Suc i" w s] Suc.prems(1) i drop None by simp
  next
    case (Some s')
    let ?arr = "arr[w := arr ! i]"
    have "compact step ?arr (Suc w) s' [Suc i..<length ?arr] = (arr', w')"
      using Suc.prems(3) upt Some by simp
    moreover have "k = length ?arr - Suc i" using Suc.hyps(2) by simp
    moreover have "take (Suc w) ?arr = take w arr @ [arr ! i]"
      using Suc.prems(1) i by (simp add: take_Suc_conv_app_nth)
    moreover have "drop (Suc i) ?arr = drop (Suc i) arr"
      using Suc.prems(1) by simp
    ultimately show ?thesis
      using Suc.hyps(1) [of ?arr "Suc i" "Suc w" s'] Suc.prems(1) i drop Some by simp
  qed
qed

definition compacted :: "('s \<Rightarrow> 'a \<Rightarrow> 's option) \<Rightarrow> 's \<Rightarrow> 'a list \<Rightarrow> 'a list" where
  "compacted step s arr = (let (arr', w') = compact step arr 0 s [0..<length arr] in take w' arr')"

lemma compacted_kept: "compacted step s arr = kept step s arr"
  using compact_kept [of 0 0 arr step s]
  by (cases "compact step arr 0 s [0..<length arr]") (simp add: compacted_def)

lemma kept_filter: "kept (\<lambda>s x. if p x then Some s else None) s xs = filter p xs"
  by (induction xs) auto

lemma kept_first_by:
  "kept (\<lambda>seen x. if k x \<in> set seen then None else Some (k x # seen)) seen xs = first_by k seen xs"
  by (induction k seen xs rule: first_by.induct) auto

end
