(* ===== verification/GoText.thy ===== *)
theory GoText
  imports Prelude
begin

text \<open>
  Go strings. A Go string is a sequence of bytes, and a HOL \<^typ>\<open>char\<close> is a byte, so the model
  uses \<^typ>\<open>string\<close> throughout. This theory models what the program uses of the packages
  \<^verbatim>\<open>unicode/utf8\<close>, \<^verbatim>\<open>strings\<close>, \<^verbatim>\<open>strconv\<close> and \<^verbatim>\<open>encoding/hex\<close>: decoding to runes (an invalid
  byte is the rune U+FFFD of width one), rune counts, case mapping, trimming, searching, splitting,
  decimal and hexadecimal text. The Unicode case tables beyond ASCII are data of the Go
  distribution: they are the argument \<open>tab\<close> of the case mappings.
\<close>

section \<open>Runes\<close>

definition byte :: "char \<Rightarrow> nat" where
  "byte c = of_char c"

definition chr :: "nat \<Rightarrow> char" where
  "chr n = char_of n"

lemma byte_less [simp]: "byte c < 256"
  by (simp add: byte_def)

lemma chr_byte [simp]: "chr (byte c) = c"
  by (simp add: chr_def byte_def)

lemma byte_chr: "n < 256 \<Longrightarrow> byte (chr n) = n"
  by (simp add: chr_def byte_def)

definition RuneError :: nat where
  "RuneError = 65533"

definition cont_byte :: "char \<Rightarrow> bool" where
  "cont_byte c \<longleftrightarrow> 128 \<le> byte c \<and> byte c \<le> 191"

text \<open>\<^verbatim>\<open>utf8.DecodeRuneInString\<close>: the first rune and its width in bytes.\<close>

fun decode_rune :: "string \<Rightarrow> nat \<times> nat" where
  "decode_rune [] = (RuneError, 0)"
| "decode_rune (c # cs) =
     (let b = byte c in
      if b < 128 then (b, 1)
      else if 194 \<le> b \<and> b \<le> 223 then
        (case cs of
           c1 # _ \<Rightarrow> if cont_byte c1 then ((b - 192) * 64 + (byte c1 - 128), 2) else (RuneError, 1)
         | [] \<Rightarrow> (RuneError, 1))
      else if 224 \<le> b \<and> b \<le> 239 then
        (case cs of
           c1 # c2 # _ \<Rightarrow>
             if (if b = 224 then 160 else 128) \<le> byte c1 \<and>
                byte c1 \<le> (if b = 237 then 159 else 191) \<and> cont_byte c2
             then ((b - 224) * 4096 + (byte c1 - 128) * 64 + (byte c2 - 128), 3)
             else (RuneError, 1)
         | _ \<Rightarrow> (RuneError, 1))
      else if 240 \<le> b \<and> b \<le> 244 then
        (case cs of
           c1 # c2 # c3 # _ \<Rightarrow>
             if (if b = 240 then 144 else 128) \<le> byte c1 \<and>
                byte c1 \<le> (if b = 244 then 143 else 191) \<and> cont_byte c2 \<and> cont_byte c3
             then ((b - 240) * 262144 + (byte c1 - 128) * 4096 + (byte c2 - 128) * 64 +
                   (byte c3 - 128), 4)
             else (RuneError, 1)
         | _ \<Rightarrow> (RuneError, 1))
      else (RuneError, 1))"

lemma decode_rune_width: "s \<noteq> [] \<Longrightarrow> 1 \<le> snd (decode_rune s) \<and> snd (decode_rune s) \<le> length s"
  by (cases s) (auto simp: Let_def split: list.splits)

text \<open>A string cut into its runes, each with the bytes it came from (\<^verbatim>\<open>for range s\<close>).\<close>

function segments :: "string \<Rightarrow> (nat \<times> string) list" where
  "segments s =
     (if s = [] then []
      else (let (r, w) = decode_rune s in (r, take w s) # segments (drop w s)))"
  by pat_completeness auto
termination
proof (relation "measure length", goal_cases)
  case 1
  show ?case by simp
next
  case (2 s p r w)
  then have "1 \<le> w" using decode_rune_width [of s] by (cases "decode_rune s") auto
  with 2 show ?case by (cases s) auto
qed

declare segments.simps [simp del]

lemma segments_Nil [simp]: "segments [] = []"
  by (simp add: segments.simps)

lemma segments_ne:
  "s \<noteq> [] \<Longrightarrow> segments s =
     (fst (decode_rune s), take (snd (decode_rune s)) s) # segments (drop (snd (decode_rune s)) s)"
  by (subst segments.simps) (simp add: case_prod_beta Let_def)

definition runes :: "string \<Rightarrow> nat list" where
  "runes s = map fst (segments s)"

text \<open>\<^verbatim>\<open>utf8.RuneCountInString\<close>.\<close>

definition RuneCount :: "string \<Rightarrow> nat" where
  "RuneCount s = length (segments s)"

lemma concat_segments: "concat (map snd (segments s)) = s"
proof (induction s rule: segments.induct)
  case (1 s)
  show ?case
  proof (cases "s = []")
    case False
    obtain r w where rw: "decode_rune s = (r, w)" by (cases "decode_rune s")
    have "concat (map snd (segments (drop w s))) = drop w s"
      using "1.IH" [OF False rw [symmetric] refl] .
    with False rw show ?thesis by (simp add: segments_ne)
  qed simp
qed

lemma RuneCount_le: "RuneCount s \<le> length s"
proof (induction s rule: segments.induct)
  case (1 s)
  show ?case
  proof (cases "s = []")
    case False
    obtain r w where rw: "decode_rune s = (r, w)" by (cases "decode_rune s")
    have "RuneCount (drop w s) \<le> length (drop w s)"
      using "1.IH" [OF False rw [symmetric] refl] .
    moreover have "1 \<le> w" "w \<le> length s" using decode_rune_width [OF False] rw by auto
    ultimately show ?thesis using False rw by (simp add: RuneCount_def segments_ne)
  qed (simp add: RuneCount_def)
qed

lemma RuneCount_Nil [simp]: "RuneCount [] = 0"
  by (simp add: RuneCount_def)

lemma RuneCount_pos: "s \<noteq> [] \<Longrightarrow> 0 < RuneCount s"
  by (simp add: RuneCount_def segments_ne)

definition ascii :: "string \<Rightarrow> bool" where
  "ascii s \<longleftrightarrow> list_all (\<lambda>c. byte c < 128) s"

lemma ascii_simps [simp]: "ascii []" "ascii (c # cs) \<longleftrightarrow> byte c < 128 \<and> ascii cs"
  by (simp_all add: ascii_def)

lemma segments_ascii: "ascii s \<Longrightarrow> segments s = map (\<lambda>c. (byte c, [c])) s"
proof (induction s)
  case (Cons c s)
  then have "decode_rune (c # s) = (byte c, 1)" by simp
  then have "segments (c # s) = (byte c, [c]) # segments s" by (simp add: segments_ne)
  with Cons show ?case by simp
qed simp

lemma RuneCount_ascii: "ascii s \<Longrightarrow> RuneCount s = length s"
  by (simp add: RuneCount_def segments_ascii)

text \<open>\<^verbatim>\<open>utf8.AppendRune\<close>: a rune out of range or a surrogate is written as U+FFFD.\<close>

definition valid_rune :: "nat \<Rightarrow> bool" where
  "valid_rune r \<longleftrightarrow> r < 55296 \<or> (57344 \<le> r \<and> r \<le> 1114111)"

definition encode_valid :: "nat \<Rightarrow> string" where
  "encode_valid r =
     (if r < 128 then [chr r]
      else if r < 2048 then [chr (192 + r div 64), chr (128 + r mod 64)]
      else if r < 65536 then
        [chr (224 + r div 4096), chr (128 + r div 64 mod 64), chr (128 + r mod 64)]
      else [chr (240 + r div 262144), chr (128 + r div 4096 mod 64),
            chr (128 + r div 64 mod 64), chr (128 + r mod 64)])"

definition encode_rune :: "nat \<Rightarrow> string" where
  "encode_rune r = encode_valid (if valid_rune r then r else RuneError)"

definition utf8 :: "nat list \<Rightarrow> string" where
  "utf8 rs = concat (map encode_rune rs)"

lemma utf8_simps [simp]: "utf8 [] = []" "utf8 (r # rs) = encode_rune r @ utf8 rs"
  by (simp_all add: utf8_def)

lemma utf8_append: "utf8 (xs @ ys) = utf8 xs @ utf8 ys"
  by (simp add: utf8_def)

section \<open>Package strings\<close>

text \<open>
  \<^verbatim>\<open>strings.ToLower\<close> and \<^verbatim>\<open>strings.ToUpper\<close> map every rune; \<open>tab\<close> is the case table of package
  unicode for runes from U+0080 on.
\<close>

definition lower_rune :: "(nat \<Rightarrow> nat) \<Rightarrow> nat \<Rightarrow> nat" where
  "lower_rune tab r = (if r < 128 then (if 65 \<le> r \<and> r \<le> 90 then r + 32 else r) else tab r)"

definition upper_rune :: "(nat \<Rightarrow> nat) \<Rightarrow> nat \<Rightarrow> nat" where
  "upper_rune tab r = (if r < 128 then (if 97 \<le> r \<and> r \<le> 122 then r - 32 else r) else tab r)"

definition ToLower :: "(nat \<Rightarrow> nat) \<Rightarrow> string \<Rightarrow> string" where
  "ToLower tab s = utf8 (map (lower_rune tab) (runes s))"

definition ToUpper :: "(nat \<Rightarrow> nat) \<Rightarrow> string \<Rightarrow> string" where
  "ToUpper tab s = utf8 (map (upper_rune tab) (runes s))"

text \<open>\<^verbatim>\<open>unicode.IsSpace\<close>: the White_Space property.\<close>

definition IsSpace :: "nat \<Rightarrow> bool" where
  "IsSpace r \<longleftrightarrow> (9 \<le> r \<and> r \<le> 13) \<or> r = 32 \<or> r = 133 \<or> r = 160 \<or> r = 5760 \<or>
     (8192 \<le> r \<and> r \<le> 8202) \<or> r = 8232 \<or> r = 8233 \<or> r = 8239 \<or> r = 8287 \<or> r = 12288"

definition TrimSpace :: "string \<Rightarrow> string" where
  "TrimSpace s =
     concat (map snd (rev (dropWhile (IsSpace \<circ> fst) (rev (dropWhile (IsSpace \<circ> fst) (segments s))))))"

lemma TrimSpace_Nil [simp]: "TrimSpace [] = []"
  by (simp add: TrimSpace_def)

text \<open>\<^verbatim>\<open>strings.HasPrefix\<close> and \<^verbatim>\<open>strings.Contains\<close>.\<close>

fun has_prefix :: "string \<Rightarrow> string \<Rightarrow> bool" where
  "has_prefix s [] = True"
| "has_prefix [] (p # ps) = False"
| "has_prefix (c # cs) (p # ps) = (c = p \<and> has_prefix cs ps)"

lemma has_prefix_iff: "has_prefix s p \<longleftrightarrow> (\<exists>t. s = p @ t)"
  by (induction s p rule: has_prefix.induct) auto

fun contains :: "string \<Rightarrow> string \<Rightarrow> bool" where
  "contains [] sub = (sub = [])"
| "contains (c # cs) sub = (has_prefix (c # cs) sub \<or> contains cs sub)"

lemma contains_iff: "contains s sub \<longleftrightarrow> (\<exists>a b. s = a @ sub @ b)"
proof (induction s)
  case (Cons c cs)
  show ?case
  proof
    assume "contains (c # cs) sub"
    then consider t where "c # cs = sub @ t" | a b where "cs = a @ sub @ b"
      using Cons by (auto simp: has_prefix_iff)
    then show "\<exists>a b. c # cs = a @ sub @ b"
    proof cases
      case 1
      then show ?thesis by (metis append_Nil)
    next
      case 2
      then show ?thesis by (metis append_Cons)
    qed
  next
    assume "\<exists>a b. c # cs = a @ sub @ b"
    then obtain a b where ab: "c # cs = a @ sub @ b" by blast
    show "contains (c # cs) sub"
    proof (cases a)
      case Nil
      with ab have "has_prefix (c # cs) sub" by (auto simp: has_prefix_iff)
      then show ?thesis by simp
    next
      case (Cons d ds)
      with ab have "cs = ds @ sub @ b" by simp
      then show ?thesis using Cons.IH by auto
    qed
  qed
qed auto

text \<open>\<^verbatim>\<open>strings.Split\<close> by a one-byte separator, and the first part of \<^verbatim>\<open>strings.SplitN(s, sep, 2)\<close>.\<close>

fun split_on :: "char \<Rightarrow> string \<Rightarrow> string list" where
  "split_on sep [] = [[]]"
| "split_on sep (c # cs) =
     (if c = sep then [] # split_on sep cs
      else (case split_on sep cs of w # ws \<Rightarrow> (c # w) # ws | [] \<Rightarrow> [[c]]))"

fun before :: "string \<Rightarrow> string \<Rightarrow> string" where
  "before sep [] = []"
| "before sep (c # cs) = (if has_prefix (c # cs) sep then [] else c # before sep cs)"

lemma split_on_nonempty [simp]: "split_on sep s \<noteq> []"
  by (induction s) (auto split: list.splits)

lemma split_on_free: "sep \<notin> set s \<Longrightarrow> split_on sep s = [s]"
  by (induction s) auto

lemma split_on_append:
  "sep \<notin> set a \<Longrightarrow> split_on sep (a @ sep # b) = a # split_on sep b"
  by (induction a) auto

lemma length_split_on: "length (split_on sep s) = Suc (count_list s sep)"
proof (induction s)
  case (Cons c cs)
  then show ?case by (cases "split_on sep cs") auto
qed simp

lemma before_append: "\<not> contains (butlast (a @ sep)) sep \<Longrightarrow> sep \<noteq> [] \<Longrightarrow> before sep (a @ sep @ b) = a"
proof (induction a)
  case Nil
  then have "has_prefix (sep @ b) sep" by (simp add: has_prefix_iff)
  with Nil show ?case by (cases "sep @ b") auto
next
  case (Cons c a)
  have bl: "butlast ((c # a) @ sep) = c # butlast (a @ sep)" using Cons.prems(2) by simp
  have no: "\<not> has_prefix ((c # a) @ sep @ b) sep"
  proof
    assume "has_prefix ((c # a) @ sep @ b) sep"
    then obtain t where t: "(c # a) @ sep @ b = sep @ t" by (auto simp: has_prefix_iff)
    have "take (length sep) ((c # a) @ sep @ b) = sep" by (simp only: t) simp
    moreover have "(c # a) @ sep @ b = butlast ((c # a) @ sep) @ last sep # b"
      using Cons.prems(2) by (simp add: butlast_append)
    then have "take (length sep) ((c # a) @ sep @ b) = take (length sep) (butlast ((c # a) @ sep))"
      by (simp only: take_append) simp
    ultimately have "butlast ((c # a) @ sep) = sep @ drop (length sep) (butlast ((c # a) @ sep))"
      by (metis append_take_drop_id)
    then have "has_prefix (butlast ((c # a) @ sep)) sep" by (auto simp: has_prefix_iff)
    with Cons.prems bl show False by simp
  qed
  have "\<not> contains (butlast (a @ sep)) sep" using Cons.prems bl by simp
  with Cons no show ?case by simp
qed

section \<open>Encoding and decoding agree\<close>

lemma decode_encode_valid:
  assumes "valid_rune r"
  shows "decode_rune (encode_valid r @ s) = (r, length (encode_valid r))"
proof -
  consider "r < 128" | "128 \<le> r" "r < 2048" | "2048 \<le> r" "r < 65536" | "65536 \<le> r" "r \<le> 1114111"
    using assms by (force simp: valid_rune_def)
  then show ?thesis
  proof cases
    case 1
    then show ?thesis by (simp add: encode_valid_def byte_chr)
  next
    case 2
    then have "2 \<le> r div 64" "r div 64 < 32" by auto
    with 2 show ?thesis by (simp add: encode_valid_def byte_chr cont_byte_def)
  next
    case 3
    then obtain h l where d: "r div 64 = h" "r mod 64 = l" "r = h * 64 + l" "l < 64"
      by (metis div_mult_mod_eq mod_less_divisor zero_less_numeral)
    then obtain t m where e: "h div 64 = t" "h mod 64 = m" "h = t * 64 + m" "m < 64"
      by (metis div_mult_mod_eq mod_less_divisor zero_less_numeral)
    have q: "r div 4096 = t" using d e by simp
    have b: "t < 16" "t = 0 \<Longrightarrow> 32 \<le> m" using 3 d e by auto
    have hi: "t = 13 \<Longrightarrow> m \<le> 31" using assms 3 d e by (auto simp: valid_rune_def)
    have enc: "encode_valid r = [chr (224 + t), chr (128 + m), chr (128 + l)]"
      using 3 by (simp add: encode_valid_def q d(1,2) e(1,2))
    have val: "t * 4096 + m * 64 + l = r" using d(3) e(3) by simp
    show ?thesis
      unfolding enc using b hi d(4) e(4) val by (simp add: byte_chr cont_byte_def)
  next
    case 4
    then obtain h l where d: "r div 64 = h" "r mod 64 = l" "r = h * 64 + l" "l < 64"
      by (metis div_mult_mod_eq mod_less_divisor zero_less_numeral)
    then obtain t m where e: "h div 64 = t" "h mod 64 = m" "h = t * 64 + m" "m < 64"
      by (metis div_mult_mod_eq mod_less_divisor zero_less_numeral)
    then obtain u n where f: "t div 64 = u" "t mod 64 = n" "t = u * 64 + n" "n < 64"
      by (metis div_mult_mod_eq mod_less_divisor zero_less_numeral)
    have q: "r div 4096 = t" "r div 262144 = u" using d e f by auto
    have b: "u \<le> 4" "u = 0 \<Longrightarrow> 16 \<le> n" "u = 4 \<Longrightarrow> n \<le> 15" using 4 d e f by auto
    have enc: "encode_valid r = [chr (240 + u), chr (128 + n), chr (128 + m), chr (128 + l)]"
      using 4 by (simp add: encode_valid_def q d(1,2) e(1,2) f(1,2))
    have val: "u * 262144 + n * 4096 + m * 64 + l = r" using d(3) e(3) f(3) by simp
    show ?thesis
      unfolding enc using b d(4) e(4) f(4) val by (simp add: byte_chr cont_byte_def)
  qed
qed

lemma valid_RuneError [simp]: "valid_rune RuneError"
  by (simp add: valid_rune_def RuneError_def)

lemma encode_rune_nonempty [simp]: "encode_rune r \<noteq> []"
  by (simp add: encode_rune_def encode_valid_def)

lemma segments_encode_valid:
  assumes "valid_rune r"
  shows "segments (encode_valid r @ s) = (r, encode_valid r) # segments s"
proof -
  have "encode_valid r @ s \<noteq> []" by (simp add: encode_valid_def)
  then show ?thesis by (simp add: segments_ne decode_encode_valid [OF assms])
qed

text \<open>Decoding the encoding of valid code points gives them back.\<close>

lemma runes_utf8: "list_all valid_rune rs \<Longrightarrow> runes (utf8 rs) = rs"
  by (induction rs) (simp_all add: runes_def encode_rune_def segments_encode_valid)

lemma RuneCount_utf8: "RuneCount (utf8 rs) = length rs"
  by (induction rs) (simp_all add: RuneCount_def encode_rune_def segments_encode_valid)

lemma RuneCount_runes: "RuneCount s = length (runes s)"
  by (simp add: RuneCount_def runes_def)

section \<open>Packages strconv and encoding/hex\<close>

text \<open>\<^verbatim>\<open>fmt.Sprintf("%d", i)\<close>.\<close>

fun nat_text :: "nat \<Rightarrow> string" where
  "nat_text n = (if n < 10 then [chr (48 + n)] else nat_text (n div 10) @ [chr (48 + n mod 10)])"

declare nat_text.simps [simp del]

definition Itoa :: "int \<Rightarrow> string" where
  "Itoa i = (if i < 0 then CHR ''-'' # nat_text (nat (- i)) else nat_text (nat i))"

text \<open>\<^verbatim>\<open>strconv.Atoi\<close>: an optional sign, at least one digit, nothing else, and the value fits int64.\<close>

fun digits_val :: "nat \<Rightarrow> string \<Rightarrow> nat option" where
  "digits_val acc [] = Some acc"
| "digits_val acc (c # cs) =
     (if 48 \<le> byte c \<and> byte c \<le> 57 then digits_val (acc * 10 + (byte c - 48)) cs else None)"

definition int64 :: "int \<Rightarrow> bool" where
  "int64 i \<longleftrightarrow> - (2 ^ 63) \<le> i \<and> i < 2 ^ 63"

definition Atoi :: "string \<Rightarrow> int option" where
  "Atoi s =
     (let neg = has_prefix s ''-'';
          ds = (if neg \<or> has_prefix s ''+'' then tl s else s)
      in if ds = [] then None
         else (case digits_val 0 ds of
                 None \<Rightarrow> None
               | Some n \<Rightarrow> (let i = (if neg then - int n else int n) in if int64 i then Some i else None)))"

lemma digits_val_append:
  "digits_val acc (xs @ ys) = (case digits_val acc xs of None \<Rightarrow> None | Some a \<Rightarrow> digits_val a ys)"
  by (induction acc xs rule: digits_val.induct) auto

lemma digits_val_nat_text: "digits_val 0 (nat_text n) = Some n"
proof (induction n rule: nat_text.induct)
  case (1 n)
  show ?case
  proof (cases "n < 10")
    case True
    then show ?thesis by (subst nat_text.simps) (simp add: byte_chr)
  next
    case False
    with 1 have "digits_val 0 (nat_text (n div 10)) = Some (n div 10)" by simp
    with False show ?thesis
      by (subst nat_text.simps) (simp add: digits_val_append byte_chr)
  qed
qed

lemma nat_text_digit: "c \<in> set (nat_text n) \<Longrightarrow> 48 \<le> byte c \<and> byte c \<le> 57"
proof (induction n rule: nat_text.induct)
  case (1 n)
  show ?case
  proof (cases "n < 10")
    case True
    with "1.prems" show ?thesis by (simp add: nat_text.simps [of n] byte_chr)
  next
    case False
    with 1 show ?thesis by (auto simp: nat_text.simps [of n] byte_chr)
  qed
qed

lemma nat_text_nonempty [simp]: "nat_text n \<noteq> []"
  by (subst nat_text.simps) simp

lemma nat_text_hd: "hd (nat_text n) \<noteq> CHR ''-''" "hd (nat_text n) \<noteq> CHR ''+''"
  using nat_text_digit [of "hd (nat_text n)" n] by (auto simp: byte_def)

lemma Atoi_Itoa: "int64 i \<Longrightarrow> Atoi (Itoa i) = Some i"
proof (cases "i < 0")
  case True
  assume "int64 i"
  with True show ?thesis
    by (simp add: Atoi_def Itoa_def Let_def digits_val_nat_text)
next
  case False
  assume "int64 i"
  obtain c cs where c: "nat_text (nat i) = c # cs" by (cases "nat_text (nat i)") auto
  then have "c \<noteq> CHR ''-''" "c \<noteq> CHR ''+''" using nat_text_hd [of "nat i"] by auto
  moreover have "digits_val 0 (c # cs) = Some (nat i)" using digits_val_nat_text [of "nat i"] c by simp
  ultimately show ?thesis using \<open>int64 i\<close> False
    by (simp add: Atoi_def Itoa_def Let_def c del: digits_val.simps)
qed

text \<open>\<^verbatim>\<open>hex.EncodeToString\<close> and \<^verbatim>\<open>hex.DecodeString\<close> (both cases of letters are read).\<close>

definition hex_digit :: "nat \<Rightarrow> char" where
  "hex_digit n = (if n < 10 then chr (48 + n) else chr (87 + n))"

definition hex_value :: "char \<Rightarrow> nat option" where
  "hex_value c =
     (let b = byte c in
      if 48 \<le> b \<and> b \<le> 57 then Some (b - 48)
      else if 97 \<le> b \<and> b \<le> 102 then Some (b - 87)
      else if 65 \<le> b \<and> b \<le> 70 then Some (b - 55)
      else None)"

definition hex_encode :: "string \<Rightarrow> string" where
  "hex_encode s = concat (map (\<lambda>c. [hex_digit (byte c div 16), hex_digit (byte c mod 16)]) s)"

fun hex_decode :: "string \<Rightarrow> string option" where
  "hex_decode [] = Some []"
| "hex_decode [c] = None"
| "hex_decode (c # d # cs) =
     (case (hex_value c, hex_value d, hex_decode cs) of
        (Some a, Some b, Some bs) \<Rightarrow> Some (chr (16 * a + b) # bs)
      | _ \<Rightarrow> None)"

lemma hex_value_digit: "n < 16 \<Longrightarrow> hex_value (hex_digit n) = Some n"
  by (auto simp: hex_value_def hex_digit_def Let_def byte_chr)

lemma hex_decode_encode: "hex_decode (hex_encode s) = Some s"
proof (induction s)
  case (Cons c s)
  have "byte c div 16 < 16" using byte_less [of c] by linarith
  with Cons show ?case
    by (simp add: hex_encode_def hex_value_digit)
qed (simp add: hex_encode_def)

lemma length_hex_encode: "length (hex_encode s) = 2 * length s"
  by (induction s) (simp_all add: hex_encode_def)

lemma hex_decode_length: "hex_decode s = Some bs \<Longrightarrow> length s = 2 * length bs"
  by (induction s arbitrary: bs rule: hex_decode.induct) (auto split: option.splits)

lemma hex_encode_inject: "hex_encode a = hex_encode b \<longleftrightarrow> a = b"
  by (metis hex_decode_encode option.inject)

end
