(* ===== verification/GoJson.thy ===== *)
theory GoJson
  imports GoText
begin

text \<open>
  What the program uses of \<^verbatim>\<open>encoding/json\<close>, and the interface of the two text codecs it relies
  on: \<^verbatim>\<open>github.com/google/uuid\<close> (not part of this repository) and the RFC 3339 form of
  \<^verbatim>\<open>time.Time\<close>. A JSON text is represented by its parse, a number by its literal. Decoding
  follows the package: keys match struct tags up to Unicode case folding, an unknown key is
  skipped, \<^verbatim>\<open>null\<close> leaves a field unchanged, a value of the wrong type is remembered as an error
  while decoding goes on, and an error of a custom unmarshaller stops the decoding.
\<close>

section \<open>JSON values\<close>

datatype json =
    JNull
  | JBool bool
  | JNum string
  | JStr string
  | JArr "json list"
  | JObj "(string \<times> json) list"

text \<open>\<^verbatim>\<open>json.Marshal\<close> of a string replaces invalid UTF-8 by U+FFFD.\<close>

definition coerce_utf8 :: "string \<Rightarrow> string" where
  "coerce_utf8 s = utf8 (runes s)"

definition valid_utf8 :: "string \<Rightarrow> bool" where
  "valid_utf8 s \<longleftrightarrow> coerce_utf8 s = s"

definition jstr :: "string \<Rightarrow> json" where
  "jstr s = JStr (coerce_utf8 s)"

definition jint :: "int \<Rightarrow> json" where
  "jint i = JNum (Itoa i)"

lemma coerce_utf8_ascii [simp]: "ascii s \<Longrightarrow> coerce_utf8 s = s"
  unfolding coerce_utf8_def runes_def
proof (simp add: segments_ascii comp_def, induction s)
  case (Cons c s)
  then show ?case by (simp add: encode_rune_def encode_valid_def valid_rune_def)
qed simp

lemma jstr_valid [simp]: "valid_utf8 s \<Longrightarrow> jstr s = JStr s"
  by (simp add: jstr_def valid_utf8_def)

lemma jstr_ascii [simp]: "ascii s \<Longrightarrow> jstr s = JStr s"
  by (simp add: jstr_def)

lemma valid_utf8_ascii: "ascii s \<Longrightarrow> valid_utf8 s"
  by (simp add: valid_utf8_def)

lemma valid_utf8_encoded: "list_all valid_rune rs \<Longrightarrow> valid_utf8 (utf8 rs)"
  by (simp add: valid_utf8_def coerce_utf8_def runes_utf8)

section \<open>Keys\<close>

text \<open>Case folding of a rune, as far as it can reach an ASCII letter.\<close>

definition fold_rune :: "nat \<Rightarrow> nat" where
  "fold_rune r =
     (if 97 \<le> r \<and> r \<le> 122 then r - 32 else if r = 383 then 83 else if r = 8490 then 75 else r)"

definition fold_key :: "string \<Rightarrow> nat list" where
  "fold_key k = map fold_rune (runes k)"

lemma fold_key_ascii: "ascii k \<Longrightarrow> fold_key k = map (fold_rune \<circ> byte) k"
  by (simp add: fold_key_def runes_def segments_ascii comp_def)

section \<open>Decoding into a struct\<close>

text \<open>What decoding one value into one field does to the struct.\<close>

datatype 's step = Set 's | TypeMismatch | Abort

type_synonym 's field = "string \<times> (json \<Rightarrow> 's \<Rightarrow> 's step)"

fun find_field :: "'s field list \<Rightarrow> nat list \<Rightarrow> (json \<Rightarrow> 's \<Rightarrow> 's step) option" where
  "find_field [] k = None"
| "find_field ((n, d) # fs) k = (if fold_key n = k then Some d else find_field fs k)"

text \<open>The result is the error flag and the struct as far as it was filled.\<close>

fun decode_fields :: "'s field list \<Rightarrow> (string \<times> json) list \<Rightarrow> bool \<Rightarrow> 's \<Rightarrow> bool \<times> 's" where
  "decode_fields fs [] bad s = (bad, s)"
| "decode_fields fs ((k, v) # kvs) bad s =
     (case find_field fs (fold_key k) of
        None \<Rightarrow> decode_fields fs kvs bad s
      | Some d \<Rightarrow>
          (case d v s of
             Set s' \<Rightarrow> decode_fields fs kvs bad s'
           | TypeMismatch \<Rightarrow> decode_fields fs kvs True s
           | Abort \<Rightarrow> (True, s)))"

definition unmarshal_struct :: "'s field list \<Rightarrow> 's \<Rightarrow> json \<Rightarrow> bool \<times> 's" where
  "unmarshal_struct fs zero j =
     (case j of
        JObj kvs \<Rightarrow> decode_fields fs kvs False zero
      | JNull \<Rightarrow> (False, zero)
      | _ \<Rightarrow> (True, zero))"

definition dec_string :: "(string \<Rightarrow> 's \<Rightarrow> 's) \<Rightarrow> json \<Rightarrow> 's \<Rightarrow> 's step" where
  "dec_string upd j s =
     (case j of JStr t \<Rightarrow> Set (upd t s) | JNull \<Rightarrow> Set s | _ \<Rightarrow> TypeMismatch)"

definition dec_int :: "(int \<Rightarrow> 's \<Rightarrow> 's) \<Rightarrow> json \<Rightarrow> 's \<Rightarrow> 's step" where
  "dec_int upd j s =
     (case j of
        JNum lit \<Rightarrow> (case Atoi lit of Some i \<Rightarrow> Set (upd i s) | None \<Rightarrow> TypeMismatch)
      | JNull \<Rightarrow> Set s
      | _ \<Rightarrow> TypeMismatch)"

definition dec_bool :: "(bool \<Rightarrow> 's \<Rightarrow> 's) \<Rightarrow> json \<Rightarrow> 's \<Rightarrow> 's step" where
  "dec_bool upd j s =
     (case j of JBool b \<Rightarrow> Set (upd b s) | JNull \<Rightarrow> Set s | _ \<Rightarrow> TypeMismatch)"

text \<open>A field with \<^verbatim>\<open>UnmarshalText\<close>: a string is handed to the parser.\<close>

definition dec_text :: "(string \<Rightarrow> 'a option) \<Rightarrow> ('a \<Rightarrow> 's \<Rightarrow> 's) \<Rightarrow> json \<Rightarrow> 's \<Rightarrow> 's step" where
  "dec_text parse upd j s =
     (case j of
        JStr t \<Rightarrow> (case parse t of Some x \<Rightarrow> Set (upd x s) | None \<Rightarrow> Abort)
      | JNull \<Rightarrow> Set s
      | _ \<Rightarrow> TypeMismatch)"

text \<open>A field with \<^verbatim>\<open>UnmarshalJSON\<close> that accepts a string or null (\<^verbatim>\<open>time.Time\<close>).\<close>

definition dec_json_text :: "(string \<Rightarrow> 'a option) \<Rightarrow> ('a \<Rightarrow> 's \<Rightarrow> 's) \<Rightarrow> json \<Rightarrow> 's \<Rightarrow> 's step" where
  "dec_json_text parse upd j s =
     (case j of
        JStr t \<Rightarrow> (case parse t of Some x \<Rightarrow> Set (upd x s) | None \<Rightarrow> Abort)
      | JNull \<Rightarrow> Set s
      | _ \<Rightarrow> Abort)"

lemma dec_string_JStr [simp]: "dec_string upd (JStr t) s = Set (upd t s)"
  by (simp add: dec_string_def)

lemma dec_int_jint [simp]: "int64 i \<Longrightarrow> dec_int upd (jint i) s = Set (upd i s)"
  by (simp add: dec_int_def jint_def Atoi_Itoa)

lemma dec_text_JStr [simp]: "parse t = Some x \<Longrightarrow> dec_text parse upd (JStr t) s = Set (upd x s)"
  by (simp add: dec_text_def)

lemma dec_json_text_JStr [simp]:
  "parse t = Some x \<Longrightarrow> dec_json_text parse upd (JStr t) s = Set (upd x s)"
  by (simp add: dec_json_text_def)

text \<open>An array of strings, and an array of structs, with the flag for a mismatch inside.\<close>

fun decode_strings :: "json list \<Rightarrow> bool \<times> string list" where
  "decode_strings [] = (False, [])"
| "decode_strings (j # js) =
     (let (bad, ss) = decode_strings js in
      (case j of
         JStr s \<Rightarrow> (bad, s # ss)
       | JNull \<Rightarrow> (bad, [] # ss)
       | _ \<Rightarrow> (True, [] # ss)))"

fun decode_structs :: "(json \<Rightarrow> bool \<times> 's) \<Rightarrow> json list \<Rightarrow> bool \<times> 's list" where
  "decode_structs dec [] = (False, [])"
| "decode_structs dec (j # js) =
     (let (b, x) = dec j; (bad, xs) = decode_structs dec js in (b \<or> bad, x # xs))"

section \<open>The identifier and time codecs\<close>

record codec =
  uuid_Parse :: "string \<Rightarrow> uuid option"
  uuid_String :: "uuid \<Rightarrow> string"
  pg_uuid :: "string \<Rightarrow> uuid option"    \<comment> \<open>pgx: a text argument of a uuid column\<close>
  time_Parse :: "string \<Rightarrow> time option"
  time_Format :: "time \<Rightarrow> string"

text \<open>
  The documented behaviour the program relies on: the canonical text of a UUID parses back to it,
  for the uuid package and for the database driver, and consists of hexadecimal digits and dashes (so it is ASCII and has no colon), and the text of
  a time parses back to it.
\<close>

locale go_codec =
  fixes cod :: codec
  assumes uuid_roundtrip: "uuid_Parse cod (uuid_String cod u) = Some u"
    and pg_uuid_String: "pg_uuid cod (uuid_String cod u) = Some u"
    and uuid_ascii: "ascii (uuid_String cod u)"
    and uuid_no_colon: "CHR '':'' \<notin> set (uuid_String cod u)"
    and uuid_empty: "uuid_Parse cod [] = None"
    and time_roundtrip: "time_Parse cod (time_Format cod t) = Some t"
    and time_ascii: "ascii (time_Format cod t)"
begin

lemma uuid_String_inject: "uuid_String cod u = uuid_String cod v \<longleftrightarrow> u = v"
  by (metis uuid_roundtrip option.inject)

lemma uuid_String_nonempty [simp]: "uuid_String cod u \<noteq> []"
  using uuid_roundtrip [of u] uuid_empty by auto

lemma split_tenant_session:
  "split_on CHR '':'' (uuid_String cod u @ CHR '':'' # uuid_String cod v) =
     [uuid_String cod u, uuid_String cod v]"
  by (simp add: split_on_append split_on_free uuid_no_colon)

end

subsection \<open>A concrete codec\<close>

text \<open>
  The canonical 8-4-4-4-12 text, and the forms the uuid package documents for \<^verbatim>\<open>Parse\<close>: canonical,
  \<^verbatim>\<open>urn:uuid:\<close> and braces around it, and 32 plain hexadecimal digits. Times are written as signed
  decimal nanoseconds. Witnesses use this codec; no definition of the program does.
\<close>

fun hex_fixed :: "nat \<Rightarrow> nat \<Rightarrow> string" where
  "hex_fixed 0 n = []"
| "hex_fixed (Suc k) n = hex_fixed k (n div 16) @ [hex_digit (n mod 16)]"

fun hex_number :: "nat \<Rightarrow> string \<Rightarrow> nat option" where
  "hex_number acc [] = Some acc"
| "hex_number acc (c # cs) =
     (case hex_value c of Some d \<Rightarrow> hex_number (acc * 16 + d) cs | None \<Rightarrow> None)"

definition dashed :: "string \<Rightarrow> string" where
  "dashed h = take 8 h @ ''-'' @ take 4 (drop 8 h) @ ''-'' @ take 4 (drop 12 h) @ ''-'' @
     take 4 (drop 16 h) @ ''-'' @ drop 20 h"

definition undashed :: "string \<Rightarrow> string" where
  "undashed s = take 8 s @ take 4 (drop 9 s) @ take 4 (drop 14 s) @ take 4 (drop 19 s) @ drop 24 s"

definition canonical_uuid :: "uuid \<Rightarrow> string" where
  "canonical_uuid u = dashed (hex_fixed 32 (unat u))"

definition parse_canonical :: "string \<Rightarrow> uuid option" where
  "parse_canonical s =
     (if length s = 36 \<and> dashed (undashed s) = s
      then map_option of_nat (hex_number 0 (undashed s)) else None)"

definition parse_uuid :: "string \<Rightarrow> uuid option" where
  "parse_uuid s =
     (if length s = 36 then parse_canonical s
      else if length s = 45 then
        (if has_prefix s ''urn:uuid:'' then parse_canonical (drop 9 s) else None)
      else if length s = 38 then parse_canonical (take 36 (drop 1 s))
      else if length s = 32 then map_option of_nat (hex_number 0 s)
      else None)"

definition parse_signed :: "string \<Rightarrow> int option" where
  "parse_signed s =
     (if has_prefix s ''-'' then map_option (\<lambda>n. - int n) (digits_val 0 (tl s))
      else map_option int (digits_val 0 s))"

definition ref_codec :: codec where
  "ref_codec = \<lparr>uuid_Parse = parse_uuid, uuid_String = canonical_uuid,
     pg_uuid = (\<lambda>s. if length s = 36 then parse_canonical s
       else if length s = 32 then map_option of_nat (hex_number 0 s) else None),
     time_Parse = parse_signed, time_Format = Itoa\<rparr>"

lemma length_hex_fixed [simp]: "length (hex_fixed k n) = k"
  by (induction k arbitrary: n) auto

lemma hex_number_append:
  "hex_number acc (xs @ ys) = (case hex_number acc xs of None \<Rightarrow> None | Some a \<Rightarrow> hex_number a ys)"
  by (induction acc xs rule: hex_number.induct) (auto split: option.splits)

lemma hex_number_fixed: "n < 16 ^ k \<Longrightarrow> hex_number 0 (hex_fixed k n) = Some n"
proof (induction k arbitrary: n)
  case (Suc k)
  have "n div 16 < 16 ^ k" using Suc.prems by (simp add: less_mult_imp_div_less mult.commute)
  with Suc.IH show ?case by (simp add: hex_number_append hex_value_digit)
qed simp

lemma hex_digit_cases: "n < 16 \<Longrightarrow> byte (hex_digit n) \<in> {48..57} \<union> {97..102}"
  by (auto simp: hex_digit_def byte_chr)

lemma hex_fixed_set: "c \<in> set (hex_fixed k n) \<Longrightarrow> byte c \<in> {48..57} \<union> {97..102}"
proof (induction k arbitrary: n)
  case (Suc k)
  show ?case
  proof (cases "c = hex_digit (n mod 16)")
    case True
    then show ?thesis using hex_digit_cases [of "n mod 16"] by simp
  next
    case False
    then have "c \<in> set (hex_fixed k (n div 16))" using Suc.prems by simp
    then show ?thesis by (rule Suc.IH)
  qed
qed simp

lemma hex_fixed_set': "c \<in> set (hex_fixed k n) \<Longrightarrow> byte c < 128 \<and> byte c \<noteq> 58"
  using hex_fixed_set [of c k n] by auto

lemma undashed_dashed: "length h = 32 \<Longrightarrow> undashed (dashed h) = h"
proof -
  assume len: "length h = 32"
  have "drop 16 h = take 4 (drop 16 h) @ drop 20 h"
    using append_take_drop_id [of 4 "drop 16 h"] by simp
  moreover have "drop 12 h = take 4 (drop 12 h) @ drop 16 h"
    using append_take_drop_id [of 4 "drop 12 h"] by simp
  moreover have "drop 8 h = take 4 (drop 8 h) @ drop 12 h"
    using append_take_drop_id [of 4 "drop 8 h"] by simp
  moreover have "h = take 8 h @ drop 8 h" by simp
  ultimately have h: "h = take 8 h @ take 4 (drop 8 h) @ take 4 (drop 12 h) @ take 4 (drop 16 h) @ drop 20 h"
    by simp
  have "undashed (dashed h) =
    take 8 h @ take 4 (drop 8 h) @ take 4 (drop 12 h) @ take 4 (drop 16 h) @ drop 20 h"
    using len by (simp add: dashed_def undashed_def)
  with h show ?thesis by simp
qed

lemma length_dashed: "length h = 32 \<Longrightarrow> length (dashed h) = 36"
  by (simp add: dashed_def)

lemma set_dashed: "set (dashed h) \<subseteq> insert CHR ''-'' (set h)"
  by (auto simp: dashed_def dest: in_set_takeD in_set_dropD)

lemma canonical_uuid_chars: "c \<in> set (canonical_uuid u) \<Longrightarrow> byte c < 128 \<and> byte c \<noteq> 58"
  using set_dashed [of "hex_fixed 32 (unat u)"] hex_fixed_set' [of c 32 "unat u"]
  by (auto simp: canonical_uuid_def byte_def)

lemma parse_canonical_uuid: "parse_canonical (canonical_uuid u) = Some u"
proof -
  have "unat u < 2 ^ LENGTH(128)" by (rule unsigned_less)
  then have "unat u < 16 ^ 32" by simp
  then show ?thesis
    by (simp add: parse_canonical_def canonical_uuid_def length_dashed
        undashed_dashed hex_number_fixed)
qed

lemma length_canonical_uuid: "length (canonical_uuid u) = 36"
  by (simp add: canonical_uuid_def length_dashed)

lemma parse_uuid_canonical: "parse_uuid (canonical_uuid u) = Some u"
  by (simp add: parse_uuid_def length_canonical_uuid parse_canonical_uuid)

lemma parse_signed_Itoa: "parse_signed (Itoa t) = Some t"
proof (cases "t < 0")
  case True
  then show ?thesis by (simp add: parse_signed_def Itoa_def digits_val_nat_text)
next
  case False
  obtain c cs where c: "nat_text (nat t) = c # cs" by (cases "nat_text (nat t)") auto
  then have "c \<noteq> CHR ''-''" using nat_text_hd [of "nat t"] by auto
  then have "\<not> has_prefix (nat_text (nat t)) ''-''" by (simp add: c)
  with False show ?thesis by (simp add: parse_signed_def Itoa_def digits_val_nat_text)
qed

lemma Itoa_ascii: "ascii (Itoa t)"
proof -
  have "byte c < 128" if "c \<in> set (nat_text n)" for c n
    using nat_text_digit [OF that] by simp
  then show ?thesis by (auto simp: Itoa_def ascii_def list_all_iff byte_def)
qed

interpretation ref: go_codec ref_codec
proof
  show "uuid_Parse ref_codec (uuid_String ref_codec u) = Some u" for u
    by (simp add: ref_codec_def parse_uuid_canonical)
  show "pg_uuid ref_codec (uuid_String ref_codec u) = Some u" for u
    by (simp add: ref_codec_def length_canonical_uuid parse_canonical_uuid)
  show "ascii (uuid_String ref_codec u)" for u
    using canonical_uuid_chars by (auto simp: ref_codec_def ascii_def list_all_iff)
  show "CHR '':'' \<notin> set (uuid_String ref_codec u)" for u
    using canonical_uuid_chars [of "CHR '':''" u] by (auto simp: ref_codec_def byte_def)
  show "uuid_Parse ref_codec [] = None"
    by code_simp
  show "time_Parse ref_codec (time_Format ref_codec t) = Some t" for t
    by (simp add: ref_codec_def parse_signed_Itoa)
  show "ascii (time_Format ref_codec t)" for t
    by (simp add: ref_codec_def Itoa_ascii)
qed

end
