(* ===== verification/Model.thy ===== *)
theory Model
  imports GoJson
begin

text \<open>
  The data of \<^verbatim>\<open>internal/model/model.go\<close>: one record per struct, fields in the source's order, and
  the JSON form that the struct tags give to the two structs that travel through Redis,
  \<^verbatim>\<open>Message\<close> (the session cache) and \<^verbatim>\<open>MessagePayload\<close> (the embedder's stream).
\<close>

section \<open>Structs\<close>

record session =
  ses_ID :: uuid
  ses_TenantID :: uuid
  ses_UserID :: uuid
  ses_Title :: string
  ses_Meta :: string
  ses_CreatedAt :: time
  ses_UpdatedAt :: time

record message =
  msg_ID :: uuid
  msg_TenantID :: uuid
  msg_SessionID :: uuid
  msg_UserID :: uuid
  msg_Role :: string
  msg_Content :: string
  msg_TokenCount :: int
  msg_CreatedAt :: time

record entity_fact =
  ef_EntityName :: string
  ef_EntityType :: string
  ef_Attribute :: string
  ef_Value :: string
  ef_SourceQuote :: string
  ef_Confidence :: rat

record extracted_fact =
  xf_EntityName :: string
  xf_EntityType :: string
  xf_Attribute :: string
  xf_Value :: string
  xf_SourceQuote :: string

record semantic_message =
  sm_ID :: uuid
  sm_Content :: string
  sm_CosineSim :: rat
  sm_Score :: rat
  sm_Importance :: rat
  sm_CreatedAt :: time

record memory_record =
  mr_ID :: uuid
  mr_Type :: string
  mr_Payload :: json
  mr_Importance :: rat
  mr_AccessCount :: int
  mr_LastAccessedAt :: time
  mr_CreatedAt :: time

record user_profile =
  up_CanonicalName :: string
  up_Aliases :: "string list"

record message_payload =
  mp_MessageID :: uuid
  mp_UserID :: uuid
  mp_TenantID :: uuid
  mp_SessionID :: uuid

record experience =
  exp_ID :: uuid
  exp_TenantID :: uuid
  exp_UserID :: uuid
  exp_Description :: string
  exp_Steps :: json
  exp_SourceSessionID :: "uuid option"
  exp_Confidence :: rat
  exp_UsageCount :: int
  exp_SuccessCount :: int
  exp_IsActive :: bool
  exp_CreatedAt :: time
  exp_UpdatedAt :: time

record llm_usage =
  lu_ID :: uuid
  lu_TenantID :: uuid
  lu_UserID :: uuid
  lu_SessionID :: uuid
  lu_Feature :: string
  lu_Model :: string
  lu_TotalTokens :: int
  lu_CreatedAt :: time

text \<open>Go's zero values: the nil UUID, and the zero \<^verbatim>\<open>time.Time\<close> (1 January of the year 1).\<close>

definition zero_time :: time where
  "zero_time = - 62135596800 * second"

definition zero_message :: message where
  "zero_message = \<lparr>msg_ID = 0, msg_TenantID = 0, msg_SessionID = 0, msg_UserID = 0,
     msg_Role = [], msg_Content = [], msg_TokenCount = 0, msg_CreatedAt = zero_time\<rparr>"

definition zero_message_payload :: message_payload where
  "zero_message_payload = \<lparr>mp_MessageID = 0, mp_UserID = 0, mp_TenantID = 0, mp_SessionID = 0\<rparr>"

definition zero_extracted_fact :: extracted_fact where
  "zero_extracted_fact = \<lparr>xf_EntityName = [], xf_EntityType = [], xf_Attribute = [],
     xf_Value = [], xf_SourceQuote = []\<rparr>"

section \<open>JSON of the structs\<close>

definition message_json :: "codec \<Rightarrow> message \<Rightarrow> json" where
  "message_json cod m = JObj
     [(''id'', jstr (uuid_String cod (msg_ID m))),
      (''tenant_id'', jstr (uuid_String cod (msg_TenantID m))),
      (''session_id'', jstr (uuid_String cod (msg_SessionID m))),
      (''user_id'', jstr (uuid_String cod (msg_UserID m))),
      (''role'', jstr (msg_Role m)),
      (''content'', jstr (msg_Content m)),
      (''token_count'', jint (msg_TokenCount m)),
      (''created_at'', jstr (time_Format cod (msg_CreatedAt m)))]"

definition message_fields :: "codec \<Rightarrow> message field list" where
  "message_fields cod =
     [(''id'', dec_text (uuid_Parse cod) (\<lambda>u m. m\<lparr>msg_ID := u\<rparr>)),
      (''tenant_id'', dec_text (uuid_Parse cod) (\<lambda>u m. m\<lparr>msg_TenantID := u\<rparr>)),
      (''session_id'', dec_text (uuid_Parse cod) (\<lambda>u m. m\<lparr>msg_SessionID := u\<rparr>)),
      (''user_id'', dec_text (uuid_Parse cod) (\<lambda>u m. m\<lparr>msg_UserID := u\<rparr>)),
      (''role'', dec_string (\<lambda>s m. m\<lparr>msg_Role := s\<rparr>)),
      (''content'', dec_string (\<lambda>s m. m\<lparr>msg_Content := s\<rparr>)),
      (''token_count'', dec_int (\<lambda>i m. m\<lparr>msg_TokenCount := i\<rparr>)),
      (''created_at'', dec_json_text (time_Parse cod) (\<lambda>t m. m\<lparr>msg_CreatedAt := t\<rparr>))]"

definition unmarshal_message :: "codec \<Rightarrow> json \<Rightarrow> bool \<times> message" where
  "unmarshal_message cod = unmarshal_struct (message_fields cod) zero_message"

definition message_payload_json :: "codec \<Rightarrow> message_payload \<Rightarrow> json" where
  "message_payload_json cod p = JObj
     [(''message_id'', jstr (uuid_String cod (mp_MessageID p))),
      (''user_id'', jstr (uuid_String cod (mp_UserID p))),
      (''tenant_id'', jstr (uuid_String cod (mp_TenantID p))),
      (''session_id'', jstr (uuid_String cod (mp_SessionID p)))]"

definition message_payload_fields :: "codec \<Rightarrow> message_payload field list" where
  "message_payload_fields cod =
     [(''message_id'', dec_text (uuid_Parse cod) (\<lambda>u p. p\<lparr>mp_MessageID := u\<rparr>)),
      (''user_id'', dec_text (uuid_Parse cod) (\<lambda>u p. p\<lparr>mp_UserID := u\<rparr>)),
      (''tenant_id'', dec_text (uuid_Parse cod) (\<lambda>u p. p\<lparr>mp_TenantID := u\<rparr>)),
      (''session_id'', dec_text (uuid_Parse cod) (\<lambda>u p. p\<lparr>mp_SessionID := u\<rparr>))]"

definition unmarshal_message_payload :: "codec \<Rightarrow> json \<Rightarrow> bool \<times> message_payload" where
  "unmarshal_message_payload cod = unmarshal_struct (message_payload_fields cod) zero_message_payload"

definition extracted_fact_fields :: "extracted_fact field list" where
  "extracted_fact_fields =
     [(''entity_name'', dec_string (\<lambda>s f. f\<lparr>xf_EntityName := s\<rparr>)),
      (''entity_type'', dec_string (\<lambda>s f. f\<lparr>xf_EntityType := s\<rparr>)),
      (''attribute'', dec_string (\<lambda>s f. f\<lparr>xf_Attribute := s\<rparr>)),
      (''value'', dec_string (\<lambda>s f. f\<lparr>xf_Value := s\<rparr>)),
      (''source_quote'', dec_string (\<lambda>s f. f\<lparr>xf_SourceQuote := s\<rparr>))]"

definition unmarshal_extracted_fact :: "json \<Rightarrow> bool \<times> extracted_fact" where
  "unmarshal_extracted_fact = unmarshal_struct extracted_fact_fields zero_extracted_fact"

section \<open>Round trips\<close>

text \<open>The folded keys, computed once.\<close>

lemma folded_keys [text_simps]:
  "fold_key ''id'' = [73, 68]"
  "fold_key ''tenant_id'' = [84, 69, 78, 65, 78, 84, 95, 73, 68]"
  "fold_key ''session_id'' = [83, 69, 83, 83, 73, 79, 78, 95, 73, 68]"
  "fold_key ''user_id'' = [85, 83, 69, 82, 95, 73, 68]"
  "fold_key ''message_id'' = [77, 69, 83, 83, 65, 71, 69, 95, 73, 68]"
  "fold_key ''role'' = [82, 79, 76, 69]"
  "fold_key ''content'' = [67, 79, 78, 84, 69, 78, 84]"
  "fold_key ''token_count'' = [84, 79, 75, 69, 78, 95, 67, 79, 85, 78, 84]"
  "fold_key ''created_at'' = [67, 82, 69, 65, 84, 69, 68, 95, 65, 84]"
  "fold_key ''batch_size'' = [66, 65, 84, 67, 72, 95, 83, 73, 90, 69]"
  "fold_key ''last_message_id'' = [76, 65, 83, 84, 95, 77, 69, 83, 83, 65, 71, 69, 95, 73, 68]"
  by code_simp+

text \<open>A message whose text is valid UTF-8 and whose token count fits an int survives the cache.\<close>

definition storable :: "message \<Rightarrow> bool" where
  "storable m \<longleftrightarrow> valid_utf8 (msg_Role m) \<and> valid_utf8 (msg_Content m) \<and> int64 (msg_TokenCount m)"

context go_codec begin

lemma unmarshal_message_json:
  "storable m \<Longrightarrow> unmarshal_message cod (message_json cod m) = (False, m)"
  by (simp add: unmarshal_message_def message_json_def message_fields_def unmarshal_struct_def
      storable_def text_simps uuid_roundtrip uuid_ascii time_roundtrip time_ascii zero_message_def)

lemma unmarshal_message_payload_json:
  "unmarshal_message_payload cod (message_payload_json cod p) = (False, p)"
  by (simp add: unmarshal_message_payload_def message_payload_json_def message_payload_fields_def
      unmarshal_struct_def text_simps uuid_roundtrip uuid_ascii zero_message_payload_def)

end

end
