(* ===== verification/Tables.thy ===== *)
theory Tables
  imports Model
begin

text \<open>
  The PostgreSQL side of \<^verbatim>\<open>internal/repository\<close>: one record per table with the columns of the
  migrations, the database with its clock and its source of identifiers, and the way a call through
  the connection pool fails. A table is the list of its rows in insertion order. The statements
  themselves, whose SQL text is in the repository's Go files, are modelled with the operations that
  issue them.

  A call of \<^verbatim>\<open>Pool.Exec\<close>, \<^verbatim>\<open>Query\<close> or \<^verbatim>\<open>QueryRow\<close> can fail before the statement takes effect (no
  connection, timeout, server gone). Which calls fail is not determined by the code: \<open>db_faults\<close> is
  the environment's schedule, one entry per call, \<open>None\<close> for a call that reaches the database; the
  empty schedule is a database that always answers.
\<close>

section \<open>Rows\<close>

record session_row =
  sr_id :: uuid
  sr_tenant_id :: uuid
  sr_user_id :: uuid
  sr_title :: "string option"
  sr_meta :: string
  sr_created_at :: time
  sr_updated_at :: time

record message_row = message +
  msg_embedding :: "vec option"

record entity_row =
  em_id :: uuid
  em_tenant_id :: uuid
  em_user_id :: uuid
  em_session_id :: uuid
  em_message_id :: uuid
  em_entity_name :: string
  em_entity_type :: string
  em_attribute :: string
  em_value_encrypted :: string
  em_value_hash :: string
  em_valid_from :: time
  em_valid_until :: "time option"
  em_superseded_by :: "uuid option"
  em_confidence :: rat
  em_source_quote :: string
  em_embedding :: "vec option"
  em_created_at :: time

record memory_row =
  me_id :: uuid
  me_tenant_id :: uuid
  me_user_id :: uuid
  me_session_id :: "uuid option"
  me_type :: string
  me_payload :: json
  me_embedding :: "vec option"
  me_importance :: rat
  me_access_count :: int
  me_last_accessed_at :: "time option"
  me_created_at :: time

record experience_row =
  ex_id :: uuid
  ex_tenant_id :: uuid
  ex_user_id :: uuid
  ex_description :: string
  ex_trigger_embedding :: "vec option"
  ex_steps :: json
  ex_source_session_id :: "uuid option"
  ex_source_message_ids :: "uuid list"
  ex_confidence :: rat
  ex_usage_count :: int
  ex_success_count :: int
  ex_is_active :: bool
  ex_created_at :: time
  ex_updated_at :: time

section \<open>The database\<close>

record db =
  db_sessions :: "session_row list"
  db_messages :: "message_row list"
  db_entities :: "entity_row list"
  db_memories :: "memory_row list"
  db_experiences :: "experience_row list"
  db_usage :: "llm_usage list"
  db_now :: time
  db_uuids :: "nat \<Rightarrow> uuid"
  db_seq :: nat
  db_faults :: "err option list"

text \<open>\<^verbatim>\<open>gen_random_uuid()\<close>: the next identifier of the environment's sequence.\<close>

definition gen_uuid :: "db \<Rightarrow> uuid \<times> db" where
  "gen_uuid d = (db_uuids d (db_seq d), d\<lparr>db_seq := Suc (db_seq d)\<rparr>)"

text \<open>One call through the pool: a read, and a statement that may change the tables.\<close>

definition pool_call :: "db \<Rightarrow> err option \<times> db" where
  "pool_call d = (case db_faults d of [] \<Rightarrow> (None, d) | f # fs \<Rightarrow> (f, d\<lparr>db_faults := fs\<rparr>))"

definition pool_query :: "(db \<Rightarrow> 'a res) \<Rightarrow> db \<Rightarrow> 'a res \<times> db" where
  "pool_query q d = (case pool_call d of (Some e, d') \<Rightarrow> (Inl e, d') | (None, d') \<Rightarrow> (q d', d'))"

definition pool_exec :: "(db \<Rightarrow> 'a res \<times> db) \<Rightarrow> db \<Rightarrow> 'a res \<times> db" where
  "pool_exec q d = (case pool_call d of (Some e, d') \<Rightarrow> (Inl e, d') | (None, d') \<Rightarrow> q d')"

lemma pool_query_up [simp]: "db_faults d = [] \<Longrightarrow> pool_query q d = (q d, d)"
  by (simp add: pool_query_def pool_call_def)

lemma pool_exec_up [simp]: "db_faults d = [] \<Longrightarrow> pool_exec q d = q d"
  by (simp add: pool_exec_def pool_call_def)

text \<open>Two databases with the same tables.\<close>

definition same_tables :: "db \<Rightarrow> db \<Rightarrow> bool" where
  "same_tables d d' \<longleftrightarrow> db_sessions d' = db_sessions d \<and> db_messages d' = db_messages d \<and>
     db_entities d' = db_entities d \<and> db_memories d' = db_memories d \<and>
     db_experiences d' = db_experiences d \<and> db_usage d' = db_usage d"

lemma same_tables_refl [simp]: "same_tables d d"
  by (simp add: same_tables_def)

lemma same_tables_trans: "same_tables a b \<Longrightarrow> same_tables b c \<Longrightarrow> same_tables a c"
  by (simp add: same_tables_def)

lemma pool_call_tables: "pool_call d = (r, d') \<Longrightarrow> same_tables d d'"
  by (auto simp: pool_call_def same_tables_def split: list.splits)

lemma pool_query_tables: "pool_query q d = (r, d') \<Longrightarrow> same_tables d d'"
  by (auto simp: pool_query_def split: prod.splits option.splits dest: pool_call_tables)

lemma pool_query_value:
  "pool_query q d = (Inr x, d') \<Longrightarrow> (\<And>a b. same_tables a b \<Longrightarrow> q a = q b) \<Longrightarrow> q d = Inr x"
  by (auto simp: pool_query_def split: prod.splits option.splits dest!: pool_call_tables)

text \<open>
  An invariant of the tables: a property that does not look at the clock, the identifier source or the
  fault schedule. A pool call keeps it as soon as the statement it carries does.
\<close>

locale table_invariant =
  fixes inv :: "db \<Rightarrow> bool"
  assumes tables_only: "same_tables d d' \<Longrightarrow> inv d \<Longrightarrow> inv d'"
begin

lemma query_keeps: "pool_query q d = (r, d') \<Longrightarrow> inv d \<Longrightarrow> inv d'"
  by (rule tables_only [OF pool_query_tables])

lemma exec_keeps:
  assumes step: "\<And>a r b. q a = (r, b) \<Longrightarrow> inv a \<Longrightarrow> inv b"
    and call: "pool_exec q d = (r, d')" and inv: "inv d"
  shows "inv d'"
proof -
  obtain f a where a: "pool_call d = (f, a)" by (cases "pool_call d")
  then have "inv a" using inv pool_call_tables tables_only by blast
  with a call step show ?thesis by (auto simp: pool_exec_def split: option.splits)
qed

lemma seq_keeps: "inv d \<Longrightarrow> inv (d\<lparr>db_seq := n\<rparr>)"
  by (rule tables_only [of d]) (simp add: same_tables_def)

end

text \<open>
  A text argument compared with a uuid column is converted by the driver; the call fails when the
  text is not one of the forms it reads.
\<close>

definition with_uuid :: "codec \<Rightarrow> string \<Rightarrow> (uuid \<Rightarrow> 'a res) \<Rightarrow> 'a res" where
  "with_uuid cod s k = (case pg_uuid cod s of None \<Rightarrow> Inl (Err ''cannot encode uuid'') | Some u \<Rightarrow> k u)"

definition exec_uuid :: "codec \<Rightarrow> string \<Rightarrow> (uuid \<Rightarrow> db \<Rightarrow> 'a res \<times> db) \<Rightarrow> db \<Rightarrow> 'a res \<times> db" where
  "exec_uuid cod s k d =
     (case pg_uuid cod s of None \<Rightarrow> (Inl (Err ''cannot encode uuid''), d) | Some u \<Rightarrow> k u d)"

lemma with_uuid_Some [simp]: "pg_uuid cod s = Some u \<Longrightarrow> with_uuid cod s k = k u"
  by (simp add: with_uuid_def)

lemma exec_uuid_Some [simp]: "pg_uuid cod s = Some u \<Longrightarrow> exec_uuid cod s k d = k u d"
  by (simp add: exec_uuid_def)

lemma with_uuid_Inr: "with_uuid cod s k = Inr x \<longleftrightarrow> (\<exists>u. pg_uuid cod s = Some u \<and> k u = Inr x)"
  by (auto simp: with_uuid_def split: option.splits)

text \<open>A database for witnesses: empty tables, fresh identifiers 1, 2, 3 and so on.\<close>

definition empty_db :: db where
  "empty_db = \<lparr>db_sessions = [], db_messages = [], db_entities = [], db_memories = [],
     db_experiences = [], db_usage = [], db_now = 0, db_uuids = (\<lambda>n. of_nat (Suc n)), db_seq = 0,
     db_faults = []\<rparr>"

end
