(* ===== verification/Messages.thy ===== *)
theory Messages
  imports Tables
begin

text \<open>
  Messages and sessions in the database: \<^verbatim>\<open>internal/repository/message.go\<close>,
  \<^verbatim>\<open>internal/repository/session.go\<close> and the message queries of \<^verbatim>\<open>internal/repository/entity.go\<close>.
  The invariant is the referential integrity the schema declares (\<^verbatim>\<open>migrations/001_init.sql\<close>): unique
  identifiers, every message in an existing session, every entity mention at an existing message.
\<close>

section \<open>Statements\<close>

definition session_exists :: "uuid \<Rightarrow> db \<Rightarrow> bool" where
  "session_exists s d \<longleftrightarrow> s \<in> set (map sr_id (db_sessions d))"

text \<open>INSERT INTO sessions ... ON CONFLICT (id) DO NOTHING.\<close>

definition ensure_session :: "message \<Rightarrow> db \<Rightarrow> db" where
  "ensure_session m d =
     (if session_exists (msg_SessionID m) d then d
      else d\<lparr>db_sessions := db_sessions d @
        [\<lparr>sr_id = msg_SessionID m, sr_tenant_id = msg_TenantID m, sr_user_id = msg_UserID m,
          sr_title = None, sr_meta = ''{}'', sr_created_at = db_now d, sr_updated_at = db_now d\<rparr>]\<rparr>)"

definition validRoles :: "string list" where
  "validRoles = [''user'', ''assistant'', ''system'']"

text \<open>INSERT INTO messages: primary key, CHECK on the role, foreign key; created_at is NOW().\<close>

definition insert_message_row :: "message \<Rightarrow> db \<Rightarrow> unit res \<times> db" where
  "insert_message_row m d =
     (if msg_ID m \<in> set (map msg_ID (db_messages d)) then (Inl (Err ''duplicate key''), d)
      else if msg_Role m \<notin> set validRoles then (Inl (Err ''check constraint''), d)
      else if \<not> session_exists (msg_SessionID m) d then (Inl (Err ''foreign key''), d)
      else (Inr (), d\<lparr>db_messages := db_messages d @
        [message.extend (m\<lparr>msg_CreatedAt := db_now d\<rparr>) \<lparr>msg_embedding = None\<rparr>]\<rparr>))"

definition InsertMessage :: "message \<Rightarrow> db \<Rightarrow> err option \<times> db" where
  "InsertMessage m d =
     (case pool_exec (\<lambda>d. (Inr (), ensure_session m d)) d of
        (Inl e, d1) \<Rightarrow> (Some e, d1)
      | (Inr _, d1) \<Rightarrow>
          (case pool_exec (insert_message_row m) d1 of
             (Inl e, d2) \<Rightarrow> (Some e, d2)
           | (Inr _, d2) \<Rightarrow> (None, d2)))"

definition UpdateEmbedding :: "codec \<Rightarrow> string \<Rightarrow> vec \<Rightarrow> db \<Rightarrow> unit res \<times> db" where
  "UpdateEmbedding cod messageID embedding =
     pool_exec (exec_uuid cod messageID (\<lambda>u d.
       (Inr (), d\<lparr>db_messages := update_where (\<lambda>m. msg_ID m = u)
          (\<lambda>m. m\<lparr>msg_embedding := Some embedding\<rparr>) (db_messages d)\<rparr>)))"

text \<open>LIMIT n: a negative limit is an error.\<close>

definition sql_limit :: "int \<Rightarrow> 'r list \<Rightarrow> 'r list res" where
  "sql_limit n rs = (if n < 0 then Inl (Err ''LIMIT must not be negative'') else Inr (take (nat n) rs))"

definition newest_first :: "(message_row \<Rightarrow> bool) \<Rightarrow> db \<Rightarrow> message list" where
  "newest_first p d = map message.truncate (order_desc msg_CreatedAt (filter p (db_messages d)))"

definition GetRecent :: "codec \<Rightarrow> string \<Rightarrow> string \<Rightarrow> int \<Rightarrow> db \<Rightarrow> message list res \<times> db" where
  "GetRecent cod tenantID userID limit =
     pool_query (\<lambda>d. with_uuid cod tenantID (\<lambda>t. with_uuid cod userID (\<lambda>u.
       sql_limit limit (newest_first (\<lambda>m. msg_TenantID m = t \<and> msg_UserID m = u) d))))"

definition history_limit :: "int \<Rightarrow> int" where
  "history_limit limit = (if limit \<le> 0 \<or> limit > 100 then 50 else limit)"

definition message_time :: "uuid \<Rightarrow> uuid \<Rightarrow> db \<Rightarrow> time option" where
  "message_time i t d =
     map_option msg_CreatedAt (List.find (\<lambda>m. msg_ID m = i \<and> msg_TenantID m = t) (db_messages d))"

definition in_session :: "uuid \<Rightarrow> uuid \<Rightarrow> message_row \<Rightarrow> bool" where
  "in_session t s m \<longleftrightarrow> msg_TenantID m = t \<and> msg_SessionID m = s"

definition GetSessionHistory ::
  "codec \<Rightarrow> string \<Rightarrow> string \<Rightarrow> int \<Rightarrow> string \<Rightarrow> db \<Rightarrow> message list res \<times> db" where
  "GetSessionHistory cod tenantID sessionID limit beforeID =
     pool_query (\<lambda>d. with_uuid cod tenantID (\<lambda>t. with_uuid cod sessionID (\<lambda>s.
       if beforeID = [] then sql_limit (history_limit limit) (newest_first (in_session t s) d)
       else with_uuid cod beforeID (\<lambda>b.
         sql_limit (history_limit limit)
           (newest_first (\<lambda>m. in_session t s m \<and>
              (case message_time b t d of None \<Rightarrow> False | Some c \<Rightarrow> msg_CreatedAt m < c)) d)))))"

section \<open>The message queries of the entity repository\<close>

definition GetRecentMessages ::
  "codec \<Rightarrow> string \<Rightarrow> string \<Rightarrow> string \<Rightarrow> int \<Rightarrow> db \<Rightarrow> message list res \<times> db" where
  "GetRecentMessages cod tenantID userID sessionID limit =
     pool_query (\<lambda>d. with_uuid cod tenantID (\<lambda>t. with_uuid cod userID (\<lambda>u. with_uuid cod sessionID (\<lambda>s.
       sql_limit limit (newest_first (\<lambda>m. in_session t s m \<and> msg_UserID m = u) d)))))"

definition anchor_time :: "codec \<Rightarrow> string \<Rightarrow> string \<Rightarrow> db \<Rightarrow> time res \<times> db" where
  "anchor_time cod anchorMessageID tenantID =
     pool_query (\<lambda>d. with_uuid cod anchorMessageID (\<lambda>a. with_uuid cod tenantID (\<lambda>t.
       case message_time a t d of None \<Rightarrow> Inl (Err ''no rows in result set'') | Some c \<Rightarrow> Inr c)))"

definition GetRecentMessagesUntil ::
  "codec \<Rightarrow> string \<Rightarrow> string \<Rightarrow> string \<Rightarrow> string \<Rightarrow> int \<Rightarrow> db \<Rightarrow> message list res \<times> db" where
  "GetRecentMessagesUntil cod tenantID userID sessionID anchorMessageID limit d =
     (if anchorMessageID = [] then GetRecentMessages cod tenantID userID sessionID limit d
      else (case anchor_time cod anchorMessageID tenantID d of
              (Inl _, d1) \<Rightarrow> GetRecentMessages cod tenantID userID sessionID limit d1
            | (Inr c, d1) \<Rightarrow>
                pool_query (\<lambda>d. with_uuid cod tenantID (\<lambda>t. with_uuid cod userID (\<lambda>u. with_uuid cod sessionID (\<lambda>s.
                  sql_limit limit
                    (newest_first (\<lambda>m. in_session t s m \<and> msg_UserID m = u \<and> msg_CreatedAt m \<le> c) d))))) d1))"

definition GetMessage :: "codec \<Rightarrow> string \<Rightarrow> db \<Rightarrow> message res \<times> db" where
  "GetMessage cod messageID =
     pool_query (\<lambda>d. with_uuid cod messageID (\<lambda>u.
       case List.find (\<lambda>m. msg_ID m = u) (db_messages d) of
         None \<Rightarrow> Inl (Err ''no rows in result set'') | Some m \<Rightarrow> Inr (message.truncate m)))"

section \<open>Sessions\<close>

definition create_session_row :: "session \<Rightarrow> db \<Rightarrow> unit res \<times> db" where
  "create_session_row s d =
     (if session_exists (ses_ID s) d then (Inl (Err ''duplicate key''), d)
      else (Inr (), d\<lparr>db_sessions := db_sessions d @
        [\<lparr>sr_id = ses_ID s, sr_tenant_id = ses_TenantID s, sr_user_id = ses_UserID s,
          sr_title = Some (ses_Title s), sr_meta = ses_Meta s,
          sr_created_at = db_now d, sr_updated_at = db_now d\<rparr>]\<rparr>))"

definition CreateSession :: "session \<Rightarrow> db \<Rightarrow> err option \<times> db" where
  "CreateSession s d = apfst err_of (pool_exec (create_session_row s) d)"

text \<open>Scanning a row into \<^verbatim>\<open>model.Session\<close>: a NULL title does not fit a Go string.\<close>

definition scan_session :: "session_row \<Rightarrow> session res" where
  "scan_session r =
     (case sr_title r of
        None \<Rightarrow> Inl (Err ''cannot scan NULL into *string'')
      | Some t \<Rightarrow> Inr \<lparr>ses_ID = sr_id r, ses_TenantID = sr_tenant_id r, ses_UserID = sr_user_id r,
          ses_Title = t, ses_Meta = sr_meta r, ses_CreatedAt = sr_created_at r,
          ses_UpdatedAt = sr_updated_at r\<rparr>)"

fun scan_sessions :: "session_row list \<Rightarrow> session list res" where
  "scan_sessions [] = Inr []"
| "scan_sessions (r # rs) =
     (case scan_session r of
        Inl e \<Rightarrow> Inl e
      | Inr s \<Rightarrow> (case scan_sessions rs of Inl e \<Rightarrow> Inl e | Inr ss \<Rightarrow> Inr (s # ss)))"

definition ListSessions ::
  "codec \<Rightarrow> string \<Rightarrow> string \<Rightarrow> int \<Rightarrow> int \<Rightarrow> db \<Rightarrow> session list res \<times> db" where
  "ListSessions cod tenantID userID limit offset =
     (let limit' = (if limit \<le> 0 \<or> limit > 100 then 20 else limit) in
      pool_query (\<lambda>d. with_uuid cod tenantID (\<lambda>t. with_uuid cod userID (\<lambda>u.
        if offset < 0 then Inl (Err ''OFFSET must not be negative'')
        else (case sql_limit limit' (drop (nat offset) (order_desc sr_updated_at
                (filter (\<lambda>s. sr_tenant_id s = t \<and> sr_user_id s = u) (db_sessions d)))) of
                Inl e \<Rightarrow> Inl e | Inr rows \<Rightarrow> scan_sessions rows)))))"

text \<open>
  DELETE FROM sessions: the messages of the session go with it (ON DELETE CASCADE), and an entity
  mention that refers to one of them makes the statement fail.
\<close>

definition delete_session_row :: "uuid \<Rightarrow> uuid \<Rightarrow> db \<Rightarrow> bool res \<times> db" where
  "delete_session_row s t d =
     (if \<not> list_ex (\<lambda>r. sr_id r = s \<and> sr_tenant_id r = t) (db_sessions d) then (Inr False, d)
      else if list_ex (\<lambda>e. list_ex (\<lambda>m. msg_ID m = em_message_id e \<and> msg_SessionID m = s) (db_messages d))
                (db_entities d)
      then (Inl (Err ''foreign key''), d)
      else (Inr True, d\<lparr>db_sessions := filter (\<lambda>r. \<not> (sr_id r = s \<and> sr_tenant_id r = t)) (db_sessions d),
                       db_messages := filter (\<lambda>m. msg_SessionID m \<noteq> s) (db_messages d)\<rparr>))"

definition DeleteSession :: "codec \<Rightarrow> string \<Rightarrow> string \<Rightarrow> db \<Rightarrow> bool res \<times> db" where
  "DeleteSession cod tenantID sessionID =
     pool_exec (exec_uuid cod sessionID (\<lambda>s. exec_uuid cod tenantID (\<lambda>t. delete_session_row s t)))"

section \<open>Referential integrity\<close>

definition integrity :: "db \<Rightarrow> bool" where
  "integrity d \<longleftrightarrow>
     distinct (map sr_id (db_sessions d)) \<and> distinct (map msg_ID (db_messages d)) \<and>
     (\<forall>m \<in> set (db_messages d). session_exists (msg_SessionID m) d) \<and>
     (\<forall>m \<in> set (db_messages d). msg_Role m \<in> set validRoles) \<and>
     (\<forall>e \<in> set (db_entities d). em_message_id e \<in> set (map msg_ID (db_messages d)))"

lemma integrity_same: "same_tables d d' \<Longrightarrow> integrity d' = integrity d"
  by (simp add: integrity_def same_tables_def session_exists_def)

lemma integrity_tables: "same_tables d d' \<Longrightarrow> integrity d \<Longrightarrow> integrity d'"
  by (simp add: integrity_same)

lemma integrity_empty [inv_intros]: "integrity empty_db"
  by (simp add: integrity_def empty_db_def)

lemma ensure_session_integrity [inv_intros]: "integrity d \<Longrightarrow> integrity (ensure_session m d)"
  by (auto simp: integrity_def ensure_session_def session_exists_def)

lemma msg_extend [simp]:
  "msg_ID (message.extend m x) = msg_ID m"
  "msg_SessionID (message.extend m x) = msg_SessionID m"
  "msg_TenantID (message.extend m x) = msg_TenantID m"
  "msg_UserID (message.extend m x) = msg_UserID m"
  "msg_Role (message.extend m x) = msg_Role m"
  "msg_CreatedAt (message.extend m x) = msg_CreatedAt m"
  "message.truncate (message.extend m x) = message.truncate m"
  by (simp_all add: message.defs)

lemma msg_truncate [simp]:
  "msg_ID (message.truncate r) = msg_ID r"
  "msg_SessionID (message.truncate r) = msg_SessionID r"
  "msg_TenantID (message.truncate r) = msg_TenantID r"
  "msg_UserID (message.truncate r) = msg_UserID r"
  "msg_Role (message.truncate r) = msg_Role r"
  "msg_Content (message.truncate r) = msg_Content r"
  "msg_TokenCount (message.truncate r) = msg_TokenCount r"
  "msg_CreatedAt (message.truncate r) = msg_CreatedAt r"
  by (simp_all add: message.defs)

lemma truncate_message [simp]: "message.truncate (m :: message) = m"
  by (simp add: message.defs)

lemma insert_message_row_integrity [inv_intros]:
  "insert_message_row m d = (r, d') \<Longrightarrow> integrity d \<Longrightarrow> integrity d'"
  by (auto simp: insert_message_row_def integrity_def session_exists_def split: if_splits)

interpretation integ: table_invariant integrity
  by unfold_locales (rule integrity_tables)

lemma InsertMessage_integrity [inv_intros]:
  assumes "InsertMessage m d = (r, d')" "integrity d"
  shows "integrity d'"
proof -
  obtain r1 d1 where one: "pool_exec (\<lambda>d. (Inr (), ensure_session m d)) d = (r1, d1)"
    by (cases "pool_exec (\<lambda>d. (Inr (), ensure_session m d)) d") auto
  have "integrity d1"
    by (rule integ.exec_keeps [OF _ one assms(2)]) (auto intro: ensure_session_integrity)
  with one assms(1) show ?thesis
    by (auto simp: InsertMessage_def split: sum.splits prod.splits
        intro: integ.exec_keeps [OF insert_message_row_integrity])
qed

lemma create_session_row_integrity [inv_intros]:
  "create_session_row s d = (r, d') \<Longrightarrow> integrity d \<Longrightarrow> integrity d'"
  by (auto simp: create_session_row_def integrity_def session_exists_def split: if_splits)

lemma CreateSession_integrity [inv_intros]:
  "CreateSession s d = (r, d') \<Longrightarrow> integrity d \<Longrightarrow> integrity d'"
  by (auto simp: CreateSession_def apfst_def map_prod_def split: prod.splits
      intro: integ.exec_keeps [OF create_session_row_integrity])

lemma delete_session_row_integrity [inv_intros]:
  assumes "delete_session_row s t d = (r, d')" "integrity d"
  shows "integrity d'"
proof (cases "d' = d")
  case False
  with assms(1) have del: "list_ex (\<lambda>r. sr_id r = s \<and> sr_tenant_id r = t) (db_sessions d)"
    and free: "\<not> list_ex (\<lambda>e. list_ex (\<lambda>m. msg_ID m = em_message_id e \<and> msg_SessionID m = s) (db_messages d))
                (db_entities d)"
    and d': "d' = d\<lparr>db_sessions := filter (\<lambda>r. \<not> (sr_id r = s \<and> sr_tenant_id r = t)) (db_sessions d),
                   db_messages := filter (\<lambda>m. msg_SessionID m \<noteq> s) (db_messages d)\<rparr>"
    by (auto simp: delete_session_row_def split: if_splits)
  show ?thesis
    using assms(2) free unfolding d' integrity_def session_exists_def
    by (simp add: distinct_map_filter list_ex_iff image_iff Bex_def) (metis)
qed (use assms in simp)

lemma DeleteSession_integrity [inv_intros]:
  "DeleteSession cod t s d = (r, d') \<Longrightarrow> integrity d \<Longrightarrow> integrity d'"
  unfolding DeleteSession_def
  by (erule integ.exec_keeps [rotated])
    (auto simp: exec_uuid_def split: option.splits intro: delete_session_row_integrity)

section \<open>What an append and a deletion do to the tables\<close>

lemma InsertMessage_up:
  assumes "InsertMessage m d = (r, d')" "db_faults d = []"
  shows "r = None \<longleftrightarrow> msg_ID m \<notin> set (map msg_ID (db_messages d)) \<and> msg_Role m \<in> set validRoles"
    and "db_sessions d' = db_sessions (ensure_session m d)"
    and "db_messages d' = db_messages d @
      (if r = None then [message.extend (m\<lparr>msg_CreatedAt := db_now d\<rparr>) \<lparr>msg_embedding = None\<rparr>] else [])"
    and "db_entities d' = db_entities d" "db_faults d' = []"
proof -
  have here: "session_exists (msg_SessionID m) (ensure_session m d)"
    by (simp add: ensure_session_def session_exists_def)
  have same: "db_messages (ensure_session m d) = db_messages d" "db_entities (ensure_session m d) = db_entities d"
    "db_faults (ensure_session m d) = []" "db_now (ensure_session m d) = db_now d"
    using assms(2) by (simp_all add: ensure_session_def)
  have "InsertMessage m d =
      (case insert_message_row m (ensure_session m d) of (Inl e, d2) \<Rightarrow> (Some e, d2) | (Inr _, d2) \<Rightarrow> (None, d2))"
    using assms(2) same by (simp add: InsertMessage_def)
  then show "r = None \<longleftrightarrow> msg_ID m \<notin> set (map msg_ID (db_messages d)) \<and> msg_Role m \<in> set validRoles"
    "db_sessions d' = db_sessions (ensure_session m d)"
    "db_messages d' = db_messages d @
      (if r = None then [message.extend (m\<lparr>msg_CreatedAt := db_now d\<rparr>) \<lparr>msg_embedding = None\<rparr>] else [])"
    "db_entities d' = db_entities d" "db_faults d' = []"
    using assms(1) here same by (auto simp: insert_message_row_def split: if_splits)
qed

lemma one_session_removed:
  assumes "distinct (map sr_id rs)" "\<exists>r \<in> set rs. sr_id r = s \<and> sr_tenant_id r = t"
  shows "filter (\<lambda>r. sr_id r = s \<longrightarrow> sr_tenant_id r \<noteq> t) rs = filter (\<lambda>r. sr_id r \<noteq> s) rs"
proof (rule filter_cong [OF refl])
  fix x assume x: "x \<in> set rs"
  from assms(2) obtain r where r: "r \<in> set rs" "sr_id r = s" "sr_tenant_id r = t" by blast
  then have "x = r" if "sr_id x = s" using that x assms(1) by (auto simp: distinct_map inj_on_def)
  with r show "(sr_id x = s \<longrightarrow> sr_tenant_id x \<noteq> t) = (sr_id x \<noteq> s)" by blast
qed

lemma delete_session_cases:
  assumes "delete_session_row s t d = (q, d')" "distinct (map sr_id (db_sessions d))"
  shows "q = Inr False \<longleftrightarrow> \<not> (\<exists>r \<in> set (db_sessions d). sr_id r = s \<and> sr_tenant_id r = t)"
    and "q = Inr True \<Longrightarrow> db_sessions d' = filter (\<lambda>r. sr_id r \<noteq> s) (db_sessions d) \<and>
      db_messages d' = filter (\<lambda>m. msg_SessionID m \<noteq> s) (db_messages d)"
    and "q \<noteq> Inr True \<Longrightarrow> d' = d"
    and "db_entities d' = db_entities d"
    and "isl q \<Longrightarrow> \<exists>e \<in> set (db_entities d). \<exists>m \<in> set (db_messages d). msg_ID m = em_message_id e \<and> msg_SessionID m = s"
  using assms(1)
  by (auto simp: delete_session_row_def list_ex_iff intro!: one_session_removed [OF assms(2)] split: if_splits)

section \<open>Reading back\<close>

lemma newest_first_cong: "db_messages d = db_messages d' \<Longrightarrow> newest_first p d = newest_first p d'"
  by (simp add: newest_first_def)

lemma set_newest_first: "m \<in> set (newest_first p d) \<longleftrightarrow> (\<exists>r \<in> set (db_messages d). p r \<and> m = message.truncate r)"
  by (auto simp: newest_first_def)

lemma newest_first_sorted: "sorted (map (\<lambda>m. - msg_CreatedAt m) (newest_first p d))"
  using order_desc_sorted [of msg_CreatedAt "filter p (db_messages d)"]
  by (simp add: newest_first_def comp_def)

lemma distinct_map_order_desc [simp]: "distinct (map g (order_desc k rs)) \<longleftrightarrow> distinct (map g rs)"
  by (rule mset_eq_imp_distinct_iff) (simp add: mset_order_desc)

lemma newest_first_ids_distinct:
  assumes "distinct (map msg_ID (db_messages d))"
  shows "distinct (map msg_ID (newest_first p d))"
proof -
  have "map msg_ID (newest_first p d) = map msg_ID (order_desc msg_CreatedAt (filter p (db_messages d)))"
    by (simp add: newest_first_def)
  with assms show ?thesis by (simp add: distinct_map_filter)
qed

lemma filter_order_desc: "filter p (order_desc k rs) = order_desc k (filter p rs)"
  by (simp add: order_desc_def filter_sort)

lemma newest_first_filter:
  assumes "\<And>r. q (message.truncate r) = q' r"
  shows "filter q (newest_first p d) = newest_first (\<lambda>r. p r \<and> q' r) d"
  using assms by (simp add: newest_first_def filter_map comp_def filter_order_desc conj_commute)

lemma newest_first_desc: "sorted_wrt (\<lambda>x y. msg_CreatedAt y \<le> msg_CreatedAt x) (newest_first p d)"
  using newest_first_sorted [of p d] by (simp add: sorted_map)

text \<open>
  A page of a descending list: what is strictly below its last element is in the rest, and the rest
  has nothing above it.
\<close>

lemma page_end:
  assumes "sorted_wrt (\<lambda>x y. f y \<le> (f x :: int)) xs" "0 < n" "n \<le> length xs"
  shows "\<forall>x \<in> set (take n xs). f (last (take n xs)) \<le> f x"
    and "\<forall>x \<in> set (drop n xs). f x \<le> f (last (take n xs))"
    and "last (take n xs) \<in> set (take n xs)"
proof -
  have split: "sorted_wrt (\<lambda>x y. f y \<le> f x) (take n xs @ drop n xs)" using assms(1) by simp
  have ne: "take n xs \<noteq> []" using assms(2,3) by auto
  then show in_page: "last (take n xs) \<in> set (take n xs)" by (rule last_in_set)
  show "\<forall>x \<in> set (drop n xs). f x \<le> f (last (take n xs))"
    using split in_page unfolding sorted_wrt_append by blast
  have "sorted_wrt (\<lambda>x y. f y \<le> f x) (butlast (take n xs) @ [last (take n xs)])"
    using split ne by (simp add: sorted_wrt_append)
  then have "\<forall>x \<in> set (butlast (take n xs)). f (last (take n xs)) \<le> f x"
    unfolding sorted_wrt_append by simp
  moreover have "set (take n xs) = set (butlast (take n xs) @ [last (take n xs)])" using ne by simp
  ultimately show "\<forall>x \<in> set (take n xs). f (last (take n xs)) \<le> f x" by auto
qed

lemma below_page_end:
  assumes "sorted_wrt (\<lambda>x y. f y \<le> (f x :: int)) xs" "0 < n" "n \<le> length xs"
  shows "filter (\<lambda>x. f x < f (last (take n xs))) xs = filter (\<lambda>x. f x < f (last (take n xs))) (drop n xs)"
proof -
  have "filter (\<lambda>x. f x < f (last (take n xs))) (take n xs) = []"
    using page_end(1) [OF assms] by (auto simp: filter_empty_conv not_less)
  then show ?thesis by (metis append_take_drop_id filter_append append_Nil)
qed

lemma message_time_of:
  assumes "distinct (map msg_ID (db_messages d))" "r \<in> set (db_messages d)" "msg_TenantID r = t"
  shows "message_time (msg_ID r) t d = Some (msg_CreatedAt r)"
proof -
  have "List.find (\<lambda>m. msg_ID m = msg_ID r \<and> msg_TenantID m = t) (db_messages d) = Some r"
    using assms by (intro find_distinct [where k = msg_ID]) auto
  then show ?thesis by (simp add: message_time_def)
qed

text \<open>
  One page of the history: the first page is the newest messages, and the page before a message is
  the newest of those that were created strictly before it.
\<close>

lemma history_first_page:
  assumes "db_faults d = []" "pg_uuid cod T = Some t" "pg_uuid cod S = Some s" "0 < limit" "limit \<le> 100"
  shows "GetSessionHistory cod T S limit [] d = (Inr (take (nat limit) (newest_first (in_session t s) d)), d)"
  using assms by (simp add: GetSessionHistory_def history_limit_def sql_limit_def)

lemma history_page_before:
  assumes "db_faults d = []" "pg_uuid cod T = Some t" "pg_uuid cod S = Some s" "0 < limit" "limit \<le> 100"
    and "pg_uuid cod B = Some (msg_ID x)" "B \<noteq> []" "x \<in> set (newest_first (in_session t s) d)"
    and "distinct (map msg_ID (db_messages d))"
  shows "GetSessionHistory cod T S limit B d =
    (Inr (take (nat limit) (filter (\<lambda>m. msg_CreatedAt m < msg_CreatedAt x) (newest_first (in_session t s) d))), d)"
proof -
  obtain r where r: "r \<in> set (db_messages d)" "in_session t s r" "x = message.truncate r"
    using assms(8) by (auto simp: set_newest_first)
  have "message_time (msg_ID x) t d = Some (msg_CreatedAt x)"
    using message_time_of [OF assms(9) r(1)] r by (simp add: in_session_def)
  moreover have "newest_first (\<lambda>m. in_session t s m \<and> msg_CreatedAt m < msg_CreatedAt x) d =
      filter (\<lambda>m. msg_CreatedAt m < msg_CreatedAt x) (newest_first (in_session t s) d)"
    by (rule newest_first_filter [symmetric]) simp
  ultimately show ?thesis
    using assms(1-7) by (simp add: GetSessionHistory_def history_limit_def sql_limit_def)
qed

text \<open>Every history query answers with messages of the tenant and session it was asked for.\<close>

lemma sql_limit_Inr: "sql_limit n rs = Inr xs \<longleftrightarrow> 0 \<le> n \<and> xs = take (nat n) rs"
  by (auto simp: sql_limit_def)

lemma history_scoped:
  assumes "GetSessionHistory cod T S limit B d = (Inr ms, d')" "m \<in> set ms"
  shows "pg_uuid cod T = Some (msg_TenantID m) \<and> pg_uuid cod S = Some (msg_SessionID m)"
  using assms
  by (auto simp: GetSessionHistory_def pool_query_def with_uuid_Inr sql_limit_Inr set_newest_first
      in_session_def split: prod.splits option.splits if_splits dest!: in_set_takeD)

lemma recent_until_scoped:
  assumes "GetRecentMessagesUntil cod T U S A limit d = (Inr ms, d')" "m \<in> set ms"
  shows "pg_uuid cod T = Some (msg_TenantID m) \<and> pg_uuid cod S = Some (msg_SessionID m) \<and>
    pg_uuid cod U = Some (msg_UserID m)"
  using assms
  by (auto simp: GetRecentMessagesUntil_def GetRecentMessages_def pool_query_def with_uuid_Inr
      sql_limit_Inr set_newest_first in_session_def
      split: prod.splits option.splits if_splits sum.splits dest!: in_set_takeD)

text \<open>The newest message of a session is the one just stored, when the clock has moved on.\<close>

lemma InsertMessage_stored:
  assumes "InsertMessage m d = (None, d')" "db_faults d = []"
  shows "db_messages d' = db_messages d @
    [message.extend (m\<lparr>msg_CreatedAt := db_now d\<rparr>) \<lparr>msg_embedding = None\<rparr>]"
    and "db_faults d' = []" and "msg_Role m \<in> set validRoles"
  using assms by (auto simp: InsertMessage_def ensure_session_def insert_message_row_def split: if_splits)

lemma newest_first_inserted:
  assumes "InsertMessage m d = (None, d')" "db_faults d = []"
    and "\<And>r. r \<in> set (db_messages d) \<Longrightarrow> msg_CreatedAt r < db_now d"
  shows "newest_first (in_session (msg_TenantID m) (msg_SessionID m)) d' =
    m\<lparr>msg_CreatedAt := db_now d\<rparr> # newest_first (in_session (msg_TenantID m) (msg_SessionID m)) d"
proof -
  let ?r = "message.extend (m\<lparr>msg_CreatedAt := db_now d\<rparr>) \<lparr>msg_embedding = None\<rparr>"
  let ?p = "in_session (msg_TenantID m) (msg_SessionID m)"
  have "order_desc msg_CreatedAt (filter ?p (db_messages d) @ [?r]) =
      ?r # order_desc msg_CreatedAt (filter ?p (db_messages d))"
    by (rule order_desc_snoc_newest) (auto dest: assms(3))
  then show ?thesis
    using InsertMessage_stored(1) [OF assms(1,2)] by (simp add: newest_first_def in_session_def)
qed

end
