(* ===== verification/Crypto.thy ===== *)
theory Crypto
  imports GoText
begin

text \<open>
  \<^verbatim>\<open>internal/security/crypto.go\<close>: the per-tenant encryption of fact values. HKDF
  (\<^verbatim>\<open>golang.org/x/crypto\<close>), AES-GCM and SHA-256 are arguments of the model, collected in a
  \<open>crypto_lib\<close>; the locale \<open>aead\<close> states what the code relies on. What is modelled is the
  code's own part: which keys \<^verbatim>\<open>NewCrypto\<close> accepts, the nonce-first layout of a ciphertext, the length
  check and the error paths of \<^verbatim>\<open>EncryptValue\<close> and \<^verbatim>\<open>DecryptValue\<close>, and \<^verbatim>\<open>ValueHash\<close>.
\<close>

section \<open>The primitives\<close>

record crypto_lib =
  hkdf_sha256 :: "string \<Rightarrow> string \<Rightarrow> string"          \<comment> \<open>secret, salt: the first 32 bytes\<close>
  gcm_seal :: "string \<Rightarrow> string \<Rightarrow> string \<Rightarrow> string"    \<comment> \<open>key, nonce, plaintext\<close>
  gcm_open :: "string \<Rightarrow> string \<Rightarrow> string \<Rightarrow> string option"
  sha256 :: "string \<Rightarrow> string"

definition gcm_nonce_size :: nat where
  "gcm_nonce_size = 12"

definition aes_key_ok :: "string \<Rightarrow> bool" where
  "aes_key_ok k \<longleftrightarrow> length k = 16 \<or> length k = 24 \<or> length k = 32"

text \<open>
  Documented behaviour: HKDF fills the 32 bytes the code reads; opening what was sealed under the
  same key and nonce gives the plaintext; the tag adds 16 bytes.
\<close>

locale aead =
  fixes L :: crypto_lib
  assumes hkdf_length: "length (hkdf_sha256 L secret salt) = 32"
    and open_seal: "length k = 32 \<Longrightarrow> length n = gcm_nonce_size \<Longrightarrow>
      gcm_open L k n (gcm_seal L k n p) = Some p"
    and seal_length: "length (gcm_seal L k n p) = length p + 16"

section \<open>Keys and values\<close>

datatype crypto = Crypto (masterKey: string)

definition ErrInvalidCiphertext :: err where
  "ErrInvalidCiphertext = Err ''invalid ciphertext: too short''"

definition NewCrypto :: "string \<Rightarrow> crypto res" where
  "NewCrypto masterKeyHex =
     (case hex_decode masterKeyHex of
        None \<Rightarrow> Inl (Err ''encoding/hex'')
      | Some key \<Rightarrow>
          if length key \<noteq> 32
          then Inl (Err ''master key must be 32 bytes (64 hex characters)'')
          else Inr (Crypto key))"

definition deriveKey :: "crypto_lib \<Rightarrow> crypto \<Rightarrow> string \<Rightarrow> string" where
  "deriveKey L c tenantID = hkdf_sha256 L (masterKey c) tenantID"

text \<open>The random source gives \<open>Some\<close> of the nonce's bytes, or \<open>None\<close> when reading it fails.\<close>

definition EncryptValue :: "crypto_lib \<Rightarrow> crypto \<Rightarrow> string option \<Rightarrow> string \<Rightarrow> string \<Rightarrow> string res" where
  "EncryptValue L c rand plaintext tenantID =
     (let tenantKey = deriveKey L c tenantID in
      if \<not> aes_key_ok tenantKey then Inl (Err ''crypto/aes: invalid key size'')
      else (case rand of
              None \<Rightarrow> Inl (Err ''rand.Reader'')
            | Some nonce \<Rightarrow> Inr (nonce @ gcm_seal L tenantKey nonce plaintext)))"

definition DecryptValue :: "crypto_lib \<Rightarrow> crypto \<Rightarrow> string \<Rightarrow> string \<Rightarrow> string res" where
  "DecryptValue L c ciphertext tenantID =
     (let tenantKey = deriveKey L c tenantID in
      if \<not> aes_key_ok tenantKey then Inl (Err ''crypto/aes: invalid key size'')
      else if length ciphertext < gcm_nonce_size then Inl ErrInvalidCiphertext
      else (case gcm_open L tenantKey (take gcm_nonce_size ciphertext) (drop gcm_nonce_size ciphertext) of
              None \<Rightarrow> Inl (Err ''cipher: message authentication failed'')
            | Some plaintext \<Rightarrow> Inr plaintext))"

definition ValueHash :: "crypto_lib \<Rightarrow> string \<Rightarrow> string" where
  "ValueHash L value = hex_encode (sha256 L value)"

section \<open>Lemmas\<close>

lemma NewCrypto_Inr: "NewCrypto h = Inr c \<longleftrightarrow> hex_decode h = Some (masterKey c) \<and> length (masterKey c) = 32"
  by (cases c) (auto simp: NewCrypto_def split: option.splits)

lemma NewCrypto_length: "NewCrypto h = Inr c \<Longrightarrow> length h = 64"
  by (auto simp: NewCrypto_Inr dest: hex_decode_length)

lemma NewCrypto_encoded: "length k = 32 \<Longrightarrow> NewCrypto (hex_encode k) = Inr (Crypto k)"
  by (simp add: NewCrypto_Inr hex_decode_encode)

lemma ValueHash_eq: "ValueHash L a = ValueHash L b \<longleftrightarrow> sha256 L a = sha256 L b"
  by (simp add: ValueHash_def hex_encode_inject)

context aead begin

lemma derived_key_ok: "aes_key_ok (deriveKey L c t)" "length (deriveKey L c t) = 32"
  by (simp_all add: aes_key_ok_def deriveKey_def hkdf_length)

lemma encrypt_ok: "EncryptValue L c (Some nonce) p t = Inr (nonce @ gcm_seal L (deriveKey L c t) nonce p)"
  by (simp add: EncryptValue_def derived_key_ok Let_def)

lemma decrypt_encrypt:
  assumes "length nonce = gcm_nonce_size" and "EncryptValue L c (Some nonce) p t = Inr ct"
  shows "DecryptValue L c ct t = Inr p"
  using assms by (auto simp: encrypt_ok DecryptValue_def Let_def derived_key_ok open_seal)

lemma ciphertext_length:
  assumes "length nonce = gcm_nonce_size" and "EncryptValue L c (Some nonce) p t = Inr ct"
  shows "length ct = length p + 28"
  using assms by (auto simp: encrypt_ok seal_length gcm_nonce_size_def)

lemma decrypt_short: "length ct < gcm_nonce_size \<Longrightarrow> DecryptValue L c ct t = Inl ErrInvalidCiphertext"
  by (simp add: DecryptValue_def Let_def derived_key_ok)

end

section \<open>A concrete set of primitives\<close>

text \<open>
  Primitives that satisfy the laws, for witnesses: the key stream adds the bytes of key and nonce to
  the text, and the tag is the nonce padded to 16 bytes; the digest is the input padded or cut to 32
  bytes.
\<close>

definition pad_to :: "nat \<Rightarrow> string \<Rightarrow> string" where
  "pad_to n s = take n (s @ replicate n (chr 0))"

lemma length_pad_to [simp]: "length (pad_to n s) = n"
  by (simp add: pad_to_def)

definition xor_byte :: "nat \<Rightarrow> char \<Rightarrow> char" where
  "xor_byte k c = chr ((k + byte c) mod 256)"

definition unxor_byte :: "nat \<Rightarrow> char \<Rightarrow> char" where
  "unxor_byte k c = chr ((byte c + (256 - k mod 256)) mod 256)"

lemma unxor_xor [simp]: "unxor_byte k (xor_byte k c) = c"
proof -
  define m b where "m = k mod 256" and "b = byte c"
  have less: "m < 256" "b < 256" by (simp_all add: m_def b_def)
  have sum: "(k + b) mod 256 = (m + b) mod 256" by (simp add: m_def mod_add_left_eq)
  have "((m + b) mod 256 + (256 - m)) mod 256 = b"
  proof (cases "m + b < 256")
    case True
    then have "(m + b) mod 256 + (256 - m) = b + 256" using less by simp
    then show ?thesis using less by simp
  next
    case False
    then have "(m + b) mod 256 = m + b - 256" using less by (simp add: mod_if)
    then have "(m + b) mod 256 + (256 - m) = b" using less False by simp
    then show ?thesis using less by simp
  qed
  then show ?thesis
    using sum by (simp add: unxor_byte_def xor_byte_def byte_chr m_def b_def)
qed

definition key_shift :: "string \<Rightarrow> string \<Rightarrow> nat" where
  "key_shift k n = sum_list (map byte k) + sum_list (map byte n)"

definition ref_crypto :: crypto_lib where
  "ref_crypto = \<lparr>hkdf_sha256 = (\<lambda>secret salt. pad_to 32 (salt @ secret)),
     gcm_seal = (\<lambda>k n p. map (xor_byte (key_shift k n)) p @ pad_to 16 n),
     gcm_open = (\<lambda>k n c.
       if 16 \<le> length c \<and> drop (length c - 16) c = pad_to 16 n
       then Some (map (unxor_byte (key_shift k n)) (take (length c - 16) c)) else None),
     sha256 = pad_to 32\<rparr>"

interpretation refc: aead ref_crypto
  by unfold_locales (simp_all add: ref_crypto_def comp_def)

end
