(* ===== verification/EntityStore.thy ===== *)
theory EntityStore
  imports Messages Crypto
begin

text \<open>
  The entity facts of \<^verbatim>\<open>internal/repository/entity.go\<close>: the upsert statement and its batch, and the
  queries that decrypt what they read. The text search, the trigram similarity, the vector distance
  and the collation of PostgreSQL are arguments (\<open>pg_search\<close>). The invariant is the one the upsert
  is written for: at most one current row for each tenant, user, entity and attribute.
\<close>

section \<open>Rows and keys\<close>

definition fact_of :: "entity_row \<Rightarrow> uuid \<times> uuid \<times> string \<times> string" where
  "fact_of r = (em_tenant_id r, em_user_id r, em_entity_name r, em_attribute r)"

definition current :: "entity_row \<Rightarrow> bool" where
  "current r \<longleftrightarrow> em_valid_until r = None"

text \<open>INSERT INTO entity_mentions: primary key, foreign key, defaults for the other columns.\<close>

definition insert_entity_row ::
  "message_payload \<Rightarrow> extracted_fact \<Rightarrow> string \<Rightarrow> string \<Rightarrow> uuid option \<Rightarrow> db \<Rightarrow> unit res \<times> db" where
  "insert_entity_row mp f encVal valHash superseded d =
     (let (i, d1) = gen_uuid d in
      if i \<in> set (map em_id (db_entities d)) then (Inl (Err ''duplicate key''), d1)
      else if mp_MessageID mp \<notin> set (map msg_ID (db_messages d)) then (Inl (Err ''foreign key''), d1)
      else (Inr (), d1\<lparr>db_entities := db_entities d @
        [\<lparr>em_id = i, em_tenant_id = mp_TenantID mp, em_user_id = mp_UserID mp,
          em_session_id = mp_SessionID mp, em_message_id = mp_MessageID mp,
          em_entity_name = xf_EntityName f, em_entity_type = xf_EntityType f, em_attribute = xf_Attribute f,
          em_value_encrypted = encVal, em_value_hash = valHash,
          em_valid_from = db_now d, em_valid_until = None, em_superseded_by = superseded,
          em_confidence = 1, em_source_quote = xf_SourceQuote f, em_embedding = None,
          em_created_at = db_now d\<rparr>]\<rparr>))"

section \<open>Writing\<close>

text \<open>A statement or a transaction that fails leaves the tables as they were.\<close>

definition rolled_back :: "db \<Rightarrow> db \<Rightarrow> db" where
  "rolled_back d d' = d\<lparr>db_seq := db_seq d'\<rparr>"

text \<open>
  \<^verbatim>\<open>upsertFactCTE\<close>: the current row of the fact, its invalidation when the hash differs, and the
  insertion unless the hash is the same. A statement that fails changes nothing. \<open>seen\<close> says which rows the
  statement sees: all of them when it runs alone, and at the isolation level READ COMMITTED not those that
  others commit after it has started. FOR UPDATE waits for a row that another statement holds and
  reads its newest version, so a row that has been superseded meanwhile is passed over, but the row
  that superseded it is not seen either. The effect is placed where the statement commits; until then it
  holds the row it found.
\<close>

definition upsert_key :: "message_payload \<Rightarrow> extracted_fact \<Rightarrow> uuid \<times> uuid \<times> string \<times> string" where
  "upsert_key mp f = (mp_TenantID mp, mp_UserID mp, xf_EntityName f, xf_Attribute f)"

definition upsert_seeing ::
  "(entity_row \<Rightarrow> bool) \<Rightarrow> message_payload \<Rightarrow> extracted_fact \<Rightarrow> string \<Rightarrow> string \<Rightarrow> db \<Rightarrow> unit res \<times> db" where
  "upsert_seeing seen mp f encVal valHash d =
     (let existing = List.find (\<lambda>r. fact_of r = upsert_key mp f \<and> current r) (filter seen (db_entities d));
          to_supersede = (case existing of
             None \<Rightarrow> None | Some r \<Rightarrow> if em_value_hash r \<noteq> valHash then Some (em_id r) else None);
          d1 = d\<lparr>db_entities := update_where (\<lambda>r. Some (em_id r) = to_supersede)
                   (\<lambda>r. r\<lparr>em_valid_until := Some (db_now d)\<rparr>) (db_entities d)\<rparr>
      in case existing of
           Some r \<Rightarrow>
             if em_value_hash r = valHash then (Inr (), d1)
             else (case insert_entity_row mp f encVal valHash to_supersede d1 of
                     (Inl e, d2) \<Rightarrow> (Inl e, rolled_back d d2) | (Inr u, d2) \<Rightarrow> (Inr u, d2))
         | None \<Rightarrow>
             (case insert_entity_row mp f encVal valHash to_supersede d1 of
                (Inl e, d2) \<Rightarrow> (Inl e, rolled_back d d2) | (Inr u, d2) \<Rightarrow> (Inr u, d2)))"

definition upsertFactCTE ::
  "message_payload \<Rightarrow> extracted_fact \<Rightarrow> string \<Rightarrow> string \<Rightarrow> db \<Rightarrow> unit res \<times> db" where
  "upsertFactCTE = upsert_seeing (\<lambda>_. True)"

lemmas upsertFactCTE_eval = upsertFactCTE_def upsert_seeing_def

definition UpsertFact ::
  "message_payload \<Rightarrow> extracted_fact \<Rightarrow> string \<Rightarrow> string \<Rightarrow> db \<Rightarrow> err option \<times> db" where
  "UpsertFact mp f encVal valHash d = apfst err_of (pool_exec (upsertFactCTE mp f encVal valHash) d)"

text \<open>
  \<^verbatim>\<open>SendBatch\<close> runs its statements in one implicit transaction: when one fails, none has an effect.
\<close>

fun run_statements :: "(db \<Rightarrow> unit res \<times> db) list \<Rightarrow> db \<Rightarrow> unit res \<times> db" where
  "run_statements [] d = (Inr (), d)"
| "run_statements (q # qs) d =
     (case q d of (Inl e, d1) \<Rightarrow> (Inl e, d1) | (Inr _, d1) \<Rightarrow> run_statements qs d1)"

definition send_batch :: "(db \<Rightarrow> unit res \<times> db) list \<Rightarrow> db \<Rightarrow> unit res \<times> db" where
  "send_batch qs = pool_exec (\<lambda>d. case run_statements qs d of (Inl e, d') \<Rightarrow> (Inl e, rolled_back d d') | (Inr u, d') \<Rightarrow> (Inr u, d'))"

text \<open>The errors of the batch items are logged; the call itself reports none.\<close>

definition UpsertFactBatch ::
  "message_payload \<Rightarrow> extracted_fact list \<Rightarrow> string list \<Rightarrow> string list \<Rightarrow> db \<Rightarrow> err option \<times> db" where
  "UpsertFactBatch mp facts encVals valHashes d =
     (if length valHashes < length facts \<or> length encVals < length facts
      then (Some (Panic ''index out of range''), d)
      else (None, snd (send_batch (map (\<lambda>(f, e, h). upsertFactCTE mp f e h)
                                        (zip facts (zip encVals valHashes))) d)))"

definition InsertFact ::
  "message_payload \<Rightarrow> extracted_fact \<Rightarrow> string \<Rightarrow> string \<Rightarrow> db \<Rightarrow> err option \<times> db" where
  "InsertFact mp f encVal valHash d =
     apfst err_of (pool_exec (\<lambda>d. case insert_entity_row mp f encVal valHash None d of
        (Inl e, d') \<Rightarrow> (Inl e, rolled_back d d') | (Inr u, d') \<Rightarrow> (Inr u, d')) d)"

definition update_embedding_stmt ::
  "codec \<Rightarrow> string \<Rightarrow> string \<Rightarrow> extracted_fact \<Rightarrow> vec \<Rightarrow> db \<Rightarrow> unit res \<times> db" where
  "update_embedding_stmt cod tenantID userID f v =
     exec_uuid cod tenantID (\<lambda>t. exec_uuid cod userID (\<lambda>u d.
       (Inr (), d\<lparr>db_entities := update_where
          (\<lambda>r. fact_of r = (t, u, xf_EntityName f, xf_Attribute f) \<and> current r)
          (\<lambda>r. r\<lparr>em_embedding := Some v\<rparr>) (db_entities d)\<rparr>)))"

definition UpdateFactEmbeddingsBatch ::
  "codec \<Rightarrow> string \<Rightarrow> string \<Rightarrow> extracted_fact list \<Rightarrow> vec list \<Rightarrow> db \<Rightarrow> err option \<times> db" where
  "UpdateFactEmbeddingsBatch cod tenantID userID facts embeddings d =
     (if facts = [] then (None, d)
      else (None, snd (send_batch (map (\<lambda>(f, v). update_embedding_stmt cod tenantID userID f v)
              (filter (\<lambda>(f, v). v \<noteq> []) (zip facts embeddings))) d)))"

section \<open>Reading\<close>

text \<open>What PostgreSQL computes for the text and vector queries.\<close>

record pg_search =
  fts_match :: "string \<Rightarrow> string \<Rightarrow> bool"     \<comment> \<open>text, query: \<^verbatim>\<open>@@\<close> with \<^verbatim>\<open>plainto_tsquery\<close>, unaccented\<close>
  trgm_match :: "string \<Rightarrow> string \<Rightarrow> bool"    \<comment> \<open>the \<^verbatim>\<open>%\<close> operator\<close>
  fts_rank :: "string \<Rightarrow> string \<Rightarrow> rat"       \<comment> \<open>text, query: \<^verbatim>\<open>ts_rank\<close>\<close>
  vec_dist :: "vec \<Rightarrow> vec \<Rightarrow> rat"             \<comment> \<open>the \<^verbatim>\<open><=>\<close> operator\<close>
  collation :: "string \<Rightarrow> rat"                \<comment> \<open>a rank that orders texts as the database does\<close>

definition of_user :: "uuid \<Rightarrow> uuid \<Rightarrow> entity_row \<Rightarrow> bool" where
  "of_user t u r \<longleftrightarrow> em_tenant_id r = t \<and> em_user_id r = u"

definition third_party :: "uuid \<Rightarrow> uuid \<Rightarrow> entity_row \<Rightarrow> bool" where
  "third_party t u r \<longleftrightarrow> of_user t u r \<and> current r \<and> em_entity_type r \<noteq> ''self''"

text \<open>ORDER BY confidence DESC, created_at DESC.\<close>

definition best_first :: "entity_row list \<Rightarrow> entity_row list" where
  "best_first rs = order_desc em_confidence (order_desc em_created_at rs)"

definition scan_fact :: "crypto_lib \<Rightarrow> crypto \<Rightarrow> string \<Rightarrow> entity_row \<Rightarrow> entity_fact" where
  "scan_fact L c tenantID r =
     \<lparr>ef_EntityName = em_entity_name r, ef_EntityType = em_entity_type r, ef_Attribute = em_attribute r,
      ef_Value = (case DecryptValue L c (em_value_encrypted r) tenantID of
         Inl _ \<Rightarrow> ''[encrypted]'' | Inr v \<Rightarrow> v),
      ef_SourceQuote = em_source_quote r, ef_Confidence = em_confidence r\<rparr>"

definition scanEntityFacts :: "crypto_lib \<Rightarrow> crypto \<Rightarrow> string \<Rightarrow> entity_row list \<Rightarrow> entity_fact list" where
  "scanEntityFacts L c tenantID rows = map (scan_fact L c tenantID) rows"

text \<open>The frame of the queries: the master key, the statement, the scan.\<close>

definition query_facts ::
  "codec \<Rightarrow> crypto_lib \<Rightarrow> string \<Rightarrow> string \<Rightarrow> string \<Rightarrow> (uuid \<Rightarrow> uuid \<Rightarrow> db \<Rightarrow> entity_row list res) \<Rightarrow> db
     \<Rightarrow> entity_fact list res \<times> db" where
  "query_facts cod L mk tenantID userID q d =
     (case NewCrypto mk of
        Inl e \<Rightarrow> (Inl e, d)
      | Inr c \<Rightarrow>
          pool_query (\<lambda>d. with_uuid cod tenantID (\<lambda>t. with_uuid cod userID (\<lambda>u.
            case q t u d of Inl e \<Rightarrow> Inl e | Inr rows \<Rightarrow> Inr (scanEntityFacts L c tenantID rows)))) d)"

definition QueryCurrent ::
  "codec \<Rightarrow> crypto_lib \<Rightarrow> string \<Rightarrow> string \<Rightarrow> string \<Rightarrow> db \<Rightarrow> entity_fact list res \<times> db" where
  "QueryCurrent cod L mk tenantID userID d =
     (case pool_query (\<lambda>d. with_uuid cod tenantID (\<lambda>t. with_uuid cod userID (\<lambda>u.
              Inr (sort_key em_created_at (filter (\<lambda>r. of_user t u r \<and> current r) (db_entities d)))))) d of
        (Inl e, d1) \<Rightarrow> (Inl e, d1)
      | (Inr rows, d1) \<Rightarrow>
          (case NewCrypto mk of Inl e \<Rightarrow> (Inl e, d1) | Inr c \<Rightarrow> (Inr (scanEntityFacts L c tenantID rows), d1)))"

definition SearchSelfFacts ::
  "codec \<Rightarrow> crypto_lib \<Rightarrow> string \<Rightarrow> string \<Rightarrow> string \<Rightarrow> db \<Rightarrow> entity_fact list res \<times> db" where
  "SearchSelfFacts cod L mk tenantID userID =
     query_facts cod L mk tenantID userID (\<lambda>t u d.
       Inr (best_first (filter (\<lambda>r. of_user t u r \<and> current r \<and> em_entity_type r = ''self'') (db_entities d))))"

definition FallbackFacts ::
  "codec \<Rightarrow> crypto_lib \<Rightarrow> string \<Rightarrow> string \<Rightarrow> string \<Rightarrow> int \<Rightarrow> db \<Rightarrow> entity_fact list res \<times> db" where
  "FallbackFacts cod L mk tenantID userID limit =
     query_facts cod L mk tenantID userID (\<lambda>t u d.
       sql_limit limit (best_first (filter (third_party t u) (db_entities d))))"

definition queryFactsFallback ::
  "codec \<Rightarrow> crypto_lib \<Rightarrow> crypto \<Rightarrow> string \<Rightarrow> string \<Rightarrow> db \<Rightarrow> entity_fact list res \<times> db" where
  "queryFactsFallback cod L c tenantID userID =
     pool_query (\<lambda>d. with_uuid cod tenantID (\<lambda>t. with_uuid cod userID (\<lambda>u.
       Inr (scanEntityFacts L c tenantID
         (take 15 (best_first (filter (\<lambda>r. of_user t u r \<and> current r) (db_entities d))))))))"

definition nearest :: "pg_search \<Rightarrow> vec \<Rightarrow> entity_row list \<Rightarrow> entity_row list" where
  "nearest P v rs = sort_key (\<lambda>r. case em_embedding r of None \<Rightarrow> 0 | Some w \<Rightarrow> vec_dist P w v)
     (filter (\<lambda>r. em_embedding r \<noteq> None) rs)"

definition SearchAllFactsByVector ::
  "codec \<Rightarrow> crypto_lib \<Rightarrow> pg_search \<Rightarrow> string \<Rightarrow> string \<Rightarrow> string \<Rightarrow> vec \<Rightarrow> int \<Rightarrow> db
     \<Rightarrow> entity_fact list res \<times> db" where
  "SearchAllFactsByVector cod L P mk tenantID userID embedding topK d =
     (if embedding = [] then (Inr [], d)
      else query_facts cod L mk tenantID userID (\<lambda>t u d.
        sql_limit topK (nearest P embedding (filter (third_party t u) (db_entities d)))) d)"

definition SearchByVector ::
  "codec \<Rightarrow> crypto_lib \<Rightarrow> pg_search \<Rightarrow> string \<Rightarrow> string \<Rightarrow> string \<Rightarrow> vec \<Rightarrow> int \<Rightarrow> db
     \<Rightarrow> (entity_fact list \<times> bool) res \<times> db" where
  "SearchByVector cod L P mk tenantID userID embedding topK d =
     (case NewCrypto mk of
        Inl e \<Rightarrow> (Inl e, d)
      | Inr c \<Rightarrow>
          (case query_facts cod L mk tenantID userID (\<lambda>t u d.
                  sql_limit topK (nearest P embedding
                    (filter (\<lambda>r. of_user t u r \<and> current r) (db_entities d)))) d of
             (Inl e, d1) \<Rightarrow> (Inl e, d1)
           | (Inr facts, d1) \<Rightarrow>
               if facts \<noteq> [] then (Inr (facts, False), d1)
               else (case queryFactsFallback cod L c tenantID userID d1 of
                       (Inl e, d2) \<Rightarrow> (Inl e, d2) | (Inr fs, d2) \<Rightarrow> (Inr (fs, True), d2))))"

text \<open>ROW_NUMBER() within each entity name: the first k rows of every name, the names in order.\<close>

definition per_entity ::
  "pg_search \<Rightarrow> int \<Rightarrow> (entity_row list \<Rightarrow> entity_row list) \<Rightarrow> entity_row list \<Rightarrow> entity_row list list" where
  "per_entity P k rank rs =
     map (\<lambda>n. take (nat k) (rank (filter (\<lambda>r. em_entity_name r = n) rs)))
       (sort_key (collation P) (remdups (map em_entity_name rs)))"

definition ResolveEntities ::
  "codec \<Rightarrow> pg_search \<Rightarrow> string \<Rightarrow> string \<Rightarrow> string \<Rightarrow> db \<Rightarrow> string list res \<times> db" where
  "ResolveEntities cod P tenantID userID query =
     pool_query (\<lambda>d. with_uuid cod tenantID (\<lambda>t. with_uuid cod userID (\<lambda>u.
       Inr (take 10 (sort_key (collation P) (remdups (map em_entity_name
         (filter (\<lambda>r. third_party t u r \<and>
             (fts_match P (em_entity_name r) query \<or> trgm_match P (em_entity_name r) query))
           (db_entities d)))))))))"

definition QueryFactsByFTS ::
  "codec \<Rightarrow> crypto_lib \<Rightarrow> pg_search \<Rightarrow> string \<Rightarrow> string \<Rightarrow> string \<Rightarrow> string \<Rightarrow> string list \<Rightarrow> int \<Rightarrow> db
     \<Rightarrow> entity_fact list res \<times> db" where
  "QueryFactsByFTS cod L P mk tenantID userID query entityNames topKPerEntity d =
     (if entityNames = [] then (Inr [], d)
      else query_facts cod L mk tenantID userID (\<lambda>t u d.
        Inr (concat (map (order_desc em_confidence) (per_entity P topKPerEntity
          (\<lambda>rs. order_desc (\<lambda>r. fts_rank P (em_attribute r @ '' '' @ em_source_quote r) query) (best_first rs))
          (filter (\<lambda>r. third_party t u r \<and> em_entity_name r \<in> set entityNames) (db_entities d)))))) d)"

definition QueryFactsByVector ::
  "codec \<Rightarrow> crypto_lib \<Rightarrow> pg_search \<Rightarrow> string \<Rightarrow> string \<Rightarrow> string \<Rightarrow> vec \<Rightarrow> string list \<Rightarrow> int \<Rightarrow> db
     \<Rightarrow> entity_fact list res \<times> db" where
  "QueryFactsByVector cod L P mk tenantID userID embedding entityNames topKPerEntity d =
     (if entityNames = [] \<or> embedding = [] then (Inr [], d)
      else query_facts cod L mk tenantID userID (\<lambda>t u d.
        Inr (concat (per_entity P topKPerEntity (\<lambda>rs. nearest P embedding (best_first rs))
          (filter (\<lambda>r. third_party t u r \<and> em_entity_name r \<in> set entityNames \<and> em_embedding r \<noteq> None)
             (db_entities d))))) d)"

definition GetTopEntityNames ::
  "codec \<Rightarrow> string \<Rightarrow> string \<Rightarrow> int \<Rightarrow> db \<Rightarrow> string list res \<times> db" where
  "GetTopEntityNames cod tenantID userID limit =
     pool_query (\<lambda>d. with_uuid cod tenantID (\<lambda>t. with_uuid cod userID (\<lambda>u.
       let names = map em_entity_name (filter (of_user t u) (db_entities d))
       in sql_limit limit (order_desc (\<lambda>n. int (count_list names n)) (remdups names)))))"

section \<open>The invariant of the upsert\<close>

definition single_current :: "db \<Rightarrow> bool" where
  "single_current d \<longleftrightarrow> distinct (map em_id (db_entities d)) \<and>
     distinct (map fact_of (filter current (db_entities d)))"

lemma single_current_tables: "same_tables d d' \<Longrightarrow> single_current d \<Longrightarrow> single_current d'"
  by (simp add: single_current_def same_tables_def)

interpretation single: table_invariant single_current
  by unfold_locales (rule single_current_tables)

lemma rolled_back_tables [simp]: "same_tables d (rolled_back d d')"
  by (simp add: same_tables_def rolled_back_def)

lemma single_current_empty [inv_intros]: "single_current empty_db"
  by (simp add: single_current_def empty_db_def)

text \<open>The rows after an insertion that succeeded.\<close>

definition inserted_row ::
  "message_payload \<Rightarrow> extracted_fact \<Rightarrow> string \<Rightarrow> string \<Rightarrow> uuid option \<Rightarrow> uuid \<Rightarrow> time \<Rightarrow> entity_row" where
  "inserted_row mp f encVal valHash superseded i now =
     \<lparr>em_id = i, em_tenant_id = mp_TenantID mp, em_user_id = mp_UserID mp,
      em_session_id = mp_SessionID mp, em_message_id = mp_MessageID mp,
      em_entity_name = xf_EntityName f, em_entity_type = xf_EntityType f, em_attribute = xf_Attribute f,
      em_value_encrypted = encVal, em_value_hash = valHash,
      em_valid_from = now, em_valid_until = None, em_superseded_by = superseded,
      em_confidence = 1, em_source_quote = xf_SourceQuote f, em_embedding = None,
      em_created_at = now\<rparr>"

lemma inserted_row_simps [simp]:
  "fact_of (inserted_row mp f e h s i now) = upsert_key mp f"
  "current (inserted_row mp f e h s i now)"
  "em_value_hash (inserted_row mp f e h s i now) = h"
  "em_value_encrypted (inserted_row mp f e h s i now) = e"
  "em_id (inserted_row mp f e h s i now) = i"
  by (simp_all add: inserted_row_def fact_of_def upsert_key_def current_def)

lemma insert_entity_row_cases:
  assumes "insert_entity_row mp f e h s d = (r, d')"
  shows "(\<exists>x. r = Inl x) \<and> same_tables d d' \<or>
    r = Inr () \<and> (\<exists>i. i \<notin> set (map em_id (db_entities d)) \<and> i = db_uuids d (db_seq d) \<and>
      mp_MessageID mp \<in> set (map msg_ID (db_messages d)) \<and>
      d' = d\<lparr>db_seq := Suc (db_seq d), db_entities := db_entities d @ [inserted_row mp f e h s i (db_now d)]\<rparr>)"
  using assms
  by (auto simp: insert_entity_row_def gen_uuid_def inserted_row_def same_tables_def split: if_splits)

definition invalidate :: "uuid \<Rightarrow> time \<Rightarrow> entity_row list \<Rightarrow> entity_row list" where
  "invalidate i now rs = update_where (\<lambda>r. em_id r = i) (\<lambda>r. r\<lparr>em_valid_until := Some now\<rparr>) rs"

lemma invalidate_ids [simp]: "map em_id (invalidate i now rs) = map em_id rs"
  by (simp add: invalidate_def map_update_where_same)

lemma invalidate_id_set [simp]: "em_id ` set (invalidate i now rs) = em_id ` set rs"
  by (metis invalidate_ids list.set_map)

text \<open>The insertion, and the roll-back when it fails.\<close>

lemma upsert_insert_cases:
  assumes "insert_entity_row mp f e h s d1 = (q, d2)"
    and "(r, d') = (case q of Inl x \<Rightarrow> (Inl x, rolled_back d d2) | Inr u \<Rightarrow> (Inr u, d2))"
  obtains (failed) x where "r = Inl x" "same_tables d d'"
  | (inserted) i where "r = Inr ()" "i \<notin> set (map em_id (db_entities d1))"
      "mp_MessageID mp \<in> set (map msg_ID (db_messages d1))"
      "d' = d1\<lparr>db_seq := Suc (db_seq d1), db_entities := db_entities d1 @ [inserted_row mp f e h s i (db_now d1)]\<rparr>"
proof (cases q)
  case (Inl x)
  with assms(2) show thesis by (intro failed [of x]) auto
next
  case (Inr u)
  with insert_entity_row_cases [OF assms(1)] assms(2) show thesis
    by (intro inserted [of "db_uuids d1 (db_seq d1)"]) auto
qed

text \<open>The four outcomes of the statement.\<close>

lemma upsert_seeing_cases:
  assumes "upsert_seeing seen mp f e h d = (r, d')"
  obtains (failed) x where "r = Inl x" "same_tables d d'"
  | (same) old where "r = Inr ()" "List.find (\<lambda>r. fact_of r = upsert_key mp f \<and> current r) (filter seen (db_entities d)) = Some old"
      "em_value_hash old = h" "d' = d"
  | (fresh) i where "r = Inr ()" "List.find (\<lambda>r. fact_of r = upsert_key mp f \<and> current r) (filter seen (db_entities d)) = None"
      "i \<notin> set (map em_id (db_entities d))" "mp_MessageID mp \<in> set (map msg_ID (db_messages d))"
      "d' = d\<lparr>db_seq := Suc (db_seq d), db_entities := db_entities d @ [inserted_row mp f e h None i (db_now d)]\<rparr>"
  | (replaced) old i where "r = Inr ()"
      "List.find (\<lambda>r. fact_of r = upsert_key mp f \<and> current r) (filter seen (db_entities d)) = Some old"
      "em_value_hash old \<noteq> h" "i \<notin> set (map em_id (db_entities d))"
      "mp_MessageID mp \<in> set (map msg_ID (db_messages d))"
      "d' = d\<lparr>db_seq := Suc (db_seq d),
              db_entities := invalidate (em_id old) (db_now d) (db_entities d) @
                [inserted_row mp f e h (Some (em_id old)) i (db_now d)]\<rparr>"
proof -
  let ?F = "List.find (\<lambda>r. fact_of r = upsert_key mp f \<and> current r) (filter seen (db_entities d))"
  have none [simp]: "update_where (\<lambda>r. False) g rs = rs" for g and rs :: "entity_row list"
    by (rule update_where_none) simp
  consider (None) "?F = None" | (Same) old where "?F = Some old" "em_value_hash old = h"
    | (Diff) old where "?F = Some old" "em_value_hash old \<noteq> h"
    by (cases ?F) auto
  then show thesis
  proof cases
    case None
    obtain q d2 where ins: "insert_entity_row mp f e h None d = (q, d2)" by fastforce
    with None assms have q: "(r, d') = (case q of Inl x \<Rightarrow> (Inl x, rolled_back d d2) | Inr u \<Rightarrow> (Inr u, d2))"
      by (auto simp: upsert_seeing_def split: sum.splits)
    from ins q show thesis
      by (rule upsert_insert_cases) (rule failed, assumption+, rule fresh [OF _ None], assumption+)
  next
    case Same
    then have "r = Inr ()" "d' = d" using assms by (auto simp: upsert_seeing_def)
    then show thesis using Same by (intro same)
  next
    case Diff
    let ?d1 = "d\<lparr>db_entities := invalidate (em_id old) (db_now d) (db_entities d)\<rparr>"
    obtain q d2 where ins: "insert_entity_row mp f e h (Some (em_id old)) ?d1 = (q, d2)" by fastforce
    with Diff assms have q: "(r, d') = (case q of Inl x \<Rightarrow> (Inl x, rolled_back d d2) | Inr u \<Rightarrow> (Inr u, d2))"
      by (auto simp: upsert_seeing_def invalidate_def split: sum.splits)
    from ins q show thesis
      by (rule upsert_insert_cases) (rule failed, assumption+, rule replaced [OF _ Diff], simp_all)
  qed
qed

lemma upsert_cases:
  assumes "upsertFactCTE mp f e h d = (r, d')"
  obtains (failed) x where "r = Inl x" "same_tables d d'"
  | (same) old where "r = Inr ()" "List.find (\<lambda>r. fact_of r = upsert_key mp f \<and> current r) (db_entities d) = Some old"
      "em_value_hash old = h" "d' = d"
  | (fresh) i where "r = Inr ()" "List.find (\<lambda>r. fact_of r = upsert_key mp f \<and> current r) (db_entities d) = None"
      "i \<notin> set (map em_id (db_entities d))" "mp_MessageID mp \<in> set (map msg_ID (db_messages d))"
      "d' = d\<lparr>db_seq := Suc (db_seq d), db_entities := db_entities d @ [inserted_row mp f e h None i (db_now d)]\<rparr>"
  | (replaced) old i where "r = Inr ()"
      "List.find (\<lambda>r. fact_of r = upsert_key mp f \<and> current r) (db_entities d) = Some old"
      "em_value_hash old \<noteq> h" "i \<notin> set (map em_id (db_entities d))"
      "mp_MessageID mp \<in> set (map msg_ID (db_messages d))"
      "d' = d\<lparr>db_seq := Suc (db_seq d),
              db_entities := invalidate (em_id old) (db_now d) (db_entities d) @
                [inserted_row mp f e h (Some (em_id old)) i (db_now d)]\<rparr>"
proof -
  have all: "filter (\<lambda>_. True) rs = rs" for rs :: "entity_row list" by simp
  show thesis
    by (rule upsert_seeing_cases [OF assms [unfolded upsertFactCTE_def], unfolded all])
      (erule failed same fresh replaced, assumption+)+
qed

lemma invalidate_others:
  "(\<And>r. r \<in> set rs \<Longrightarrow> em_id r = i \<Longrightarrow> \<not> q r) \<Longrightarrow> (\<And>r. q (r\<lparr>em_valid_until := Some now\<rparr>) \<Longrightarrow> q r) \<Longrightarrow>
     filter q (invalidate i now rs) = filter q rs"
  unfolding invalidate_def by (rule filter_update_where_other) blast

lemma invalidate_current:
  "filter current (invalidate i now rs) = filter (\<lambda>r. current r \<and> em_id r \<noteq> i) rs"
  unfolding invalidate_def by (rule filter_update_where_off) (simp add: current_def)

text \<open>With distinct keys, taking away the row that was found takes away its key.\<close>

lemma find_current_unique:
  assumes "List.find (\<lambda>r. fact_of r = k \<and> current r) rs = Some old"
    "distinct (map em_id rs)" "distinct (map fact_of (filter current rs))"
  shows "filter (\<lambda>r. current r \<and> em_id r \<noteq> em_id old) rs = filter (\<lambda>r. current r \<and> fact_of r \<noteq> k) rs"
proof (rule filter_cong [OF refl])
  fix r assume r: "r \<in> set rs"
  from assms(1) have old: "old \<in> set rs" "fact_of old = k" "current old"
    by (auto simp: find_Some_iff)
  show "(current r \<and> em_id r \<noteq> em_id old) = (current r \<and> fact_of r \<noteq> k)"
  proof (cases "current r")
    case True
    with r old assms(3) have "fact_of r = k \<Longrightarrow> r = old" by (auto simp: distinct_map inj_on_def)
    moreover from r old assms(2) have "em_id r = em_id old \<Longrightarrow> r = old" by (auto simp: distinct_map inj_on_def)
    ultimately show ?thesis using old by auto
  qed simp
qed

lemma upsert_single:
  assumes "upsertFactCTE mp f e h d = (r, d')" "single_current d"
  shows "single_current d'"
  using assms(1)
proof (cases rule: upsert_cases)
  case (failed x)
  then show ?thesis using assms(2) single_current_tables by blast
next
  case (same old)
  then show ?thesis using assms(2) by simp
next
  case (fresh i)
  then have "upsert_key mp f \<notin> fact_of ` set (filter current (db_entities d))"
    by (auto simp: find_None_iff)
  with fresh assms(2) show ?thesis by (simp add: single_current_def)
next
  case (replaced old i)
  have ids: "distinct (map em_id (db_entities d))"
    and keys: "distinct (map fact_of (filter current (db_entities d)))"
    using assms(2) by (auto simp: single_current_def)
  have cur: "filter current (db_entities d') =
      filter (\<lambda>r. current r \<and> fact_of r \<noteq> upsert_key mp f) (db_entities d) @
      [inserted_row mp f e h (Some (em_id old)) i (db_now d)]"
    using replaced(6) find_current_unique [OF replaced(2) ids keys] by (simp add: invalidate_current)
  have "distinct (map fact_of (filter (\<lambda>r. current r \<and> fact_of r \<noteq> upsert_key mp f) (db_entities d)))"
    using distinct_map_filter [OF keys, of "\<lambda>r. fact_of r \<noteq> upsert_key mp f"]
    by (simp add: conj_commute)
  then have "distinct (map fact_of (filter current (db_entities d')))" unfolding cur by auto
  moreover have "distinct (map em_id (db_entities d'))"
    using replaced(4,6) ids by (simp del: map_append add: map_append [of em_id])
  ultimately show ?thesis by (simp add: single_current_def)
qed

text \<open>After a successful upsert the fact has exactly one current row, and it carries the new hash.\<close>

lemma upsert_current:
  assumes "upsertFactCTE mp f e h d = (Inr (), d')" "single_current d"
  shows "\<exists>row. filter (\<lambda>r. fact_of r = upsert_key mp f \<and> current r) (db_entities d') = [row] \<and>
    em_value_hash row = h"
proof -
  let ?p = "\<lambda>r. fact_of r = upsert_key mp f \<and> current r"
  have one: "length (filter ?p (db_entities d')) \<le> 1"
    using upsert_single [OF assms] length_filter_le_one_distinct [of fact_of "filter current (db_entities d')" "upsert_key mp f"]
    by (simp add: single_current_def conj_commute)
  have "\<exists>row \<in> set (db_entities d'). ?p row \<and> em_value_hash row = h"
    using assms(1)
  proof (cases rule: upsert_cases)
    case (same old)
    then show ?thesis by (auto simp: find_Some_iff)
  qed auto
  then obtain row where row: "row \<in> set (filter ?p (db_entities d'))" "em_value_hash row = h" by auto
  with one have "filter ?p (db_entities d') = [row]"
    by (cases "filter ?p (db_entities d')" ) (auto simp: le_Suc_eq)
  with row(2) show ?thesis by blast
qed

text \<open>The other facts keep their rows.\<close>

lemma upsert_frame:
  assumes "upsertFactCTE mp f e h d = (r, d')" "single_current d" "k \<noteq> upsert_key mp f"
  shows "filter (\<lambda>r. fact_of r = k) (db_entities d') = filter (\<lambda>r. fact_of r = k) (db_entities d)"
  using assms(1)
proof (cases rule: upsert_cases)
  case (replaced old i)
  then have old: "old \<in> set (db_entities d)" "fact_of old = upsert_key mp f" by (auto simp: find_Some_iff)
  have "filter (\<lambda>r. fact_of r = k) (invalidate (em_id old) (db_now d) (db_entities d)) =
      filter (\<lambda>r. fact_of r = k) (db_entities d)"
  proof (rule invalidate_others)
    fix r assume "r \<in> set (db_entities d)" "em_id r = em_id old"
    then have "r = old" using old(1) assms(2) by (auto simp: single_current_def distinct_map inj_on_def)
    then show "fact_of r \<noteq> k" using old(2) assms(3) by simp
  qed (simp add: fact_of_def)
  with replaced(6) assms(3) show ?thesis by simp
qed (use assms(3) in \<open>auto simp: same_tables_def\<close>)

text \<open>Writing the same value twice adds nothing.\<close>

lemma upsert_again:
  assumes "upsertFactCTE mp f e h d = (Inr (), d')" "single_current d"
  shows "upsertFactCTE mp f e2 h d' = (Inr (), d')"
proof -
  obtain row where row: "filter (\<lambda>r. fact_of r = upsert_key mp f \<and> current r) (db_entities d') = [row]"
    "em_value_hash row = h"
    using upsert_current [OF assms] by blast
  have "List.find (\<lambda>r. fact_of r = upsert_key mp f \<and> current r) (db_entities d') = Some row"
    using row(1) by (rule find_filter)
  moreover have "update_where (\<lambda>r. False) g rs = rs" for g and rs :: "entity_row list"
    by (rule update_where_none) simp
  ultimately show ?thesis using row(2) by (simp add: upsertFactCTE_eval)
qed

section \<open>Refinement\<close>

text \<open>
  What the facts table says: the hash of the current value of each fact. An upsert is an update of
  this map, and a batch is the updates of its facts in order.
\<close>

definition current_hash :: "db \<Rightarrow> uuid \<times> uuid \<times> string \<times> string \<rightharpoonup> string" where
  "current_hash d k =
     map_option em_value_hash (List.find (\<lambda>r. fact_of r = k \<and> current r) (db_entities d))"

lemma current_hash_tables: "same_tables d d' \<Longrightarrow> current_hash d' = current_hash d"
  by (simp add: current_hash_def fun_eq_iff same_tables_def)

lemma upsert_refines:
  assumes "upsertFactCTE mp f e h d = (Inr (), d')" "single_current d"
  shows "current_hash d' = (current_hash d)(upsert_key mp f \<mapsto> h)"
proof
  fix k
  show "current_hash d' k = ((current_hash d)(upsert_key mp f \<mapsto> h)) k"
  proof (cases "k = upsert_key mp f")
    case True
    with upsert_current [OF assms] show ?thesis by (auto simp: current_hash_def dest: find_filter)
  next
    case False
    with upsert_frame [OF assms False] show ?thesis by (simp add: current_hash_def find_in_filter)
  qed
qed

text \<open>The items of a batch: a fact, its ciphertext and its hash.\<close>

definition upsert_items ::
  "message_payload \<Rightarrow> (extracted_fact \<times> string \<times> string) list \<Rightarrow> (db \<Rightarrow> unit res \<times> db) list" where
  "upsert_items mp zs = map (\<lambda>(f, e, h). upsertFactCTE mp f e h) zs"

fun upserted ::
  "message_payload \<Rightarrow> (extracted_fact \<times> string \<times> string) list \<Rightarrow> (uuid \<times> uuid \<times> string \<times> string \<rightharpoonup> string)
     \<Rightarrow> (uuid \<times> uuid \<times> string \<times> string \<rightharpoonup> string)" where
  "upserted mp [] m = m"
| "upserted mp ((f, e, h) # zs) m = upserted mp zs (m(upsert_key mp f \<mapsto> h))"

lemma run_upserts:
  "run_statements (upsert_items mp zs) d = (Inr u, d') \<Longrightarrow> single_current d \<Longrightarrow>
     current_hash d' = upserted mp zs (current_hash d) \<and> single_current d'"
proof (induction zs arbitrary: d)
  case Nil
  then show ?case by (simp add: upsert_items_def)
next
  case (Cons z zs)
  obtain f e h where z: "z = (f, e, h)" by (cases z)
  obtain q d1 where one: "upsertFactCTE mp f e h d = (q, d1)" by fastforce
  with Cons.prems(1) z obtain u1 where q: "q = Inr u1" by (cases q) (auto simp: upsert_items_def)
  with one Cons.prems(1) z have "run_statements (upsert_items mp zs) d1 = (Inr u, d')"
    by (auto simp: upsert_items_def)
  moreover have "single_current d1" using upsert_single [OF one Cons.prems(2)] .
  moreover have "current_hash d1 = (current_hash d)(upsert_key mp f \<mapsto> h)"
    using upsert_refines [OF _ Cons.prems(2)] one q by auto
  ultimately show ?case using Cons.IH [of d1] z by (metis upserted.simps(2))
qed

lemma run_statements_keeps:
  assumes "\<And>q d r d'. q \<in> set qs \<Longrightarrow> q d = (r, d') \<Longrightarrow> P d \<Longrightarrow> P d'"
  shows "run_statements qs d = (r, d') \<Longrightarrow> P d \<Longrightarrow> P d'"
  using assms
proof (induction qs arbitrary: d)
  case (Cons q qs)
  obtain x d1 where "q d = (x, d1)" by fastforce
  moreover from this have "P d1" using Cons.prems(2,3) by (meson list.set_intros(1))
  ultimately show ?case using Cons.prems Cons.IH [of d1] by (auto split: sum.splits)
qed simp

text \<open>A batch takes effect as a whole or not at all.\<close>

lemma send_batch_cases:
  assumes "send_batch qs d = (r, d')"
  shows "same_tables d d' \<or> (\<exists>d1. same_tables d d1 \<and> run_statements qs d1 = (Inr (), d'))"
proof -
  obtain f d1 where one: "pool_call d = (f, d1)" by fastforce
  then have same: "same_tables d d1" by (rule pool_call_tables)
  obtain q d2 where two: "run_statements qs d1 = (q, d2)" by fastforce
  have "f = None \<Longrightarrow> d' = (case q of Inl _ \<Rightarrow> rolled_back d1 d2 | Inr _ \<Rightarrow> d2)"
    "f \<noteq> None \<Longrightarrow> d' = d1"
    using assms one two by (auto simp: send_batch_def pool_exec_def split: sum.splits)
  with same two show ?thesis
    by (cases f; cases q) (auto intro: same_tables_trans [OF same rolled_back_tables])
qed

context table_invariant
begin

lemma batch_keeps:
  assumes "\<And>q d r d'. q \<in> set qs \<Longrightarrow> q d = (r, d') \<Longrightarrow> inv d \<Longrightarrow> inv d'"
    "send_batch qs d = (r, d')" "inv d"
  shows "inv d'"
proof -
  have run: "run_statements qs a = (x, b) \<Longrightarrow> inv a \<Longrightarrow> inv b" for a x b
    by (rule run_statements_keeps [of qs inv]) (rule assms(1))
  from send_batch_cases [OF assms(2)] show ?thesis
    using run tables_only assms(3) by metis
qed

end

lemma UpsertFactBatch_items:
  "length facts \<le> length encVals \<Longrightarrow> length facts \<le> length valHashes \<Longrightarrow>
     UpsertFactBatch mp facts encVals valHashes d =
       (None, snd (send_batch (upsert_items mp (zip facts (zip encVals valHashes))) d))"
  by (simp add: UpsertFactBatch_def upsert_items_def)

lemma UpsertFactBatch_refines:
  assumes "UpsertFactBatch mp facts encVals valHashes d = (None, d')" "single_current d"
  shows "same_tables d d' \<or>
    current_hash d' = upserted mp (zip facts (zip encVals valHashes)) (current_hash d)"
proof -
  have len: "length facts \<le> length encVals" "length facts \<le> length valHashes"
    using assms(1) by (auto simp: UpsertFactBatch_def split: if_splits)
  obtain r where r: "send_batch (upsert_items mp (zip facts (zip encVals valHashes))) d = (r, d')"
    using assms(1) by (cases "send_batch (upsert_items mp (zip facts (zip encVals valHashes))) d")
      (simp add: UpsertFactBatch_items [OF len])
  from send_batch_cases [OF r] show ?thesis
  proof (elim disjE exE conjE)
    fix d1
    assume d1: "same_tables d d1"
      and run: "run_statements (upsert_items mp (zip facts (zip encVals valHashes))) d1 = (Inr (), d')"
    show ?thesis
      using run_upserts [OF run single_current_tables [OF d1 assms(2)]] current_hash_tables [OF d1] by simp
  qed simp
qed

lemma UpsertFactBatch_single [inv_intros]:
  assumes "UpsertFactBatch mp facts encVals valHashes d = (r, d')" "single_current d"
  shows "single_current d'"
proof (cases "length valHashes < length facts \<or> length encVals < length facts")
  case True
  with assms show ?thesis by (simp add: UpsertFactBatch_def)
next
  case False
  obtain q d1 where one: "send_batch (upsert_items mp (zip facts (zip encVals valHashes))) d = (q, d1)"
    by fastforce
  with False assms(1) have "d' = d1" by (simp add: UpsertFactBatch_items not_less)
  moreover have "single_current d1"
  proof (rule single.batch_keeps [OF _ one assms(2)])
    fix q a r b
    assume "q \<in> set (upsert_items mp (zip facts (zip encVals valHashes)))" "q a = (r, b)" "single_current a"
    then show "single_current b" by (auto simp: upsert_items_def intro: upsert_single)
  qed
  ultimately show ?thesis by simp
qed

lemma UpsertFact_single [inv_intros]:
  "UpsertFact mp f e h d = (r, d') \<Longrightarrow> single_current d \<Longrightarrow> single_current d'"
  by (auto simp: UpsertFact_def apfst_def map_prod_def split: prod.splits
      intro: single.exec_keeps [OF upsert_single])

lemma UpsertFact_up:
  "UpsertFact mp f e h d = (None, d') \<Longrightarrow> db_faults d = [] \<Longrightarrow> upsertFactCTE mp f e h d = (Inr (), d')"
  by (auto simp: UpsertFact_def apfst_def map_prod_def err_of_def split: prod.splits sum.splits)

lemma fact_of_embedding [simp]: "fact_of (r\<lparr>em_embedding := v\<rparr>) = fact_of r"
  by (simp add: fact_of_def)

lemma current_embedding [simp]: "current (r\<lparr>em_embedding := v\<rparr>) = current r"
  by (simp add: current_def)

lemma update_embedding_single:
  assumes "update_embedding_stmt cod t u f v d = (r, d')" "single_current d"
  shows "single_current d'"
proof -
  have cur: "map fact_of (filter current (update_where p (\<lambda>r. r\<lparr>em_embedding := v\<rparr>) rs)) =
      map fact_of (filter current rs)" for p v rs
    by (induction rs) auto
  show ?thesis using assms
    by (auto simp: update_embedding_stmt_def exec_uuid_def single_current_def cur map_update_where_same
        split: option.splits)
qed

lemma UpdateFactEmbeddingsBatch_single [inv_intros]:
  assumes "UpdateFactEmbeddingsBatch cod t u facts vs d = (r, d')" "single_current d"
  shows "single_current d'"
proof (cases "facts = []")
  case False
  let ?qs = "map (\<lambda>(f, v). update_embedding_stmt cod t u f v) (filter (\<lambda>(f, v). v \<noteq> []) (zip facts vs))"
  obtain q d1 where one: "send_batch ?qs d = (q, d1)" by fastforce
  with False assms(1) have "d' = d1" by (simp add: UpdateFactEmbeddingsBatch_def)
  moreover have "single_current d1"
  proof (rule single.batch_keeps [OF _ one assms(2)])
    fix q a r b
    assume "q \<in> set ?qs" "q a = (r, b)" "single_current a"
    then show "single_current b" by (auto intro: update_embedding_single)
  qed
  ultimately show ?thesis by simp
qed (use assms in \<open>simp add: UpdateFactEmbeddingsBatch_def\<close>)

section \<open>What the queries return\<close>

lemma query_facts_rows:
  assumes "query_facts cod L mk tenantID userID q d = (Inr fs, d')"
  obtains t u c rows d1 where "pg_uuid cod tenantID = Some t" "pg_uuid cod userID = Some u"
    "NewCrypto mk = Inr c" "same_tables d d1" "q t u d1 = Inr rows" "fs = scanEntityFacts L c tenantID rows"
proof -
  obtain c where c: "NewCrypto mk = Inr c"
    using assms by (auto simp: query_facts_def split: sum.splits)
  obtain f d1 where one: "pool_call d = (f, d1)" by fastforce
  with assms c have "f = None" "with_uuid cod tenantID (\<lambda>t. with_uuid cod userID (\<lambda>u.
        case q t u d1 of Inl e \<Rightarrow> Inl e | Inr rows \<Rightarrow> Inr (scanEntityFacts L c tenantID rows))) = Inr fs"
    by (auto simp: query_facts_def pool_query_def split: option.splits)
  then obtain t u where tu: "pg_uuid cod tenantID = Some t" "pg_uuid cod userID = Some u"
    and v: "(case q t u d1 of Inl e \<Rightarrow> Inl e | Inr rows \<Rightarrow> Inr (scanEntityFacts L c tenantID rows)) = Inr fs"
    unfolding with_uuid_Inr by blast
  from v obtain rows where "q t u d1 = Inr rows" "fs = scanEntityFacts L c tenantID rows"
    by (cases "q t u d1") auto
  with that tu c pool_call_tables [OF one] show thesis by blast
qed

definition reads_facts ::
  "codec \<Rightarrow> crypto_lib \<Rightarrow> string \<Rightarrow> string \<Rightarrow> string \<Rightarrow> (uuid \<Rightarrow> uuid \<Rightarrow> entity_row \<Rightarrow> bool) \<Rightarrow> db
     \<Rightarrow> entity_fact list \<Rightarrow> bool" where
  "reads_facts cod L mk tenantID userID p d fs \<longleftrightarrow>
     (case (pg_uuid cod tenantID, pg_uuid cod userID, NewCrypto mk) of
        (Some t, Some u, Inr c) \<Rightarrow>
          list_all (\<lambda>f. list_ex (\<lambda>r. p t u r \<and> f = scan_fact L c tenantID r) (db_entities d)) fs
      | _ \<Rightarrow> False)"

lemma query_facts_reads:
  assumes "query_facts cod L mk tenantID userID q d = (Inr fs, d')"
    and rows: "\<And>t u d1 rows. q t u d1 = Inr rows \<Longrightarrow> \<forall>r \<in> set rows. r \<in> set (db_entities d1) \<and> p t u r"
  shows "reads_facts cod L mk tenantID userID p d fs"
  using assms(1)
proof (rule query_facts_rows)
  fix t u c rows' d1
  assume a: "pg_uuid cod tenantID = Some t" "pg_uuid cod userID = Some u" "NewCrypto mk = Inr c"
    "same_tables d d1" "q t u d1 = Inr rows'" "fs = scanEntityFacts L c tenantID rows'"
  have "\<forall>r \<in> set rows'. r \<in> set (db_entities d) \<and> p t u r"
    using rows [OF a(5)] a(4) by (simp add: same_tables_def)
  with a(1,2,3,6) show ?thesis
    by (auto simp: reads_facts_def scanEntityFacts_def list_all_iff list_ex_iff)
qed

lemma set_best_first [simp]: "set (best_first rs) = set rs"
  by (simp add: best_first_def)

lemma set_nearest [simp]: "set (nearest P v rs) = {r \<in> set rs. em_embedding r \<noteq> None}"
  by (auto simp: nearest_def)

lemma set_per_entity:
  assumes "\<And>rs. set (rank rs) \<subseteq> set rs" "rows \<in> set (per_entity P k rank rs)"
  shows "set rows \<subseteq> set rs"
  using assms by (force simp: per_entity_def dest: in_set_takeD)

lemma sql_limit_subset: "sql_limit n rs = Inr xs \<Longrightarrow> set xs \<subseteq> set rs"
  by (auto simp: sql_limit_def split: if_splits dest: in_set_takeD)

lemma SearchSelfFacts_reads:
  "SearchSelfFacts cod L mk tenantID userID d = (Inr fs, d') \<Longrightarrow>
     reads_facts cod L mk tenantID userID (\<lambda>t u r. of_user t u r \<and> current r \<and> em_entity_type r = ''self'') d fs"
  unfolding SearchSelfFacts_def by (erule query_facts_reads) auto

lemma FallbackFacts_reads:
  "FallbackFacts cod L mk tenantID userID n d = (Inr fs, d') \<Longrightarrow>
     reads_facts cod L mk tenantID userID third_party d fs"
  unfolding FallbackFacts_def by (erule query_facts_reads) (fastforce dest: sql_limit_subset)

lemma reads_facts_empty:
  "reads_facts cod L mk tenantID userID p d [] \<longleftrightarrow>
     pg_uuid cod tenantID \<noteq> None \<and> pg_uuid cod userID \<noteq> None \<and> is_ok (NewCrypto mk)"
  by (auto simp: reads_facts_def is_ok_iff split: option.splits sum.splits)

lemma SearchAllFactsByVector_reads:
  "SearchAllFactsByVector cod L P mk tenantID userID v k d = (Inr fs, d') \<Longrightarrow> fs \<noteq> [] \<Longrightarrow>
     reads_facts cod L mk tenantID userID third_party d fs"
  unfolding SearchAllFactsByVector_def
  by (auto split: if_splits elim!: query_facts_reads dest!: sql_limit_subset)

text \<open>The grouped queries: the rows of the named entities.\<close>

lemma concat_per_entity:
  assumes "\<And>rs. set (rank rs) \<subseteq> set rs" "r \<in> set (concat (per_entity P k rank rs))"
  shows "r \<in> set rs"
  using assms set_per_entity [of rank _ P k rs] by auto

lemma QueryFactsByVector_reads:
  assumes "QueryFactsByVector cod L P mk tenantID userID v names k d = (Inr fs, d')" "fs \<noteq> []"
  shows "reads_facts cod L mk tenantID userID
    (\<lambda>t u r. third_party t u r \<and> em_entity_name r \<in> set names \<and> em_embedding r \<noteq> None) d fs"
proof -
  have "query_facts cod L mk tenantID userID (\<lambda>t u d.
        Inr (concat (per_entity P k (\<lambda>rs. nearest P v (best_first rs))
          (filter (\<lambda>r. third_party t u r \<and> em_entity_name r \<in> set names \<and> em_embedding r \<noteq> None)
             (db_entities d))))) d = (Inr fs, d')"
    using assms by (auto simp: QueryFactsByVector_def split: if_splits)
  then show ?thesis
  proof (rule query_facts_reads)
    fix t u d1 rows
    assume "Inr (concat (per_entity P k (\<lambda>rs. nearest P v (best_first rs))
          (filter (\<lambda>r. third_party t u r \<and> em_entity_name r \<in> set names \<and> em_embedding r \<noteq> None)
             (db_entities d1)))) = (Inr rows :: entity_row list res)"
    then show "\<forall>r \<in> set rows. r \<in> set (db_entities d1) \<and>
        third_party t u r \<and> em_entity_name r \<in> set names \<and> em_embedding r \<noteq> None"
      using concat_per_entity [of "\<lambda>rs. nearest P v (best_first rs)"] by fastforce
  qed
qed

lemma QueryFactsByFTS_reads:
  assumes "QueryFactsByFTS cod L P mk tenantID userID query names k d = (Inr fs, d')" "fs \<noteq> []"
  shows "reads_facts cod L mk tenantID userID (\<lambda>t u r. third_party t u r \<and> em_entity_name r \<in> set names) d fs"
proof -
  let ?rank = "\<lambda>rs. order_desc (\<lambda>r. fts_rank P (em_attribute r @ '' '' @ em_source_quote r) query) (best_first rs)"
  have "query_facts cod L mk tenantID userID (\<lambda>t u d.
        Inr (concat (map (order_desc em_confidence) (per_entity P k ?rank
          (filter (\<lambda>r. third_party t u r \<and> em_entity_name r \<in> set names) (db_entities d)))))) d = (Inr fs, d')"
    using assms by (auto simp: QueryFactsByFTS_def split: if_splits)
  then show ?thesis
  proof (rule query_facts_reads)
    fix t u d1 rows
    assume "Inr (concat (map (order_desc em_confidence) (per_entity P k ?rank
          (filter (\<lambda>r. third_party t u r \<and> em_entity_name r \<in> set names) (db_entities d1))))) =
        (Inr rows :: entity_row list res)"
    then show "\<forall>r \<in> set rows. r \<in> set (db_entities d1) \<and> third_party t u r \<and> em_entity_name r \<in> set names"
      using concat_per_entity [of ?rank] by fastforce
  qed
qed

end
