(* ===== verification/VectorSearch.thy ===== *)
theory VectorSearch
  imports EntityStore
begin

text \<open>
  Semantic search over messages: \<^verbatim>\<open>internal/repository/vector.go\<close>. The vector search, the hybrid
  search and the reciprocal rank fusion of its two result lists. The fusion iterates over a Go map;
  the order of that iteration is the argument \<open>arrange\<close>, a rearrangement of the identifiers.
\<close>

record VectorQuery =
  q_TenantID :: string
  q_UserID :: string
  q_QueryText :: string
  q_Embedding :: vec
  q_TopK :: int

definition semantic :: "rat \<Rightarrow> message_row \<Rightarrow> semantic_message" where
  "semantic sim r = \<lparr>sm_ID = msg_ID r, sm_Content = msg_Content r, sm_CosineSim = sim, sm_Score = 0,
     sm_Importance = 1, sm_CreatedAt = msg_CreatedAt r\<rparr>"

definition message_dist :: "pg_search \<Rightarrow> vec \<Rightarrow> message_row \<Rightarrow> rat" where
  "message_dist P v r = (case msg_embedding r of None \<Rightarrow> 0 | Some w \<Rightarrow> vec_dist P w v)"

definition vector_stmt :: "codec \<Rightarrow> pg_search \<Rightarrow> VectorQuery \<Rightarrow> db \<Rightarrow> semantic_message list res" where
  "vector_stmt cod P q d =
     with_uuid cod (q_TenantID q) (\<lambda>t. with_uuid cod (q_UserID q) (\<lambda>u.
       case sql_limit (q_TopK q) (sort_key (message_dist P (q_Embedding q))
              (filter (\<lambda>r. msg_TenantID r = t \<and> msg_UserID r = u \<and> msg_embedding r \<noteq> None) (db_messages d))) of
         Inl e \<Rightarrow> Inl e
       | Inr rs \<Rightarrow> Inr (map (\<lambda>r. semantic (1 - message_dist P (q_Embedding q) r) r) rs)))"

definition Search :: "codec \<Rightarrow> pg_search \<Rightarrow> VectorQuery \<Rightarrow> db \<Rightarrow> semantic_message list res \<times> db" where
  "Search cod P q = pool_query (vector_stmt cod P q)"

definition fts_stmt :: "codec \<Rightarrow> pg_search \<Rightarrow> VectorQuery \<Rightarrow> db \<Rightarrow> semantic_message list res" where
  "fts_stmt cod P q d =
     with_uuid cod (q_TenantID q) (\<lambda>t. with_uuid cod (q_UserID q) (\<lambda>u.
       case sql_limit (q_TopK q) (order_desc (\<lambda>r. fts_rank P (msg_Content r) (q_QueryText q))
              (filter (\<lambda>r. msg_TenantID r = t \<and> msg_UserID r = u \<and> fts_match P (msg_Content r) (q_QueryText q))
                 (db_messages d))) of
         Inl e \<Rightarrow> Inl e
       | Inr rs \<Rightarrow> Inr (map (\<lambda>r. semantic (fts_rank P (msg_Content r) (q_QueryText q)) r) rs)))"

section \<open>Reciprocal rank fusion\<close>

definition rrfK :: rat where
  "rrfK = 60"

text \<open>The two maps of the merge: the scores and the chunk kept for each identifier.\<close>

type_synonym rrf_maps = "(uuid \<Rightarrow> rat) \<times> (uuid \<rightharpoonup> semantic_message)"

fun rrf_vec :: "nat \<Rightarrow> semantic_message list \<Rightarrow> rrf_maps \<Rightarrow> rrf_maps" where
  "rrf_vec rank [] st = st"
| "rrf_vec rank (c # cs) (scores, byID) =
     rrf_vec (Suc rank) cs
       (scores(sm_ID c := scores (sm_ID c) + 1 / (rrfK + of_nat rank + 1)), byID(sm_ID c \<mapsto> c))"

fun rrf_fts :: "nat \<Rightarrow> semantic_message list \<Rightarrow> rrf_maps \<Rightarrow> rrf_maps" where
  "rrf_fts rank [] st = st"
| "rrf_fts rank (c # cs) (scores, byID) =
     rrf_fts (Suc rank) cs
       (scores(sm_ID c := scores (sm_ID c) + 1 / (rrfK + of_nat rank + 1)),
        case byID (sm_ID c) of None \<Rightarrow> byID(sm_ID c \<mapsto> c) | Some _ \<Rightarrow> byID)"

text \<open>Sorting by descending score, and the slice \<^verbatim>\<open>merged[:topK]\<close>.\<close>

definition rrfMerge ::
  "(uuid list \<Rightarrow> uuid list) \<Rightarrow> semantic_message list \<Rightarrow> semantic_message list \<Rightarrow> int \<Rightarrow> semantic_message list res" where
  "rrfMerge arrange vecChunks ftsChunks topK =
     (let (scores, byID) = rrf_fts 0 ftsChunks (rrf_vec 0 vecChunks (\<lambda>_. 0, \<lambda>_. None));
          ids = arrange (remdups (map sm_ID (vecChunks @ ftsChunks)));
          merged = order_desc sm_Score (map (\<lambda>i. (the (byID i))\<lparr>sm_Score := scores i\<rparr>) ids)
      in if int (length merged) > topK
         then (if topK < 0 then Inl (Panic ''slice bounds out of range'') else Inr (take (nat topK) merged))
         else Inr merged)"

text \<open>
  The two searches run in goroutines of their own; which of them meets which failure is open either
  way, because the fault schedule is arbitrary.
\<close>

definition SearchHybrid ::
  "(uuid list \<Rightarrow> uuid list) \<Rightarrow> codec \<Rightarrow> pg_search \<Rightarrow> VectorQuery \<Rightarrow> db \<Rightarrow> semantic_message list res \<times> db" where
  "SearchHybrid arrange cod P q d =
     (let (vecRes, d1) = pool_query (vector_stmt cod P q) d;
          (ftsRes, d2) = (if q_QueryText q = [] then (Inr [], d1) else pool_query (fts_stmt cod P q) d1)
      in (case (vecRes, ftsRes) of
            (Inl e, Inl _) \<Rightarrow> Inl e
          | _ \<Rightarrow> rrfMerge arrange (ok_or [] vecRes) (ok_or [] ftsRes) (q_TopK q), d2))"

section \<open>What the fusion computes\<close>

text \<open>The contribution of a list to the score of an identifier.\<close>

fun rrf_part :: "nat \<Rightarrow> semantic_message list \<Rightarrow> uuid \<Rightarrow> rat" where
  "rrf_part rank [] i = 0"
| "rrf_part rank (c # cs) i =
     (if sm_ID c = i then 1 / (rrfK + of_nat rank + 1) else 0) + rrf_part (Suc rank) cs i"

lemma rrf_vec_scores: "fst (rrf_vec rank cs (sc, by)) i = sc i + rrf_part rank cs i"
  by (induction cs arbitrary: rank sc "by") auto

lemma rrf_fts_scores: "fst (rrf_fts rank cs (sc, by)) i = sc i + rrf_part rank cs i"
  by (induction cs arbitrary: rank sc "by") auto

text \<open>The map keeps a chunk under its own identifier, for the identifiers seen.\<close>

definition keeps_ids :: "(uuid \<rightharpoonup> semantic_message) \<Rightarrow> uuid set \<Rightarrow> bool" where
  "keeps_ids m ids \<longleftrightarrow> dom m = ids \<and> (\<forall>i c. m i = Some c \<longrightarrow> sm_ID c = i)"

lemma keeps_ids_upd: "keeps_ids m ids \<Longrightarrow> keeps_ids (m(sm_ID c \<mapsto> c)) (insert (sm_ID c) ids)"
  by (auto simp: keeps_ids_def)

lemma rrf_vec_ids:
  "keeps_ids m ids \<Longrightarrow> keeps_ids (snd (rrf_vec rank cs (sc, m))) (ids \<union> sm_ID ` set cs)"
proof (induction cs arbitrary: rank sc m ids)
  case (Cons c cs)
  from Cons.IH [OF keeps_ids_upd [OF Cons.prems, of c]] show ?case
    by (simp del: fun_upd_apply)
qed simp

lemma rrf_fts_ids:
  "keeps_ids m ids \<Longrightarrow> keeps_ids (snd (rrf_fts rank cs (sc, m))) (ids \<union> sm_ID ` set cs)"
proof (induction cs arbitrary: rank sc m ids)
  case (Cons c cs)
  show ?case
  proof (cases "m (sm_ID c)")
    case None
    with Cons.IH [OF keeps_ids_upd [OF Cons.prems, of c]] show ?thesis by (simp del: fun_upd_apply)
  next
    case (Some e)
    then have "ids \<union> sm_ID ` set (c # cs) = ids \<union> sm_ID ` set cs" using Cons.prems by (auto simp: keeps_ids_def)
    with Cons.IH [OF Cons.prems] Some show ?thesis by simp
  qed
qed simp

lemma rrf_kept:
  assumes "i \<in> sm_ID ` set (vs @ fs)"
  obtains c where "snd (rrf_fts 0 fs (rrf_vec 0 vs (\<lambda>_. 0, \<lambda>_. None))) i = Some c" "sm_ID c = i"
proof -
  obtain sc b where sb: "rrf_vec 0 vs (\<lambda>_. 0, \<lambda>_. None) = (sc, b)" by fastforce
  have "keeps_ids (\<lambda>_. None) {}" by (simp add: keeps_ids_def)
  then have "keeps_ids b (sm_ID ` set vs)"
    using rrf_vec_ids [of "\<lambda>_. None" "{}" 0 vs "\<lambda>_. 0"] sb by simp
  then have "keeps_ids (snd (rrf_fts 0 fs (sc, b))) (sm_ID ` set vs \<union> sm_ID ` set fs)" by (rule rrf_fts_ids)
  with assms obtain c where "snd (rrf_fts 0 fs (sc, b)) i = Some c" "sm_ID c = i"
    unfolding keeps_ids_def by (metis domD image_Un set_append)
  with that sb show thesis by simp
qed

lemma rrf_scores:
  "fst (rrf_fts 0 fs (rrf_vec 0 vs (\<lambda>_. 0, \<lambda>_. None))) i = rrf_part 0 vs i + rrf_part 0 fs i"
proof -
  obtain sc b where "rrf_vec 0 vs (\<lambda>_. 0, \<lambda>_. None) = (sc, b)" by fastforce
  with rrf_vec_scores [of 0 vs "\<lambda>_. 0" "\<lambda>_. None" i] show ?thesis by (simp add: rrf_fts_scores)
qed

text \<open>All chunks before the cut.\<close>

definition rrf_all :: "(uuid list \<Rightarrow> uuid list) \<Rightarrow> semantic_message list \<Rightarrow> semantic_message list \<Rightarrow> semantic_message list" where
  "rrf_all arrange vs fs =
     (let (scores, byID) = rrf_fts 0 fs (rrf_vec 0 vs (\<lambda>_. 0, \<lambda>_. None))
      in order_desc sm_Score (map (\<lambda>i. (the (byID i))\<lparr>sm_Score := scores i\<rparr>)
           (arrange (remdups (map sm_ID (vs @ fs))))))"

lemma rrfMerge_take: "0 \<le> k \<Longrightarrow> rrfMerge arrange vs fs k = Inr (take (nat k) (rrf_all arrange vs fs))"
  by (auto simp: rrfMerge_def rrf_all_def Let_def split: prod.splits)

lemma rrf_all_scores:
  assumes "c \<in> set (rrf_all arrange vs fs)" "\<And>is. set (arrange is) = set is"
  shows "sm_ID c \<in> sm_ID ` set (vs @ fs) \<and> sm_Score c = rrf_part 0 vs (sm_ID c) + rrf_part 0 fs (sm_ID c)"
proof -
  obtain scores byID where m: "rrf_fts 0 fs (rrf_vec 0 vs (\<lambda>_. 0, \<lambda>_. None)) = (scores, byID)" by fastforce
  from assms(1) obtain i where i: "i \<in> sm_ID ` set (vs @ fs)" "c = (the (byID i))\<lparr>sm_Score := scores i\<rparr>"
    unfolding rrf_all_def m by (auto simp: assms(2))
  obtain e where e: "byID i = Some e" "sm_ID e = i" using rrf_kept [OF i(1)] m by auto
  with i m rrf_scores [of fs vs i] show ?thesis by simp
qed

lemma rrf_all_ids:
  assumes "\<And>is. mset (arrange is) = mset is"
  shows "distinct (map sm_ID (rrf_all arrange vs fs)) \<and>
    sm_ID ` set (rrf_all arrange vs fs) = sm_ID ` set (vs @ fs)"
proof -
  obtain scores byID where m: "rrf_fts 0 fs (rrf_vec 0 vs (\<lambda>_. 0, \<lambda>_. None)) = (scores, byID)" by fastforce
  let ?ids = "arrange (remdups (map sm_ID (vs @ fs)))"
  have ids: "set ?ids = sm_ID ` set (vs @ fs)" "distinct ?ids"
    using mset_eq_setD [OF assms] mset_eq_imp_distinct_iff [OF assms] by auto
  have id: "i \<in> set ?ids \<Longrightarrow> sm_ID (the (byID i)) = i" for i
    using ids(1) m by (metis rrf_kept option.sel snd_conv)
  have "mset (map sm_ID (rrf_all arrange vs fs)) = mset (map sm_ID (map (\<lambda>i. (the (byID i))\<lparr>sm_Score := scores i\<rparr>) ?ids))"
    by (simp only: rrf_all_def m case_prod_conv mset_map mset_order_desc Let_def)
  also have "\<dots> = mset ?ids" using id by (simp add: comp_def cong: map_cong)
  finally have ms: "mset (map sm_ID (rrf_all arrange vs fs)) = mset ?ids" .
  from mset_eq_imp_distinct_iff [OF ms] mset_eq_setD [OF ms] ids show ?thesis by simp
qed

lemma rrf_all_sorted: "sorted (map (\<lambda>c. - sm_Score c) (rrf_all arrange vs fs))"
  by (simp add: rrf_all_def order_desc_sorted split: prod.splits)

end
