(* ===== verification/Facts.thy ===== *)
theory Facts
  imports Model
begin

text \<open>
  The clean-up of retrieved facts in \<^verbatim>\<open>internal/service/retriever.go\<close>: duplicates by (entity name,
  attribute), low confidence, and the character budget. The two filters overwrite the slice they read
  (\<open>compacted\<close>); the lemmas show they return what a copying filter would, and what the pipeline
  guarantees about the facts that reach the context.
\<close>

section \<open>The three passes\<close>

definition EntityFactMinConfidence :: rat where
  "EntityFactMinConfidence = 1 / 4"

definition entityFactsCharBudget :: int where
  "entityFactsCharBudget = 4000"

definition factCharCount :: "entity_fact \<Rightarrow> int" where
  "factCharCount f =
     int (RuneCount (ef_EntityName f)) + int (RuneCount (ef_Attribute f)) +
     int (RuneCount (ef_Value f)) + int (RuneCount (ef_SourceQuote f))"

text \<open>The loop of \<^verbatim>\<open>truncateFactsToBudget\<close> at index \<open>i\<close>, with the facts still to visit.\<close>

fun truncate_loop :: "entity_fact list \<Rightarrow> int \<Rightarrow> int \<Rightarrow> nat \<Rightarrow> entity_fact list \<Rightarrow> entity_fact list" where
  "truncate_loop facts budget acc i [] = facts"
| "truncate_loop facts budget acc i (f # fs) =
     (if acc + factCharCount f > budget
      then (if i = 0 then take 1 facts else take i facts)
      else truncate_loop facts budget (acc + factCharCount f) (Suc i) fs)"

definition truncateFactsToBudget :: "entity_fact list \<Rightarrow> int \<Rightarrow> entity_fact list" where
  "truncateFactsToBudget facts budget =
     (if budget \<le> 0 \<or> length facts = 0 then [] else truncate_loop facts budget 0 0 facts)"

definition fact_key :: "entity_fact \<Rightarrow> string" where
  "fact_key f = ef_EntityName f @ [chr 0] @ ef_Attribute f"

definition deduplicateByAttribute :: "entity_fact list \<Rightarrow> entity_fact list" where
  "deduplicateByAttribute facts =
     compacted (\<lambda>seen f. if fact_key f \<in> set seen then None else Some (fact_key f # seen)) [] facts"

definition filterByConfidence :: "entity_fact list \<Rightarrow> rat \<Rightarrow> entity_fact list" where
  "filterByConfidence facts minConf =
     compacted (\<lambda>s f. if ef_Confidence f \<ge> minConf then Some s else None) () facts"

section \<open>Duplicates and confidence\<close>

lemma deduplicate_first_by: "deduplicateByAttribute facts = first_by fact_key [] facts"
  by (simp add: deduplicateByAttribute_def compacted_kept kept_first_by)

lemma filterByConfidence_filter: "filterByConfidence facts c = filter (\<lambda>f. c \<le> ef_Confidence f) facts"
  by (simp add: filterByConfidence_def compacted_kept kept_filter)

lemma deduplicate_distinct: "distinct (map fact_key (deduplicateByAttribute facts))"
  by (simp add: deduplicate_first_by first_by_distinct)

lemma deduplicate_keys: "fact_key ` set (deduplicateByAttribute facts) = fact_key ` set facts"
  by (simp add: deduplicate_first_by first_by_keys)

lemma deduplicate_subset: "set (deduplicateByAttribute facts) \<subseteq> set facts"
  by (simp add: deduplicate_first_by set_first_by)

text \<open>The key separates name and attribute as long as no name holds a NUL (Postgres text cannot).\<close>

lemma fact_key_inject:
  assumes "chr 0 \<notin> set (ef_EntityName f)" "chr 0 \<notin> set (ef_EntityName g)"
  shows "fact_key f = fact_key g \<longleftrightarrow>
    ef_EntityName f = ef_EntityName g \<and> ef_Attribute f = ef_Attribute g"
proof
  assume "fact_key f = fact_key g"
  then have "split_on (chr 0) (fact_key f) = split_on (chr 0) (fact_key g)" by simp
  then have "ef_EntityName f = ef_EntityName g"
    using assms by (simp add: fact_key_def split_on_append)
  with \<open>fact_key f = fact_key g\<close> show "ef_EntityName f = ef_EntityName g \<and> ef_Attribute f = ef_Attribute g"
    by (simp add: fact_key_def)
qed (simp add: fact_key_def)

text \<open>On a list in descending order of confidence the kept fact is the best of its key.\<close>

lemma first_by_best:
  assumes "sorted (map (\<lambda>f. - c f) xs)" "x \<in> set xs" "y \<in> set (first_by k seen xs)" "k y = k x"
  shows "(c x :: rat) \<le> c y"
  using assms
proof (induction k seen xs rule: first_by.induct)
  case (2 k seen z zs)
  show ?case
  proof (cases "k z \<in> set seen")
    case True
    have "k y \<notin> set seen" using "2.prems"(3) first_by_keys [of k seen "z # zs"] by blast
    with True "2.prems" have "x \<in> set zs" by auto
    with True 2 show ?thesis by auto
  next
    case False
    show ?thesis
    proof (cases "y = z")
      case True
      with "2.prems" show ?thesis by auto
    next
      case ne: False
      with False "2.prems"(3) have y: "y \<in> set (first_by k (k z # seen) zs)" by simp
      then have "k y \<noteq> k z" using first_by_keys [of k "k z # seen" zs] by force
      with "2.prems" have "x \<in> set zs" by auto
      with False y 2 show ?thesis by auto
    qed
  qed
qed simp

section \<open>The budget\<close>

definition total_chars :: "entity_fact list \<Rightarrow> int" where
  "total_chars fs = sum_list (map factCharCount fs)"

lemma total_chars_simps [simp]:
  "total_chars [] = 0" "total_chars (f # fs) = factCharCount f + total_chars fs"
  "total_chars (fs @ gs) = total_chars fs + total_chars gs"
  by (simp_all add: total_chars_def)

lemma factCharCount_nonneg [simp]: "0 \<le> factCharCount f"
  by (simp add: factCharCount_def)

lemma total_chars_nonneg [simp]: "0 \<le> total_chars fs"
  by (induction fs) auto

lemma total_chars_take_mono: "m \<le> n \<Longrightarrow> total_chars (take m fs) \<le> total_chars (take n fs)"
proof (induction fs arbitrary: m n)
  case (Cons f fs)
  then show ?case by (cases m; cases n) auto
qed simp

text \<open>The loop stops at the first index whose running total passes the budget.\<close>

lemma truncate_loop_spec:
  assumes "facts = pre @ fs" "i = length pre" "acc = total_chars pre" "acc \<le> budget"
  shows "(truncate_loop facts budget acc i fs = facts \<and> total_chars facts \<le> budget) \<or>
    (\<exists>n. i \<le> n \<and> n < length facts \<and> truncate_loop facts budget acc i fs = take (max 1 n) facts \<and>
      total_chars (take n facts) \<le> budget \<and> budget < total_chars (take (Suc n) facts))"
  using assms
proof (induction fs arbitrary: pre i acc)
  case Nil
  then show ?case by simp
next
  case (Cons f fs)
  have tk: "take (length pre) facts = pre" "take (Suc (length pre)) facts = pre @ [f]"
    using Cons.prems(1) by simp_all
  show ?case
  proof (cases "acc + factCharCount f > budget")
    case True
    then have "truncate_loop facts budget acc i (f # fs) = take (max 1 i) facts"
      by (simp add: max_def)
    moreover have "i < length facts" using Cons.prems by simp
    ultimately show ?thesis
      using Cons.prems True tk by (intro disjI2 exI [of _ i]) simp
  next
    case False
    with Cons.prems Cons.IH [of "pre @ [f]" "Suc i" "acc + factCharCount f"] show ?thesis
      by (auto dest: Suc_leD)
  qed
qed

lemma truncate_spec:
  assumes "0 < budget" "facts \<noteq> []"
  shows "(truncateFactsToBudget facts budget = facts \<and> total_chars facts \<le> budget) \<or>
    (\<exists>n < length facts. truncateFactsToBudget facts budget = take (max 1 n) facts \<and>
      total_chars (take n facts) \<le> budget \<and> budget < total_chars (take (Suc n) facts))"
  using truncate_loop_spec [of facts "[]" facts 0 0 budget] assms
  by (auto simp: truncateFactsToBudget_def)

lemma truncate_prefix: "\<exists>n. truncateFactsToBudget facts budget = take n facts"
proof (cases "0 < budget \<and> facts \<noteq> []")
  case True
  then show ?thesis using truncate_spec [of budget facts] by (metis take_all order_refl)
next
  case False
  then have "truncateFactsToBudget facts budget = take 0 facts"
    by (auto simp: truncateFactsToBudget_def)
  then show ?thesis by blast
qed

lemma truncate_nonempty: "0 < budget \<Longrightarrow> facts \<noteq> [] \<Longrightarrow> truncateFactsToBudget facts budget \<noteq> []"
  using truncate_spec [of budget facts] by auto

lemma truncate_fits:
  "total_chars (truncateFactsToBudget facts budget) \<le> budget \<or>
   length (truncateFactsToBudget facts budget) = 1 \<or> truncateFactsToBudget facts budget = []"
proof (cases "0 < budget \<and> facts \<noteq> []")
  case True
  then consider "truncateFactsToBudget facts budget = facts" "total_chars facts \<le> budget"
    | n where "n < length facts" "truncateFactsToBudget facts budget = take (max 1 n) facts"
      "total_chars (take n facts) \<le> budget"
    using truncate_spec [of budget facts] by blast
  then show ?thesis
  proof cases
    case 2
    show ?thesis
    proof (cases "n = 0")
      case True
      with 2 show ?thesis by (cases facts) auto
    next
      case False
      with 2 have "truncateFactsToBudget facts budget = take n facts" by (simp add: max_def)
      with 2 show ?thesis by simp
    qed
  qed simp
next
  case False
  then show ?thesis by (auto simp: truncateFactsToBudget_def)
qed

text \<open>No longer prefix fits: one more fact would pass the budget.\<close>

lemma truncate_maximal:
  assumes "0 < budget" "length (truncateFactsToBudget facts budget) < n" "n \<le> length facts"
  shows "budget < total_chars (take n facts)"
proof -
  have "facts \<noteq> []" using assms by auto
  then consider "truncateFactsToBudget facts budget = facts"
    | m where "m < length facts" "truncateFactsToBudget facts budget = take (max 1 m) facts"
      "budget < total_chars (take (Suc m) facts)"
    using truncate_spec [of budget facts] assms by blast
  then show ?thesis
  proof cases
    case 1
    with assms show ?thesis by simp
  next
    case 2
    then have "Suc m \<le> n" using assms by auto
    then have "total_chars (take (Suc m) facts) \<le> total_chars (take n facts)"
      by (rule total_chars_take_mono)
    with 2 show ?thesis by simp
  qed
qed

section \<open>The pipeline\<close>

definition clean_self :: "entity_fact list \<Rightarrow> entity_fact list" where
  "clean_self facts = filterByConfidence (deduplicateByAttribute facts) EntityFactMinConfidence"

definition clean_entities :: "entity_fact list \<Rightarrow> entity_fact list" where
  "clean_entities facts = truncateFactsToBudget (clean_self facts) entityFactsCharBudget"

text \<open>What the context promises about its entity facts.\<close>

definition clean :: "entity_fact list \<Rightarrow> bool" where
  "clean fs \<longleftrightarrow> distinct (map fact_key fs) \<and> (\<forall>f \<in> set fs. 1 / 4 \<le> ef_Confidence f) \<and>
     (total_chars fs \<le> 4000 \<or> length fs = 1)"

lemma clean_self_distinct: "distinct (map fact_key (clean_self facts))"
  by (simp add: clean_self_def filterByConfidence_filter distinct_map_filter deduplicate_distinct)

lemma clean_self_confident: "f \<in> set (clean_self facts) \<Longrightarrow> 1 / 4 \<le> ef_Confidence f"
  by (simp add: clean_self_def filterByConfidence_filter EntityFactMinConfidence_def)

lemma clean_self_subset: "set (clean_self facts) \<subseteq> set facts"
  using deduplicate_subset by (auto simp: clean_self_def filterByConfidence_filter)

lemma clean_clean_entities: "clean (clean_entities facts)"
proof -
  obtain n where n: "clean_entities facts = take n (clean_self facts)"
    using truncate_prefix by (auto simp: clean_entities_def)
  have "distinct (map fact_key (clean_entities facts))"
    using clean_self_distinct [of facts] by (simp add: n distinct_take flip: take_map)
  moreover have "\<forall>f \<in> set (clean_entities facts). 1 / 4 \<le> ef_Confidence f"
    using clean_self_confident by (auto simp: n dest: in_set_takeD)
  moreover have "total_chars (clean_entities facts) \<le> 4000 \<or> length (clean_entities facts) = 1"
    using truncate_fits [of "clean_self facts" entityFactsCharBudget]
    by (auto simp: clean_entities_def entityFactsCharBudget_def)
  ultimately show ?thesis by (simp add: clean_def)
qed

lemma clean_entities_subset: "set (clean_entities facts) \<subseteq> set facts"
proof -
  obtain n where "clean_entities facts = take n (clean_self facts)"
    using truncate_prefix by (auto simp: clean_entities_def)
  then show ?thesis using set_take_subset clean_self_subset by fastforce
qed


end
