(* ===== verification/GoJsonText.thy ===== *)
theory GoJsonText
  imports GoJson
begin

text \<open>
  The JSON texts the program reads itself (answers of the language models): the syntax check and
  the decoding of \<^verbatim>\<open>json.Unmarshal\<close>, from bytes to a JSON value. A number keeps its literal. The parser
  recurses with fuel; twice the length of the text is always enough (\<open>parse_fuel\<close>).
\<close>

section \<open>Tokens\<close>

fun skip_ws :: "string \<Rightarrow> string" where
  "skip_ws [] = []"
| "skip_ws (c # cs) = (if c \<in> set [chr 32, chr 9, chr 10, chr 13] then skip_ws cs else c # cs)"

definition is_digit :: "char \<Rightarrow> bool" where
  "is_digit c \<longleftrightarrow> 48 \<le> byte c \<and> byte c \<le> 57"

text \<open>The escapes of one letter.\<close>

definition simple_escape :: "char \<Rightarrow> char option" where
  "simple_escape e =
     map_of (zip ([chr 34, chr 92] @ ''/bfnrt'') [chr 34, chr 92, chr 47, chr 8, chr 12, chr 10, chr 13, chr 9]) e"

definition hex4 :: "char \<Rightarrow> char \<Rightarrow> char \<Rightarrow> char \<Rightarrow> nat option" where
  "hex4 a b c d =
     (case (hex_value a, hex_value b, hex_value c, hex_value d) of
        (Some w, Some x, Some y, Some z) \<Rightarrow> Some (((w * 16 + x) * 16 + y) * 16 + z)
      | _ \<Rightarrow> None)"

definition surrogate :: "nat \<Rightarrow> bool" where
  "surrogate u \<longleftrightarrow> 55296 \<le> u \<and> u < 57344"

text \<open>\<^verbatim>\<open>utf16.DecodeRune\<close>: a high half followed by a low half.\<close>

definition surrogate_pair :: "nat \<Rightarrow> nat \<Rightarrow> nat option" where
  "surrogate_pair u v =
     (if 55296 \<le> u \<and> u < 56320 \<and> 56320 \<le> v \<and> v < 57344
      then Some ((u - 55296) * 1024 + (v - 56320) + 65536) else None)"

text \<open>The bytes of a string up to its closing quote, and the rest of the text.\<close>

fun scan_string :: "string \<Rightarrow> (string \<times> string) option" where
  "scan_string [] = None"
| "scan_string (c # cs) =
     (if c = chr 34 then Some ([], cs)
      else if byte c < 32 then None
      else if c \<noteq> chr 92 then map_option (apfst (Cons c)) (scan_string cs)
      else (case cs of
          [] \<Rightarrow> None
        | e # es \<Rightarrow>
            if e = CHR ''u'' then
              (case es of
                 h1 # h2 # h3 # h4 # r \<Rightarrow>
                   (case hex4 h1 h2 h3 h4 of
                      None \<Rightarrow> None
                    | Some u \<Rightarrow>
                        if surrogate u then
                          (case r of
                             b # v # l1 # l2 # l3 # l4 # r' \<Rightarrow>
                               (case (if b = chr 92 \<and> v = CHR ''u''
                                      then Option.bind (hex4 l1 l2 l3 l4) (surrogate_pair u) else None) of
                                  Some x \<Rightarrow> map_option (apfst (append (encode_rune x))) (scan_string r')
                                | None \<Rightarrow> map_option (apfst (append (encode_rune RuneError))) (scan_string r))
                           | _ \<Rightarrow> map_option (apfst (append (encode_rune RuneError))) (scan_string r))
                        else map_option (apfst (append (encode_rune u))) (scan_string r))
               | _ \<Rightarrow> None)
            else (case simple_escape e of
                    None \<Rightarrow> None
                  | Some x \<Rightarrow> map_option (apfst (Cons x)) (scan_string es))))"

text \<open>A number: the literal and the rest of the text.\<close>

definition scan_digits :: "string \<Rightarrow> (string \<times> string) option" where
  "scan_digits s =
     (if takeWhile is_digit s = [] then None else Some (takeWhile is_digit s, dropWhile is_digit s))"

definition scan_frac :: "string \<Rightarrow> (string \<times> string) option" where
  "scan_frac s =
     (case s of
        c # cs \<Rightarrow> if c = CHR ''.'' then map_option (apfst (Cons c)) (scan_digits cs) else Some ([], s)
      | [] \<Rightarrow> Some ([], s))"

definition scan_exp :: "string \<Rightarrow> (string \<times> string) option" where
  "scan_exp s =
     (case s of
        c # cs \<Rightarrow>
          if c \<in> set ''eE'' then
            (case cs of
               d # ds \<Rightarrow> if d \<in> set ''+-'' then map_option (apfst (append [c, d])) (scan_digits ds)
                         else map_option (apfst (Cons c)) (scan_digits cs)
             | [] \<Rightarrow> None)
          else Some ([], s)
      | [] \<Rightarrow> Some ([], s))"

definition scan_int :: "string \<Rightarrow> (string \<times> string) option" where
  "scan_int s =
     (case s of
        c # cs \<Rightarrow> if c = CHR ''0'' then Some ([c], cs) else scan_digits s
      | [] \<Rightarrow> None)"

definition scan_unsigned :: "string \<Rightarrow> (string \<times> string) option" where
  "scan_unsigned s =
     Option.bind (scan_int s) (\<lambda>(i, s1). Option.bind (scan_frac s1) (\<lambda>(f, s2).
       map_option (apfst (append (i @ f))) (scan_exp s2)))"

definition scan_number :: "string \<Rightarrow> (string \<times> string) option" where
  "scan_number s =
     (case s of
        c # cs \<Rightarrow> if c = CHR ''-'' then map_option (apfst (Cons c)) (scan_unsigned cs) else scan_unsigned s
      | [] \<Rightarrow> None)"

definition literal :: "string \<Rightarrow> json \<Rightarrow> string \<Rightarrow> (json \<times> string) option" where
  "literal w j s = (if has_prefix s w then Some (j, drop (length w) s) else None)"

section \<open>Values\<close>

text \<open>Go refuses texts nested more than 10000 deep.\<close>

definition maxNestingDepth :: nat where
  "maxNestingDepth = 10000"

fun parse_value :: "nat \<Rightarrow> nat \<Rightarrow> string \<Rightarrow> (json \<times> string) option"
  and parse_elems :: "nat \<Rightarrow> nat \<Rightarrow> string \<Rightarrow> (json list \<times> string) option"
  and parse_members :: "nat \<Rightarrow> nat \<Rightarrow> string \<Rightarrow> ((string \<times> json) list \<times> string) option" where
  "parse_value 0 d s = None"
| "parse_value (Suc n) d s =
     (case skip_ws s of
        [] \<Rightarrow> None
      | c # cs \<Rightarrow>
          if c = CHR ''{'' then
            (if maxNestingDepth \<le> d then None
             else if take 1 (skip_ws cs) = ''}'' then Some (JObj [], drop 1 (skip_ws cs))
             else map_option (apfst JObj) (parse_members n (Suc d) cs))
          else if c = CHR ''['' then
            (if maxNestingDepth \<le> d then None
             else if take 1 (skip_ws cs) = '']'' then Some (JArr [], drop 1 (skip_ws cs))
             else map_option (apfst JArr) (parse_elems n (Suc d) cs))
          else if c = chr 34 then map_option (apfst (\<lambda>t. JStr (coerce_utf8 t))) (scan_string cs)
          else if c = CHR ''t'' then literal ''true'' (JBool True) (c # cs)
          else if c = CHR ''f'' then literal ''false'' (JBool False) (c # cs)
          else if c = CHR ''n'' then literal ''null'' JNull (c # cs)
          else map_option (apfst JNum) (scan_number (c # cs)))"
| "parse_elems 0 d s = None"
| "parse_elems (Suc n) d s =
     (case parse_value n d s of
        None \<Rightarrow> None
      | Some (j, r) \<Rightarrow>
          (case skip_ws r of
             c # cs \<Rightarrow>
               if c = CHR '','' then map_option (apfst (Cons j)) (parse_elems n d cs)
               else if c = CHR '']'' then Some ([j], cs) else None
           | [] \<Rightarrow> None))"
| "parse_members 0 d s = None"
| "parse_members (Suc n) d s =
     (case skip_ws s of
        q # ks \<Rightarrow>
          if q \<noteq> chr 34 then None
          else (case scan_string ks of
             None \<Rightarrow> None
           | Some (k, r) \<Rightarrow>
               (case skip_ws r of
                  c # vs \<Rightarrow>
                    if c \<noteq> CHR '':'' then None
                    else (case parse_value n d vs of
                       None \<Rightarrow> None
                     | Some (j, r2) \<Rightarrow>
                         (case skip_ws r2 of
                            e # es \<Rightarrow>
                              if e = CHR '','' then map_option (apfst (Cons (coerce_utf8 k, j))) (parse_members n d es)
                              else if e = CHR ''}'' then Some ([(coerce_utf8 k, j)], es) else None
                          | [] \<Rightarrow> None))
                | [] \<Rightarrow> None))
      | [] \<Rightarrow> None)"

text \<open>A text is one value with white space around it.\<close>

definition parse_json :: "string \<Rightarrow> json option" where
  "parse_json s =
     (case parse_value (2 * length s + 2) 0 s of
        Some (j, r) \<Rightarrow> if skip_ws r = [] then Some j else None
      | None \<Rightarrow> None)"

section \<open>The fuel is enough\<close>

lemma skip_ws_length: "length (skip_ws s) \<le> length s"
  by (induction s) auto

declare scan_string.simps(2) [simp del]

lemma scan_string_length: "scan_string s = Some (t, r) \<Longrightarrow> length r < length s"
proof (induction s arbitrary: t r rule: measure_induct_rule [of length])
  case (less s)
  have IH: "length r' < length s" if "scan_string u = Some (t', r')" "length u < length s" for u t' r'
    using less.IH [OF that(2,1)] that(2) by simp
  show ?case
  proof (cases s)
    case (Cons c cs)
    with less.prems show ?thesis
      by (simp only: scan_string.simps(2)) (auto
          split: if_splits option.splits list.splits dest!: IH)
  qed (use less.prems in simp)
qed

lemma scan_digits_length: "scan_digits s = Some (t, r) \<Longrightarrow> length r < length s"
proof -
  assume "scan_digits s = Some (t, r)"
  then have "takeWhile is_digit s \<noteq> []" "r = dropWhile is_digit s"
    by (auto simp: scan_digits_def split: if_splits)
  then show ?thesis using takeWhile_dropWhile_id [of is_digit s]
    by (metis length_append length_greater_0_conv less_add_same_cancel2)
qed

lemma scan_unsigned_length: "scan_unsigned s = Some (t, r) \<Longrightarrow> length r < length s"
proof -
  have i: "scan_int s = Some (i, u) \<Longrightarrow> length u < length s" for i u
    by (auto simp: scan_int_def split: list.splits if_splits dest: scan_digits_length)
  have f: "scan_frac u = Some (i, v) \<Longrightarrow> length v \<le> length u" for i u v
    by (auto simp: scan_frac_def split: list.splits if_splits dest: scan_digits_length)
  have e: "scan_exp u = Some (i, v) \<Longrightarrow> length v \<le> length u" for i u v
    by (auto simp: scan_exp_def split: list.splits if_splits dest: scan_digits_length)
  show "scan_unsigned s = Some (t, r) \<Longrightarrow> ?thesis"
    by (auto simp: scan_unsigned_def bind_eq_Some_conv dest!: i f e)
qed

lemma scan_number_length: "scan_number s = Some (t, r) \<Longrightarrow> length r < length s"
  by (auto simp: scan_number_def split: list.splits if_splits dest: scan_unsigned_length)

lemma literal_length: "literal w j s = Some (t, r) \<Longrightarrow> w \<noteq> [] \<Longrightarrow> length r < length s"
  by (auto simp: literal_def has_prefix_iff split: if_splits)

text \<open>What is left is shorter than the text.\<close>

lemma skip_ws_Cons: "skip_ws s = c # cs \<Longrightarrow> length cs < length s"
  using skip_ws_length [of s] by simp

lemma drop_ws_length: "length (drop 1 (skip_ws s)) \<le> length s"
  using skip_ws_length [of s] by simp

lemma parse_shorter:
  "(\<forall>d s j r. parse_value n d s = Some (j, r) \<longrightarrow> length r < length s) \<and>
   (\<forall>d s js r. parse_elems n d s = Some (js, r) \<longrightarrow> length r < length s) \<and>
   (\<forall>d s ms r. parse_members n d s = Some (ms, r) \<longrightarrow> length r < length s)"
proof (induction n)
  case (Suc n)
  then have v: "parse_value n d s = Some (j, r) \<Longrightarrow> length r < length s"
    and e: "parse_elems n d s = Some (js, r) \<Longrightarrow> length r < length s"
    and m: "parse_members n d s = Some (ms, r) \<Longrightarrow> length r < length s" for d s j js ms r
    by blast+
  have scalar: "length r < length s"
    if "literal w j (c # cs) = Some (j', r)" "w \<noteq> []" "skip_ws s = c # cs" for w j c cs j' r and s :: string
    using literal_length [OF that(1,2)] skip_ws_Cons [OF that(3)] by simp
  have "length r < length s" if run: "parse_value (Suc n) d s = Some (j, r)" for d s j r
  proof (cases "skip_ws s")
    case (Cons c cs)
    note cs = skip_ws_Cons [OF Cons]
    have "length r \<le> length cs"
      using run Cons drop_ws_length [of cs]
      by (auto split: if_splits dest!: e m scan_string_length scan_number_length literal_length)
    with cs show ?thesis by simp
  qed (use run in simp)
  moreover have "length r < length s" if "parse_elems (Suc n) d s = Some (js, r)" for d s js r
    using that by (auto split: if_splits option.splits list.splits dest!: v e skip_ws_Cons)
  moreover have "length r < length s" if "parse_members (Suc n) d s = Some (ms, r)" for d s ms r
    using that by (auto split: if_splits option.splits list.splits dest!: v m skip_ws_Cons scan_string_length)
  ultimately show ?case by blast
qed simp

lemma parse_members_step:
  assumes v: "\<And>m d s. 2 * length s < n \<Longrightarrow> 2 * length s < m \<Longrightarrow> parse_value n d s = parse_value m d s"
    and k: "\<And>m d s. 2 * length s + 1 < n \<Longrightarrow> 2 * length s + 1 < m \<Longrightarrow> parse_members n d s = parse_members m d s"
    and m: "2 * length s + 1 < Suc n" "2 * length s + 1 < m"
  shows "parse_members (Suc n) d s = parse_members m d s"
proof -
  obtain m' where m': "m = Suc m'" using m by (cases m) auto
  have val: "parse_value n d vs = parse_value m' d vs" if "length vs < length s" for vs
    using that m m' by (intro v) auto
  have members: "parse_members n d es = parse_members m' d es" if "length es < length s" for es
    using that m m' by (intro k) auto
  have short: "length vs < length s" if "skip_ws s = q # ks" "scan_string ks = Some (t, r)" "skip_ws r = c # vs"
    for q ks t r c vs
    using skip_ws_Cons [OF that(1)] scan_string_length [OF that(2)] skip_ws_Cons [OF that(3)] by simp
  have shorter: "length es < length vs" if "parse_value m' d vs = Some (j, r2)" "skip_ws r2 = c # es" for vs j r2 c es
    using parse_shorter [of m'] that(1) skip_ws_Cons [OF that(2)] by (meson less_trans)
  have tail: "parse_members n d es = parse_members m' d es"
    if "skip_ws s = q # ks" "scan_string ks = Some (t, r)" "skip_ws r = c # vs"
      "parse_value m' d vs = Some (j, r2)" "skip_ws r2 = c' # es" for q ks t r c vs j r2 c' es
    by (rule members) (rule less_trans [OF shorter [OF that(4,5)] short [OF that(1-3)]])
  show ?thesis unfolding m'
    by (auto split: list.splits option.splits simp: val [OF short] dest: tail)
qed

lemma parse_fuel_step:
  "(\<forall>m d s. 2 * length s < n \<longrightarrow> 2 * length s < m \<longrightarrow> parse_value n d s = parse_value m d s) \<and>
   (\<forall>m d s. 2 * length s + 1 < n \<longrightarrow> 2 * length s + 1 < m \<longrightarrow> parse_elems n d s = parse_elems m d s) \<and>
   (\<forall>m d s. 2 * length s + 1 < n \<longrightarrow> 2 * length s + 1 < m \<longrightarrow> parse_members n d s = parse_members m d s)"
proof (induction n)
  case (Suc n)
  then have v: "2 * length s < n \<Longrightarrow> 2 * length s < m \<Longrightarrow> parse_value n d s = parse_value m d s"
    and e: "2 * length s + 1 < n \<Longrightarrow> 2 * length s + 1 < m \<Longrightarrow> parse_elems n d s = parse_elems m d s"
    and k: "2 * length s + 1 < n \<Longrightarrow> 2 * length s + 1 < m \<Longrightarrow> parse_members n d s = parse_members m d s" for m d s
    by blast+
  have "parse_value (Suc n) d s = parse_value m d s" if m: "2 * length s < Suc n" "2 * length s < m" for m d s
  proof -
    obtain m' where m': "m = Suc m'" using m by (cases m) auto
    have "parse_elems n (Suc d) cs = parse_elems m' (Suc d) cs"
      "parse_members n (Suc d) cs = parse_members m' (Suc d) cs" if "skip_ws s = c # cs" for c cs
      using skip_ws_Cons [OF that] m m' by (auto intro!: e k)
    then show ?thesis unfolding m' by (auto split: list.splits)
  qed
  moreover have "parse_elems (Suc n) d s = parse_elems m d s"
    if m: "2 * length s + 1 < Suc n" "2 * length s + 1 < m" for m d s
  proof -
    obtain m' where m': "m = Suc m'" using m by (cases m) auto
    have same: "parse_value n d s = parse_value m' d s" using m m' by (intro v) auto
    have "parse_elems n d cs = parse_elems m' d cs" if "parse_value n d s = Some (j, r)" "skip_ws r = c # cs" for j r c cs
    proof -
      have "length r < length s" using that(1) parse_shorter by blast
      with skip_ws_Cons [OF that(2)] m m' show ?thesis by (intro e) auto
    qed
    with same show ?thesis unfolding m' by (auto split: list.splits option.splits)
  qed
  moreover have "parse_members (Suc n) d s = parse_members m d s"
    if "2 * length s + 1 < Suc n" "2 * length s + 1 < m" for m d s
    using v k that by (rule parse_members_step)
  ultimately show ?case by blast
qed simp

text \<open>Any fuel above twice the length gives the same result.\<close>

lemma parse_fuel:
  assumes "2 * length s < n"
  shows "parse_value n d s = parse_value (2 * length s + 2) d s"
proof -
  have "2 * length s < 2 * length s + 2" by simp
  with assms parse_fuel_step [of n] show ?thesis by blast
qed

end
