(* ===== verification/Redis.thy ===== *)
theory Redis
  imports Tables GoJsonText
begin

text \<open>
  The Redis server is not part of the repository: it is an argument of the model, a function from a
  command and a server state to a reply or an error and the next state. The commands are those the
  code issues, with the arguments it passes. The locale \<open>redis_store\<close> states the documented effect of
  each command that is answered without an error (a missing key is a nil
  reply, never a server error), through observers of the server state (lists,
  counters, sorted sets, strings, streams); nothing is assumed about a command that fails. An
  in-memory server that satisfies the laws serves the witnesses.
\<close>

section \<open>Commands and replies\<close>

text \<open>A stored value: the parse of a JSON text, or other text.\<close>

datatype bulk = Json json | Text string

text \<open>A stored value as the JSON it is the text of.\<close>

fun bulk_json :: "bulk \<Rightarrow> json option" where
  "bulk_json (Json j) = Some j"
| "bulk_json (Text s) = parse_json s"

datatype redis_cmd =
    EXISTS string
  | LPUSH string bulk
  | RPUSH string bulk
  | LTRIM string int int
  | LRANGE string int int
  | EXPIRE string int
  | INCR string
  | GET string
  | DEL string
  | ZADD string int string
  | ZREM string string
  | ZRANGEBYSCORE string int int int   \<comment> \<open>key, maximal score, offset, limit\<close>
  | SETNX string string int            \<comment> \<open>key, value, time to live in seconds\<close>
  | PUBLISH string bulk
  | XADD string int "(string \<times> bulk) list"

datatype reply =
    RInt int
  | RNil
  | RStatus
  | RBulk bulk
  | RList "bulk list"
  | RMembers "string list"

type_synonym 'r redis = "redis_cmd \<Rightarrow> 'r \<Rightarrow> reply res \<times> 'r"

text \<open>The process state the repositories and handlers share: the database and the Redis server.\<close>

record 'r world =
  w_db :: db
  w_redis :: 'r

definition redis_do :: "'r redis \<Rightarrow> redis_cmd \<Rightarrow> 'r world \<Rightarrow> reply res \<times> 'r world" where
  "redis_do R c w = (let (r, st) = R c (w_redis w) in (r, w\<lparr>w_redis := st\<rparr>))"

text \<open>A pipeline sends all its commands; its error is that of the first command that failed.\<close>

fun redis_pipe :: "'r redis \<Rightarrow> redis_cmd list \<Rightarrow> 'r world \<Rightarrow> reply res list \<times> 'r world" where
  "redis_pipe R [] w = ([], w)"
| "redis_pipe R (c # cs) w =
     (let (r, w1) = redis_do R c w; (rs, w2) = redis_pipe R cs w1 in (r # rs, w2))"

fun pipe_err :: "reply res list \<Rightarrow> err option" where
  "pipe_err [] = None"
| "pipe_err (Inl e # rs) = Some e"
| "pipe_err (Inr _ # rs) = pipe_err rs"

text \<open>The client's typed results; a reply of another type is an error.\<close>

definition as_int :: "reply res \<Rightarrow> int res" where
  "as_int r = (case r of Inl e \<Rightarrow> Inl e | Inr (RInt n) \<Rightarrow> Inr n | _ \<Rightarrow> Inl (Err ''redis: unexpected reply''))"

definition as_list :: "reply res \<Rightarrow> bulk list res" where
  "as_list r = (case r of Inl e \<Rightarrow> Inl e | Inr (RList vs) \<Rightarrow> Inr vs | _ \<Rightarrow> Inl (Err ''redis: unexpected reply''))"

definition as_members :: "reply res \<Rightarrow> string list res" where
  "as_members r =
     (case r of Inl e \<Rightarrow> Inl e | Inr (RMembers ms) \<Rightarrow> Inr ms | _ \<Rightarrow> Inl (Err ''redis: unexpected reply''))"

text \<open>\<^verbatim>\<open>redis.Nil\<close>, and \<^verbatim>\<open>Cmd.Int64()\<close> on a stored text.\<close>

definition redis_Nil :: err where
  "redis_Nil = Err ''redis: nil''"

definition as_int64 :: "reply res \<Rightarrow> int res" where
  "as_int64 r =
     (case r of
        Inl e \<Rightarrow> Inl e
      | Inr RNil \<Rightarrow> Inl redis_Nil
      | Inr (RBulk (Text s)) \<Rightarrow> (case Atoi s of Some n \<Rightarrow> Inr n | None \<Rightarrow> Inl (Err ''strconv.ParseInt''))
      | _ \<Rightarrow> Inl (Err ''redis: unexpected reply''))"

lemma as_simps [simp]:
  "as_int (Inl e) = Inl e" "as_int (Inr (RInt n)) = Inr n"
  "as_list (Inl e) = Inl e" "as_list (Inr (RList vs)) = Inr vs"
  "as_members (Inl e) = Inl e" "as_members (Inr (RMembers ms)) = Inr ms"
  "as_int64 (Inl e) = Inl e" "as_int64 (Inr RNil) = Inl redis_Nil"
  by (simp_all add: as_int_def as_list_def as_members_def as_int64_def)

lemma as_int64_Itoa [simp]: "int64 n \<Longrightarrow> as_int64 (Inr (RBulk (Text (Itoa n)))) = Inr n"
  by (simp add: as_int64_def Atoi_Itoa)

lemma redis_do_db: "redis_do R c w = (r, w') \<Longrightarrow> w_db w' = w_db w"
  by (auto simp: redis_do_def split: prod.splits)

lemma redis_pipe_db: "redis_pipe R cs w = (rs, w') \<Longrightarrow> w_db w' = w_db w"
  by (induction cs arbitrary: w rs w') (auto split: prod.splits dest: redis_do_db)

section \<open>What the commands do\<close>

text \<open>Index ranges are inclusive, and a negative index counts from the end.\<close>

definition redis_range :: "int \<Rightarrow> int \<Rightarrow> 'a list \<Rightarrow> 'a list" where
  "redis_range a b xs =
     (let n = int (length xs); s = max 0 (if a < 0 then n + a else a); e = (if b < 0 then n + b else b)
      in if e < s then [] else take (nat (e - s + 1)) (drop (nat s) xs))"

lemma redis_range_prefix: "0 \<le> b \<Longrightarrow> redis_range 0 b xs = take (nat (b + 1)) xs"
  by (simp add: redis_range_def Let_def)

lemma redis_range_49 [simp]: "redis_range 0 49 xs = take 50 xs"
  by (simp add: redis_range_prefix)

lemma redis_range_all [simp]: "redis_range 0 (- 1) xs = xs"
  by (simp add: redis_range_def Let_def)

text \<open>A sorted set as its (score, member) pairs in Redis order.\<close>

type_synonym zset = "(int \<times> string) list"

definition zset_add :: "int \<Rightarrow> string \<Rightarrow> zset \<Rightarrow> zset" where
  "zset_add sc m z =
     (let z' = filter (\<lambda>p. snd p \<noteq> m) z in
      filter (\<lambda>p. fst p \<le> sc) z' @ [(sc, m)] @ filter (\<lambda>p. sc < fst p) z')"

definition zset_rem :: "string \<Rightarrow> zset \<Rightarrow> zset" where
  "zset_rem m z = filter (\<lambda>p. snd p \<noteq> m) z"

definition zset_upto :: "int \<Rightarrow> int \<Rightarrow> int \<Rightarrow> zset \<Rightarrow> string list" where
  "zset_upto mx off cnt z =
     (let ms = drop (nat off) (map snd (filter (\<lambda>p. fst p \<le> mx) z))
      in if cnt < 0 then ms else take (nat cnt) ms)"

lemma zset_mem_add: "m \<in> snd ` set (zset_add sc k z) \<longleftrightarrow> m = k \<or> m \<in> snd ` set z"
  by (force simp: zset_add_def Let_def)

lemma zset_mem_rem: "m \<in> snd ` set (zset_rem k z) \<longleftrightarrow> m \<noteq> k \<and> m \<in> snd ` set z"
  by (force simp: zset_rem_def)

section \<open>The interface\<close>

record 'r observers =
  obs_list :: "'r \<Rightarrow> string \<Rightarrow> bulk list"
  obs_count :: "'r \<Rightarrow> string \<Rightarrow> int option"
  obs_zset :: "'r \<Rightarrow> string \<Rightarrow> zset"
  obs_string :: "'r \<Rightarrow> string \<Rightarrow> string option"
  obs_stream :: "'r \<Rightarrow> string \<Rightarrow> (string \<times> bulk) list list"
  obs_other :: "'r \<Rightarrow> string \<Rightarrow> bool"   \<comment> \<open>the key holds a value that is not a list\<close>

definition same_lists :: "('r, 'z) observers_scheme \<Rightarrow> 'r \<Rightarrow> 'r \<Rightarrow> bool" where
  "same_lists ob st st' \<longleftrightarrow> obs_list ob st' = obs_list ob st"

definition same_rest :: "('r, 'z) observers_scheme \<Rightarrow> 'r \<Rightarrow> 'r \<Rightarrow> bool" where
  "same_rest ob st st' \<longleftrightarrow> obs_count ob st' = obs_count ob st \<and> obs_zset ob st' = obs_zset ob st \<and>
     obs_string ob st' = obs_string ob st \<and> obs_stream ob st' = obs_stream ob st"

text \<open>
  A list key exists iff the list is not empty; SETNX sets a key only when nothing is stored under it; EXPIRE changes nothing at the time it is issued (a key
  that runs out disappears later, which is a change of the server state between the code's steps);
  GET of a counter returns its decimal text; XADD appends an entry and its approximate MAXLEN drops
  old entries only from streams that reached the limit.
\<close>

locale redis_store =
  fixes R :: "'r redis" and ob :: "'r observers"
  assumes exists_ok: "R (EXISTS k) st = (Inr r, st') \<Longrightarrow>
      r = RInt (if obs_list ob st k = [] \<and> \<not> obs_other ob st k then 0 else 1) \<and> same_lists ob st st' \<and> same_rest ob st st'"
    and nil_never: "R cmd st \<noteq> (Inl redis_Nil, st')"
    and lpush_ok: "R (LPUSH k v) st = (Inr r, st') \<Longrightarrow>
      obs_list ob st' = (obs_list ob st)(k := v # obs_list ob st k) \<and> same_rest ob st st'"
    and rpush_ok: "R (RPUSH k v) st = (Inr r, st') \<Longrightarrow>
      obs_list ob st' = (obs_list ob st)(k := obs_list ob st k @ [v]) \<and> same_rest ob st st'"
    and ltrim_ok: "R (LTRIM k a b) st = (Inr r, st') \<Longrightarrow>
      obs_list ob st' = (obs_list ob st)(k := redis_range a b (obs_list ob st k)) \<and> same_rest ob st st'"
    and lrange_ok: "R (LRANGE k a b) st = (Inr r, st') \<Longrightarrow>
      r = RList (redis_range a b (obs_list ob st k)) \<and> same_lists ob st st' \<and> same_rest ob st st'"
    and expire_ok: "R (EXPIRE k n) st = (Inr r, st') \<Longrightarrow> same_lists ob st st' \<and> same_rest ob st st'"
    and incr_ok: "R (INCR k) st = (Inr r, st') \<Longrightarrow> obs_string ob st k = None \<Longrightarrow>
      (let n = (case obs_count ob st k of None \<Rightarrow> 0 | Some n \<Rightarrow> n) + 1 in
       r = RInt n \<and> int64 n \<and> obs_count ob st' = (obs_count ob st)(k := Some n)) \<and>
      same_lists ob st st' \<and> obs_zset ob st' = obs_zset ob st \<and> obs_string ob st' = obs_string ob st \<and>
      obs_stream ob st' = obs_stream ob st"
    and get_ok: "R (GET k) st = (Inr r, st') \<Longrightarrow> obs_string ob st k = None \<Longrightarrow>
      r = (case obs_count ob st k of None \<Rightarrow> RNil | Some n \<Rightarrow> RBulk (Text (Itoa n))) \<and>
      same_lists ob st st' \<and> same_rest ob st st'"
    and del_ok: "R (DEL k) st = (Inr r, st') \<Longrightarrow>
      obs_count ob st' = (obs_count ob st)(k := None) \<and> obs_list ob st' = (obs_list ob st)(k := []) \<and>
      obs_zset ob st' = (obs_zset ob st)(k := []) \<and> obs_string ob st' = (obs_string ob st)(k := None) \<and>
      obs_stream ob st' = (obs_stream ob st)(k := [])"
    and zadd_ok: "R (ZADD k sc m) st = (Inr r, st') \<Longrightarrow>
      obs_zset ob st' = (obs_zset ob st)(k := zset_add sc m (obs_zset ob st k)) \<and> same_lists ob st st' \<and>
      obs_count ob st' = obs_count ob st \<and> obs_string ob st' = obs_string ob st \<and>
      obs_stream ob st' = obs_stream ob st"
    and zrem_ok: "R (ZREM k m) st = (Inr r, st') \<Longrightarrow>
      obs_zset ob st' = (obs_zset ob st)(k := zset_rem m (obs_zset ob st k)) \<and> same_lists ob st st' \<and>
      obs_count ob st' = obs_count ob st \<and> obs_string ob st' = obs_string ob st \<and>
      obs_stream ob st' = obs_stream ob st"
    and zrange_ok: "R (ZRANGEBYSCORE k mx off n) st = (Inr r, st') \<Longrightarrow>
      r = RMembers (zset_upto mx off n (obs_zset ob st k)) \<and> same_lists ob st st' \<and> same_rest ob st st'"
    and setnx_ok: "R (SETNX k tx ttl) st = (Inr r, st') \<Longrightarrow>
      (if obs_list ob st k = [] \<and> \<not> obs_other ob st k
       then r = RInt 1 \<and> obs_string ob st' = (obs_string ob st)(k := Some tx)
       else r = RInt 0 \<and> obs_string ob st' = obs_string ob st) \<and>
      same_lists ob st st' \<and> obs_count ob st' = obs_count ob st \<and> obs_zset ob st' = obs_zset ob st \<and>
      obs_stream ob st' = obs_stream ob st"
    and publish_ok: "R (PUBLISH c v) st = (Inr r, st') \<Longrightarrow> same_lists ob st st' \<and> same_rest ob st st'"
    and xadd_ok: "R (XADD k mx e) st = (Inr r, st') \<Longrightarrow>
      (\<exists>j. obs_stream ob st' = (obs_stream ob st)(k := drop j (obs_stream ob st k @ [e])) \<and>
           (int (length (obs_stream ob st k)) < mx \<longrightarrow> j = 0) \<and> j \<le> length (obs_stream ob st k)) \<and>
      same_lists ob st st' \<and> obs_count ob st' = obs_count ob st \<and> obs_zset ob st' = obs_zset ob st \<and>
      obs_string ob st' = obs_string ob st"
begin

abbreviation lst :: "'r world \<Rightarrow> string \<Rightarrow> bulk list" where
  "lst w \<equiv> obs_list ob (w_redis w)"

lemma do_exists:
  "redis_do R (EXISTS k) w = (Inr r, w') \<Longrightarrow>
     as_int (Inr r) = Inr (if lst w k = [] \<and> \<not> obs_other ob (w_redis w) k then 0 else 1) \<and> lst w' = lst w \<and> w_db w' = w_db w"
  by (auto simp: redis_do_def same_lists_def split: prod.splits dest!: exists_ok)

lemma do_lrange:
  "redis_do R (LRANGE k a b) w = (Inr r, w') \<Longrightarrow>
     as_list (Inr r) = Inr (redis_range a b (lst w k)) \<and> lst w' = lst w \<and> w_db w' = w_db w"
  by (auto simp: redis_do_def same_lists_def split: prod.splits dest!: lrange_ok)

text \<open>Pipelines of pushes.\<close>

lemma pipe_lpush:
  assumes "redis_pipe R (map (\<lambda>x. LPUSH k (f x)) xs @ cs) w = (rs, w')" "pipe_err rs = None"
  shows "\<exists>w1 rs1. lst w1 = (lst w)(k := rev (map f xs) @ lst w k) \<and> w_db w1 = w_db w \<and>
    redis_pipe R cs w1 = (rs1, w') \<and> pipe_err rs1 = None"
  using assms
proof (induction xs arbitrary: w rs)
  case Nil
  then show ?case by (intro exI [of _ w] exI [of _ rs]) simp
next
  case (Cons x xs)
  obtain r w1 where one: "redis_do R (LPUSH k (f x)) w = (r, w1)" by fastforce
  obtain rs2 where two: "redis_pipe R (map (\<lambda>x. LPUSH k (f x)) xs @ cs) w1 = (rs2, w')" "rs = r # rs2"
    using Cons.prems(1) one by (auto split: prod.splits)
  then obtain y where y: "r = Inr y" "pipe_err rs2 = None" using Cons.prems(2) by (cases r) auto
  have lw1: "lst w1 = (lst w)(k := f x # lst w k)" "w_db w1 = w_db w"
    using one y by (auto simp: redis_do_def split: prod.splits dest!: lpush_ok)
  with Cons.IH [OF two(1) y(2)] show ?case
    by (simp only: fun_upd_upd fun_upd_same rev.simps list.map append_assoc append.simps)
qed

lemma pipe_rpush:
  assumes "redis_pipe R (map (\<lambda>x. RPUSH k (f x)) xs @ cs) w = (rs, w')" "pipe_err rs = None"
  shows "\<exists>w1 rs1. lst w1 = (lst w)(k := lst w k @ map f xs) \<and> w_db w1 = w_db w \<and>
    redis_pipe R cs w1 = (rs1, w') \<and> pipe_err rs1 = None"
  using assms
proof (induction xs arbitrary: w rs)
  case Nil
  then show ?case by (intro exI [of _ w] exI [of _ rs]) simp
next
  case (Cons x xs)
  obtain r w1 where one: "redis_do R (RPUSH k (f x)) w = (r, w1)" by fastforce
  obtain rs2 where two: "redis_pipe R (map (\<lambda>x. RPUSH k (f x)) xs @ cs) w1 = (rs2, w')" "rs = r # rs2"
    using Cons.prems(1) one by (auto split: prod.splits)
  then obtain y where y: "r = Inr y" "pipe_err rs2 = None" using Cons.prems(2) by (cases r) auto
  have lw1: "lst w1 = (lst w)(k := lst w k @ [f x])" "w_db w1 = w_db w"
    using one y by (auto simp: redis_do_def split: prod.splits dest!: rpush_ok)
  with Cons.IH [OF two(1) y(2)] show ?case
    by (simp only: fun_upd_upd fun_upd_same rev.simps list.map append_assoc append.simps)
qed

lemma pipe_trim_expire:
  assumes "redis_pipe R [LTRIM k 0 49, EXPIRE k n] w = (rs, w')" "pipe_err rs = None"
  shows "lst w' = (lst w)(k := take 50 (lst w k)) \<and> w_db w' = w_db w"
proof -
  obtain r1 w1 where one: "redis_do R (LTRIM k 0 49) w = (r1, w1)" by fastforce
  obtain r2 w2 where two: "redis_do R (EXPIRE k n) w1 = (r2, w2)" by fastforce
  have "rs = [r1, r2]" "w' = w2" using assms(1) one two by auto
  with assms(2) obtain y1 y2 where "r1 = Inr y1" "r2 = Inr y2"
    by (cases r1; cases r2) auto
  with one two \<open>w' = w2\<close> show ?thesis
    by (auto simp: redis_do_def same_lists_def split: prod.splits dest!: ltrim_ok expire_ok)
qed

end

section \<open>An in-memory server\<close>

record mem =
  mem_list :: "string \<Rightarrow> bulk list"
  mem_count :: "string \<Rightarrow> int option"
  mem_zset :: "string \<Rightarrow> zset"
  mem_string :: "string \<Rightarrow> string option"
  mem_stream :: "string \<Rightarrow> (string \<times> bulk) list list"

definition empty_mem :: mem where
  "empty_mem = \<lparr>mem_list = (\<lambda>_. []), mem_count = (\<lambda>_. None), mem_zset = (\<lambda>_. []),
     mem_string = (\<lambda>_. None), mem_stream = (\<lambda>_. [])\<rparr>"

definition mem_other :: "mem \<Rightarrow> string \<Rightarrow> bool" where
  "mem_other s k \<longleftrightarrow> mem_count s k \<noteq> None \<or> mem_zset s k \<noteq> [] \<or> mem_string s k \<noteq> None \<or> mem_stream s k \<noteq> []"

fun mem_redis :: "mem redis" where
  "mem_redis (EXISTS k) s = (Inr (RInt (if mem_list s k = [] \<and> \<not> mem_other s k then 0 else 1)), s)"
| "mem_redis (LPUSH k v) s =
     (Inr (RInt (int (Suc (length (mem_list s k))))), s\<lparr>mem_list := (mem_list s)(k := v # mem_list s k)\<rparr>)"
| "mem_redis (RPUSH k v) s =
     (Inr (RInt (int (Suc (length (mem_list s k))))), s\<lparr>mem_list := (mem_list s)(k := mem_list s k @ [v])\<rparr>)"
| "mem_redis (LTRIM k a b) s = (Inr RStatus, s\<lparr>mem_list := (mem_list s)(k := redis_range a b (mem_list s k))\<rparr>)"
| "mem_redis (LRANGE k a b) s = (Inr (RList (redis_range a b (mem_list s k))), s)"
| "mem_redis (EXPIRE k n) s = (Inr (RInt 1), s)"
| "mem_redis (INCR k) s =
     (let n = (case mem_count s k of None \<Rightarrow> 0 | Some n \<Rightarrow> n) + 1 in
      if int64 n then (Inr (RInt n), s\<lparr>mem_count := (mem_count s)(k := Some n)\<rparr>)
      else (Inl (Err ''ERR increment or decrement would overflow''), s))"
| "mem_redis (GET k) s = (Inr (case mem_count s k of
        None \<Rightarrow> (case mem_string s k of None \<Rightarrow> RNil | Some v \<Rightarrow> RBulk (Text v))
      | Some n \<Rightarrow> RBulk (Text (Itoa n))), s)"
| "mem_redis (DEL k) s =
     (Inr (RInt 1), s\<lparr>mem_count := (mem_count s)(k := None), mem_list := (mem_list s)(k := []),
                     mem_zset := (mem_zset s)(k := []), mem_string := (mem_string s)(k := None),
                     mem_stream := (mem_stream s)(k := [])\<rparr>)"
| "mem_redis (ZADD k sc m) s = (Inr (RInt 1), s\<lparr>mem_zset := (mem_zset s)(k := zset_add sc m (mem_zset s k))\<rparr>)"
| "mem_redis (ZREM k m) s = (Inr (RInt 1), s\<lparr>mem_zset := (mem_zset s)(k := zset_rem m (mem_zset s k))\<rparr>)"
| "mem_redis (ZRANGEBYSCORE k mx off n) s = (Inr (RMembers (zset_upto mx off n (mem_zset s k))), s)"
| "mem_redis (SETNX k v ttl) s =
     (if mem_list s k = [] \<and> \<not> mem_other s k
      then (Inr (RInt 1), s\<lparr>mem_string := (mem_string s)(k := Some v)\<rparr>) else (Inr (RInt 0), s))"
| "mem_redis (PUBLISH c v) s = (Inr (RInt 0), s)"
| "mem_redis (XADD k mx e) s =
     (Inr RStatus, s\<lparr>mem_stream := (mem_stream s)(k :=
        (let xs = mem_stream s k @ [e] in drop (length xs - nat (max 1 mx)) xs))\<rparr>)"

definition mem_observers :: "mem observers" where
  "mem_observers = \<lparr>obs_list = mem_list, obs_count = mem_count, obs_zset = mem_zset,
     obs_string = mem_string, obs_stream = mem_stream, obs_other = mem_other\<rparr>"

interpretation mem: redis_store mem_redis mem_observers
proof (unfold_locales, goal_cases)
  case (2 cmd st st')
  then show ?case
    by (cases "(cmd, st)" rule: mem_redis.cases) (auto simp: redis_Nil_def Let_def split: option.splits)
next
  case (16 k mx e st r st')
  then show ?case
    by (auto simp: mem_observers_def same_lists_def Let_def
        intro!: exI [of _ "Suc (length (mem_stream st k)) - nat (max 1 mx)"])
qed (auto simp: mem_observers_def same_lists_def same_rest_def Let_def split: option.splits if_splits)

end
