(* ===== verification/Cache.thy ===== *)
theory Cache
  imports Redis Messages
begin

text \<open>
  The Redis cache of recent messages, the per-session counter of unprocessed messages, the set of
  active sessions, the distributed lock and the producers of events and stream entries:
  \<^verbatim>\<open>internal/repository/cache.go\<close>. The Redis server is the parameter \<^verbatim>\<open>R\<close> of \<^verbatim>\<open>Redis.thy\<close>, and the
  database is the one of \<^verbatim>\<open>Messages.thy\<close>. What is proved of a server that follows the laws of the
  locale \<^verbatim>\<open>redis_store\<close>: the content and the bound of the cached list, the windows read back from it,
  and the counter and active-set protocol.
\<close>

section \<open>Keys\<close>

definition msgs_key :: "string \<Rightarrow> string \<Rightarrow> string" where
  "msgs_key tenantID sessionID = tenantID @ '':sess:'' @ sessionID @ '':msgs''"

definition batch_key :: "string \<Rightarrow> string \<Rightarrow> string" where
  "batch_key tenantID sessionID = tenantID @ '':sess:'' @ sessionID @ '':cog_batch''"

definition activeKey :: string where
  "activeKey = ''global:active_sessions''"

definition active_member :: "string \<Rightarrow> string \<Rightarrow> string" where
  "active_member tenantID sessionID = tenantID @ '':'' @ sessionID"

definition on_db :: "(db \<Rightarrow> 'a \<times> db) \<Rightarrow> 'r world \<Rightarrow> 'a \<times> 'r world" where
  "on_db f w = (let (r, d) = f (w_db w) in (r, w\<lparr>w_db := d\<rparr>))"

section \<open>The message list\<close>

definition marshal_message :: "codec \<Rightarrow> message \<Rightarrow> bulk" where
  "marshal_message cod m = Json (message_json cod m)"

definition reloadAndAppend ::
  "'r redis \<Rightarrow> codec \<Rightarrow> string \<Rightarrow> string \<Rightarrow> string \<Rightarrow> message list \<Rightarrow> 'r world \<Rightarrow> err option \<times> 'r world" where
  "reloadAndAppend R cod key tenantID sessionID msgs w =
     (let (h, w1) = on_db (GetSessionHistory cod tenantID sessionID 50 []) w;
          existing = (case h of Inl _ \<Rightarrow> [] | Inr ms \<Rightarrow> ms);
          (rs, w2) = redis_pipe R
            (map (\<lambda>m. RPUSH key (marshal_message cod m)) existing @
             map (\<lambda>m. LPUSH key (marshal_message cod m)) msgs @
             [LTRIM key 0 49, EXPIRE key 7200]) w1
      in (pipe_err rs, w2))"

definition AppendMessages ::
  "'r redis \<Rightarrow> codec \<Rightarrow> string \<Rightarrow> string \<Rightarrow> message list \<Rightarrow> 'r world \<Rightarrow> err option \<times> 'r world" where
  "AppendMessages R cod tenantID sessionID msgs w =
     (let key = msgs_key tenantID sessionID; (r, w1) = redis_do R (EXISTS key) w in
      case as_int r of
        Inl e \<Rightarrow> (Some e, w1)
      | Inr exists \<Rightarrow>
          if exists = 0 then reloadAndAppend R cod key tenantID sessionID msgs w1
          else (let (rs, w2) = redis_pipe R
                  (map (\<lambda>m. LPUSH key (marshal_message cod m)) msgs @ [LTRIM key 0 49, EXPIRE key 7200]) w1
                in (pipe_err rs, w2)))"

text \<open>
  \<^verbatim>\<open>json.Unmarshal\<close> of a stored value: an error flag and the struct as far as it was filled.
\<close>

definition decode_message :: "codec \<Rightarrow> bulk \<Rightarrow> bool \<times> message" where
  "decode_message cod v = (case bulk_json v of Some j \<Rightarrow> unmarshal_message cod j | None \<Rightarrow> (True, zero_message))"

definition GetRawMessages ::
  "'r redis \<Rightarrow> codec \<Rightarrow> string \<Rightarrow> string \<Rightarrow> int \<Rightarrow> 'r world \<Rightarrow> message list res \<times> 'r world" where
  "GetRawMessages R cod tenantID sessionID n w =
     (let (r, w1) = redis_do R (LRANGE (msgs_key tenantID sessionID) 0 (n - 1)) w in
      case as_list r of
        Inl e \<Rightarrow> (Inl e, w1)
      | Inr vals \<Rightarrow>
          if vals = [] then on_db (GetSessionHistory cod tenantID sessionID n []) w1
          else (Inr (map (\<lambda>v. snd (decode_message cod v)) vals), w1))"

text \<open>The decoding loop: malformed entries are left out; the last entry with the anchor's id counts.\<close>

fun anchor_loop ::
  "codec \<Rightarrow> string \<Rightarrow> bulk list \<Rightarrow> message list \<Rightarrow> nat option \<Rightarrow> message list \<times> nat option" where
  "anchor_loop cod anchorMsgID [] all_msgs anchorIdx = (all_msgs, anchorIdx)"
| "anchor_loop cod anchorMsgID (v # vs) all_msgs anchorIdx =
     (case decode_message cod v of
        (True, _) \<Rightarrow> anchor_loop cod anchorMsgID vs all_msgs anchorIdx
      | (False, m) \<Rightarrow>
          anchor_loop cod anchorMsgID vs (all_msgs @ [m])
            (if uuid_String cod (msg_ID m) = anchorMsgID then Some (length all_msgs) else anchorIdx))"

text \<open>\<^verbatim>\<open>all[anchorIdx:end]\<close>; a negative count makes the bounds invalid.\<close>

definition anchor_window :: "message list \<Rightarrow> nat \<Rightarrow> int \<Rightarrow> message list res" where
  "anchor_window all_msgs i n =
     (let e = (if int i + n > int (length all_msgs) then int (length all_msgs) else int i + n) in
      if e < int i then Inl (Panic ''slice bounds out of range'')
      else Inr (take (nat (e - int i)) (drop i all_msgs)))"

definition GetRawMessagesUntil ::
  "'r redis \<Rightarrow> codec \<Rightarrow> string \<Rightarrow> string \<Rightarrow> string \<Rightarrow> int \<Rightarrow> 'r world \<Rightarrow> message list res \<times> 'r world" where
  "GetRawMessagesUntil R cod tenantID sessionID anchorMsgID n w =
     (if anchorMsgID = [] then GetRawMessages R cod tenantID sessionID n w
      else (let (r, w1) = redis_do R (LRANGE (msgs_key tenantID sessionID) 0 49) w in
            case as_list r of
              Inl e \<Rightarrow> (Inl e, w1)
            | Inr vals \<Rightarrow>
                if vals = [] then (Inr [], w1)
                else (case anchor_loop cod anchorMsgID vals [] None of
                        (_, None) \<Rightarrow> (Inr [], w1)
                      | (all_msgs, Some i) \<Rightarrow> (anchor_window all_msgs i n, w1))))"

section \<open>The batch counter and the active sessions\<close>

definition IncrementCognitiveBatch ::
  "'r redis \<Rightarrow> string \<Rightarrow> string \<Rightarrow> time \<Rightarrow> 'r world \<Rightarrow> int res \<times> 'r world" where
  "IncrementCognitiveBatch R tenantID sessionID now w =
     (let key = batch_key tenantID sessionID;
          (rs, w1) = redis_pipe R [INCR key, EXPIRE key 86400,
             ZADD activeKey (now div second) (active_member tenantID sessionID)] w
      in case pipe_err rs of
           Some e \<Rightarrow> (Inl e, w1)
         | None \<Rightarrow> (case as_int (hd rs) of Inl e \<Rightarrow> (Inr 0, w1) | Inr v \<Rightarrow> (Inr v, w1)))"

definition GetCognitiveBatchCount :: "'r redis \<Rightarrow> string \<Rightarrow> string \<Rightarrow> 'r world \<Rightarrow> int res \<times> 'r world" where
  "GetCognitiveBatchCount R tenantID sessionID w =
     (let (r, w1) = redis_do R (GET (batch_key tenantID sessionID)) w in
      case as_int64 r of
        Inl e \<Rightarrow> (if e = redis_Nil then Inr 0 else Inl e, w1)
      | Inr v \<Rightarrow> (Inr v, w1))"

definition ResetCognitiveBatch :: "'r redis \<Rightarrow> string \<Rightarrow> string \<Rightarrow> 'r world \<Rightarrow> err option \<times> 'r world" where
  "ResetCognitiveBatch R tenantID sessionID w =
     (let (rs, w1) = redis_pipe R
        [DEL (batch_key tenantID sessionID), ZREM activeKey (active_member tenantID sessionID)] w
      in (pipe_err rs, w1))"

definition GetInactiveSessions :: "'r redis \<Rightarrow> int \<Rightarrow> int \<Rightarrow> time \<Rightarrow> 'r world \<Rightarrow> string list res \<times> 'r world" where
  "GetInactiveSessions R olderThan limit now w =
     (let (r, w1) = redis_do R (ZRANGEBYSCORE activeKey ((now - olderThan) div second) 0 limit) w
      in (as_members r, w1))"

definition RemoveSessionActivity :: "'r redis \<Rightarrow> string \<Rightarrow> string \<Rightarrow> 'r world \<Rightarrow> err option \<times> 'r world" where
  "RemoveSessionActivity R tenantID sessionID w =
     apfst err_of (redis_do R (ZREM activeKey (active_member tenantID sessionID)) w)"

definition TryLock :: "'r redis \<Rightarrow> string \<Rightarrow> int \<Rightarrow> 'r world \<Rightarrow> bool res \<times> 'r world" where
  "TryLock R key ttl w =
     (let (r, w1) = redis_do R (SETNX key ''locked'' ttl) w in
      (case as_int r of Inl e \<Rightarrow> Inl e | Inr v \<Rightarrow> Inr (v = 1), w1))"

definition PublishEvent :: "'r redis \<Rightarrow> string \<Rightarrow> bulk \<Rightarrow> 'r world \<Rightarrow> err option \<times> 'r world" where
  "PublishEvent R channel payload w = apfst err_of (redis_do R (PUBLISH channel payload) w)"

definition XAddCognitiveBatch :: "'r redis \<Rightarrow> string \<Rightarrow> bulk \<Rightarrow> 'r world \<Rightarrow> err option \<times> 'r world" where
  "XAddCognitiveBatch R tenantID payload w =
     apfst err_of (redis_do R (XADD (tenantID @ '':stream:cognitive'') 10000
       [(''payload'', payload), (''retries'', Text ''0'')]) w)"


section \<open>Reading observers through the cache\<close>

definition cached :: "'r observers \<Rightarrow> string \<Rightarrow> string \<Rightarrow> 'r world \<Rightarrow> bulk list" where
  "cached ob tenantID sessionID w = obs_list ob (w_redis w) (msgs_key tenantID sessionID)"

definition pending :: "'r observers \<Rightarrow> string \<Rightarrow> string \<Rightarrow> 'r world \<Rightarrow> int" where
  "pending ob tenantID sessionID w =
     (case obs_count ob (w_redis w) (batch_key tenantID sessionID) of None \<Rightarrow> 0 | Some n \<Rightarrow> n)"

definition active :: "'r observers \<Rightarrow> 'r world \<Rightarrow> zset" where
  "active ob w = obs_zset ob (w_redis w) activeKey"

definition unlocked :: "'r observers \<Rightarrow> string \<Rightarrow> 'r world \<Rightarrow> bool" where
  "unlocked ob key w \<longleftrightarrow> obs_string ob (w_redis w) key = None"

text \<open>Nothing is stored under the key.\<close>

definition key_free :: "'r observers \<Rightarrow> string \<Rightarrow> 'r world \<Rightarrow> bool" where
  "key_free ob key w \<longleftrightarrow> obs_list ob (w_redis w) key = [] \<and> \<not> obs_other ob (w_redis w) key"

lemma on_db_redis: "on_db f w = (r, w') \<Longrightarrow> w_redis w' = w_redis w \<and> f (w_db w) = (r, w_db w')"
  by (auto simp: on_db_def split: prod.splits)

section \<open>What the list holds\<close>

context redis_store
begin

lemma append_hit:
  assumes "AppendMessages R cod t s ms w = (None, w')"
    "cached ob t s w \<noteq> [] \<or> obs_other ob (w_redis w) (msgs_key t s)"
  shows "lst w' = (lst w)(msgs_key t s := take 50 (rev (map (marshal_message cod) ms) @ cached ob t s w)) \<and>
    w_db w' = w_db w"
proof -
  let ?k = "msgs_key t s"
  obtain r w1 where one: "redis_do R (EXISTS ?k) w = (r, w1)" by fastforce
  with assms(1) obtain y where y: "r = Inr y"
    by (cases r) (auto simp: AppendMessages_def Let_def split: prod.splits)
  have d: "as_int r = Inr 1" "lst w1 = lst w" "w_db w1 = w_db w"
    using do_exists [OF one [unfolded y]] assms(2) y by (auto simp: cached_def)
  then obtain rs where two: "redis_pipe R (map (\<lambda>m. LPUSH ?k (marshal_message cod m)) ms @
      [LTRIM ?k 0 49, EXPIRE ?k 7200]) w1 = (rs, w')" "pipe_err rs = None"
    using assms(1) one by (auto simp: AppendMessages_def Let_def split: prod.splits)
  obtain w2 rs2 where three: "lst w2 = (lst w1)(?k := rev (map (marshal_message cod) ms) @ lst w1 ?k)"
    "w_db w2 = w_db w1" "redis_pipe R [LTRIM ?k 0 49, EXPIRE ?k 7200] w2 = (rs2, w')" "pipe_err rs2 = None"
    using pipe_lpush [OF two] by blast
  have "lst w' = (lst w2)(?k := take 50 (lst w2 ?k))" "w_db w' = w_db w2"
    using pipe_trim_expire [OF three(3,4)] by auto
  with d three(1,2) show ?thesis by (simp only: fun_upd_upd fun_upd_same cached_def)
qed

lemma append_miss:
  assumes "AppendMessages R cod t s ms w = (None, w')" "cached ob t s w = []"
    "\<not> obs_other ob (w_redis w) (msgs_key t s)"
  shows "lst w' = (lst w)(msgs_key t s := take 50 (rev (map (marshal_message cod) ms) @
      map (marshal_message cod)
        (case fst (GetSessionHistory cod t s 50 [] (w_db w)) of Inl _ \<Rightarrow> [] | Inr h \<Rightarrow> h)))"
proof -
  let ?k = "msgs_key t s"
  let ?h = "case fst (GetSessionHistory cod t s 50 [] (w_db w)) of Inl _ \<Rightarrow> [] | Inr h \<Rightarrow> h"
  obtain r w1 where one: "redis_do R (EXISTS ?k) w = (r, w1)" by fastforce
  with assms(1) obtain y where y: "r = Inr y"
    by (cases r) (auto simp: AppendMessages_def Let_def split: prod.splits)
  have d: "as_int r = Inr 0" "lst w1 = lst w" "w_db w1 = w_db w"
    using do_exists [OF one [unfolded y]] assms(2,3) y by (auto simp: cached_def)
  obtain q w2 where q: "on_db (GetSessionHistory cod t s 50 []) w1 = (q, w2)" by fastforce
  then have q': "lst w2 = lst w1" "?h = (case q of Inl _ \<Rightarrow> [] | Inr h \<Rightarrow> h)"
    using on_db_redis [OF q] d(3) by auto
  obtain rs where two: "redis_pipe R (map (\<lambda>m. RPUSH ?k (marshal_message cod m)) ?h @
      (map (\<lambda>m. LPUSH ?k (marshal_message cod m)) ms @ [LTRIM ?k 0 49, EXPIRE ?k 7200])) w2 = (rs, w')"
    "pipe_err rs = None"
    using assms(1) one d(1) q q'(2)
    by (auto simp: AppendMessages_def reloadAndAppend_def Let_def split: prod.splits)
  obtain w3 rs3 where three: "lst w3 = (lst w2)(?k := lst w2 ?k @ map (marshal_message cod) ?h)"
    "redis_pipe R (map (\<lambda>m. LPUSH ?k (marshal_message cod m)) ms @ [LTRIM ?k 0 49, EXPIRE ?k 7200]) w3 = (rs3, w')"
    "pipe_err rs3 = None"
    using pipe_rpush [OF two] by blast
  obtain w4 rs4 where four: "lst w4 = (lst w3)(?k := rev (map (marshal_message cod) ms) @ lst w3 ?k)"
    "redis_pipe R [LTRIM ?k 0 49, EXPIRE ?k 7200] w4 = (rs4, w')" "pipe_err rs4 = None"
    using pipe_lpush [OF three(2,3)] by blast
  have "lst w' = (lst w4)(?k := take 50 (lst w4 ?k))" using pipe_trim_expire [OF four(2,3)] by auto
  moreover have "lst w ?k = []" using assms(2) by (simp add: cached_def)
  ultimately show ?thesis
    using d(2) q'(1) three(1) four(1) by (simp only: fun_upd_upd fun_upd_same append_Nil)
qed

text \<open>Whatever the cache held, a successful append leaves at most fifty entries, the newest first.\<close>

lemma append_shape:
  assumes "AppendMessages R cod t s ms w = (None, w')"
  shows "\<exists>old. lst w' = (lst w)(msgs_key t s := take 50 (rev (map (marshal_message cod) ms) @ old))"
  using append_hit [OF assms] append_miss [OF assms] by blast

end

text \<open>The families of keys are disjoint.\<close>

lemma batch_key_not_active: "batch_key t s \<noteq> activeKey"
proof
  assume "batch_key t s = activeKey"
  then have "last (batch_key t s) = last activeKey" by simp
  then show False by (simp add: batch_key_def activeKey_def)
qed

lemma batch_key_not_stream: "batch_key t s \<noteq> t' @ '':stream:cognitive''"
proof
  assume "batch_key t s = t' @ '':stream:cognitive''"
  then have "last (batch_key t s) = last (t' @ '':stream:cognitive'')" by simp
  then show False by (simp add: batch_key_def)
qed

section \<open>The counter, the active set and the lock\<close>

text \<open>The parts of the server state that an operation on the batch counter leaves alone.\<close>

definition same_lists_streams :: "'r observers \<Rightarrow> 'r world \<Rightarrow> 'r world \<Rightarrow> bool" where
  "same_lists_streams ob w w' \<longleftrightarrow> obs_list ob (w_redis w') = obs_list ob (w_redis w) \<and>
     obs_stream ob (w_redis w') = obs_stream ob (w_redis w)"

context redis_store
begin

lemma increment_ok:
  assumes "IncrementCognitiveBatch R t s now w = (Inr n, w')" "unlocked ob (batch_key t s) w"
  shows "n = pending ob t s w + 1 \<and>
    obs_count ob (w_redis w') = (obs_count ob (w_redis w))(batch_key t s := Some n) \<and>
    active ob w' = zset_add (now div second) (active_member t s) (active ob w) \<and>
    same_lists_streams ob w w' \<and> w_db w' = w_db w"
proof -
  obtain r1 w1 where one: "redis_do R (INCR (batch_key t s)) w = (r1, w1)" by fastforce
  obtain r2 w2 where two: "redis_do R (EXPIRE (batch_key t s) 86400) w1 = (r2, w2)" by fastforce
  obtain r3 w3 where three: "redis_do R (ZADD activeKey (now div second) (active_member t s)) w2 = (r3, w3)"
    by fastforce
  from assms(1) one two three obtain y1 y2 y3 where r: "r1 = Inr y1" "r2 = Inr y2" "r3 = Inr y3" and w': "w3 = w'"
    by (cases r1; cases r2; cases r3) (auto simp: IncrementCognitiveBatch_def Let_def split: sum.splits)
  have a: "y1 = RInt (pending ob t s w + 1)"
    "obs_count ob (w_redis w1) = (obs_count ob (w_redis w))(batch_key t s := Some (pending ob t s w + 1))"
    "active ob w1 = active ob w" "same_lists_streams ob w w1" "w_db w1 = w_db w"
    using one r(1) assms(2)
    by (auto simp: redis_do_def pending_def active_def unlocked_def same_lists_streams_def same_lists_def
        Let_def split: prod.splits dest!: incr_ok)
  have b: "obs_count ob (w_redis w2) = obs_count ob (w_redis w1)" "active ob w2 = active ob w1"
    "same_lists_streams ob w1 w2" "w_db w2 = w_db w1"
    using two r(2) by (auto simp: redis_do_def active_def same_lists_streams_def same_lists_def
        same_rest_def split: prod.splits dest!: expire_ok)
  have c: "obs_count ob (w_redis w3) = obs_count ob (w_redis w2)"
    "active ob w3 = zset_add (now div second) (active_member t s) (active ob w2)"
    "same_lists_streams ob w2 w3" "w_db w3 = w_db w2"
    using three r(3) by (auto simp: redis_do_def active_def same_lists_streams_def same_lists_def
        split: prod.splits dest!: zadd_ok)
  have "n = pending ob t s w + 1"
    using assms(1) one two three r a(1) by (simp add: IncrementCognitiveBatch_def Let_def)
  with a b c w' show ?thesis by (simp add: same_lists_streams_def)
qed

lemma batch_count_ok:
  assumes "GetCognitiveBatchCount R t s w = (Inr n, w')" "unlocked ob (batch_key t s) w"
    "int64 (pending ob t s w)"
  shows "n = pending ob t s w \<and> obs_count ob (w_redis w') = obs_count ob (w_redis w) \<and>
    active ob w' = active ob w \<and> obs_string ob (w_redis w') = obs_string ob (w_redis w) \<and>
    same_lists_streams ob w w' \<and> w_db w' = w_db w"
proof -
  obtain r w1 where one: "redis_do R (GET (batch_key t s)) w = (r, w1)" by fastforce
  show ?thesis
  proof (cases r)
    case (Inr y)
    with one assms(2) have d: "y = (case obs_count ob (w_redis w) (batch_key t s) of
        None \<Rightarrow> RNil | Some n \<Rightarrow> RBulk (Text (Itoa n)))"
      "obs_count ob (w_redis w1) = obs_count ob (w_redis w)" "active ob w1 = active ob w"
      "obs_string ob (w_redis w1) = obs_string ob (w_redis w)"
      "same_lists_streams ob w w1" "w_db w1 = w_db w"
      by (auto simp: redis_do_def unlocked_def same_lists_streams_def same_lists_def same_rest_def active_def
          split: prod.splits dest!: get_ok)
    with one Inr assms(1,3) show ?thesis
      by (auto simp: GetCognitiveBatchCount_def pending_def split: option.splits)
  next
    case (Inl e)
    with one assms(1) have d: "e = redis_Nil" "n = 0" "w1 = w'"
      by (auto simp: GetCognitiveBatchCount_def split: if_splits)
    with one Inl nil_never show ?thesis
      by (auto simp: redis_do_def split: prod.splits)
  qed
qed

lemma reset_ok:
  assumes "ResetCognitiveBatch R t s w = (None, w')"
  shows "obs_count ob (w_redis w') = (obs_count ob (w_redis w))(batch_key t s := None) \<and>
    active ob w' = zset_rem (active_member t s) (active ob w) \<and>
    obs_stream ob (w_redis w') = (obs_stream ob (w_redis w))(batch_key t s := []) \<and>
    obs_string ob (w_redis w') = (obs_string ob (w_redis w))(batch_key t s := None) \<and> w_db w' = w_db w"
proof -
  obtain r1 w1 where one: "redis_do R (DEL (batch_key t s)) w = (r1, w1)" by fastforce
  obtain r2 w2 where two: "redis_do R (ZREM activeKey (active_member t s)) w1 = (r2, w2)" by fastforce
  from assms one two obtain y1 y2 where r: "r1 = Inr y1" "r2 = Inr y2" and w': "w2 = w'"
    by (cases r1; cases r2) (auto simp: ResetCognitiveBatch_def)
  have "obs_count ob (w_redis w1) = (obs_count ob (w_redis w))(batch_key t s := None)"
    "active ob w1 = active ob w" "obs_stream ob (w_redis w1) = (obs_stream ob (w_redis w))(batch_key t s := [])"
    "obs_string ob (w_redis w1) = (obs_string ob (w_redis w))(batch_key t s := None)" "w_db w1 = w_db w"
    using one r(1) batch_key_not_active [of t s]
    by (auto simp: redis_do_def active_def split: prod.splits dest!: del_ok)
  moreover have "obs_count ob (w_redis w2) = obs_count ob (w_redis w1)"
    "active ob w2 = zset_rem (active_member t s) (active ob w1)"
    "obs_stream ob (w_redis w2) = obs_stream ob (w_redis w1)"
    "obs_string ob (w_redis w2) = obs_string ob (w_redis w1)" "w_db w2 = w_db w1"
    using two r(2) by (auto simp: redis_do_def active_def split: prod.splits dest!: zrem_ok)
  ultimately show ?thesis using w' by simp
qed

lemma remove_ok:
  assumes "RemoveSessionActivity R t s w = (None, w')"
  shows "obs_count ob (w_redis w') = obs_count ob (w_redis w) \<and>
    active ob w' = zset_rem (active_member t s) (active ob w) \<and>
    obs_string ob (w_redis w') = obs_string ob (w_redis w) \<and>
    same_lists_streams ob w w' \<and> w_db w' = w_db w"
  using assms
  by (auto simp: RemoveSessionActivity_def redis_do_def active_def same_lists_streams_def same_lists_def
      err_of_None split: prod.splits dest!: zrem_ok)

lemma inactive_ok:
  assumes "GetInactiveSessions R older limit now w = (Inr ms, w')"
  shows "ms = zset_upto ((now - older) div second) 0 limit (active ob w) \<and>
    active ob w' = active ob w \<and> obs_count ob (w_redis w') = obs_count ob (w_redis w) \<and>
    obs_string ob (w_redis w') = obs_string ob (w_redis w) \<and> same_lists_streams ob w w' \<and> w_db w' = w_db w"
proof -
  obtain r w1 where one: "redis_do R (ZRANGEBYSCORE activeKey ((now - older) div second) 0 limit) w = (r, w1)"
    by fastforce
  with assms obtain y where y: "r = Inr y"
    by (cases r) (auto simp: GetInactiveSessions_def)
  with one assms show ?thesis
    by (auto simp: GetInactiveSessions_def redis_do_def active_def same_lists_streams_def same_lists_def
        same_rest_def split: prod.splits dest!: zrange_ok)
qed

lemma lock_ok:
  assumes "TryLock R key ttl w = (Inr b, w')"
  shows "b = key_free ob key w \<and> (b \<longrightarrow> \<not> unlocked ob key w') \<and>
    (\<forall>k. k \<noteq> key \<longrightarrow> obs_string ob (w_redis w') k = obs_string ob (w_redis w) k) \<and>
    active ob w' = active ob w \<and> obs_count ob (w_redis w') = obs_count ob (w_redis w) \<and>
    same_lists_streams ob w w' \<and> w_db w' = w_db w"
proof -
  obtain r w1 where one: "redis_do R (SETNX key ''locked'' ttl) w = (r, w1)" by fastforce
  with assms obtain y where y: "r = Inr y" by (cases r) (auto simp: TryLock_def)
  with one assms show ?thesis
    by (auto simp: TryLock_def redis_do_def unlocked_def key_free_def active_def same_lists_streams_def same_lists_def
        split: prod.splits if_splits dest!: setnx_ok)
qed

lemma xadd_batch_ok:
  assumes "XAddCognitiveBatch R t p w = (None, w')"
    "length (obs_stream ob (w_redis w) (t @ '':stream:cognitive'')) < 10000"
  shows "obs_stream ob (w_redis w') = (obs_stream ob (w_redis w))(t @ '':stream:cognitive'' :=
      obs_stream ob (w_redis w) (t @ '':stream:cognitive'') @ [[(''payload'', p), (''retries'', Text ''0'')]]) \<and>
    obs_count ob (w_redis w') = obs_count ob (w_redis w) \<and> active ob w' = active ob w \<and>
    obs_string ob (w_redis w') = obs_string ob (w_redis w) \<and> w_db w' = w_db w"
  using assms
  by (auto simp: XAddCognitiveBatch_def redis_do_def active_def err_of_None split: prod.splits dest!: xadd_ok)

end

section \<open>Reading the list back\<close>

lemma anchor_loop_append:
  "anchor_loop cod a (xs @ ys) all_msgs i =
     (case anchor_loop cod a xs all_msgs i of (all', i') \<Rightarrow> anchor_loop cod a ys all' i')"
  by (induction xs arbitrary: all_msgs i) (auto split: prod.splits bool.splits)

text \<open>The cache on a server that follows the laws, with a codec that round-trips.\<close>

locale cache_store = redis_store R ob + go_codec cod
  for R :: "'r redis" and ob :: "'r observers" and cod :: codec
begin

lemma decode_marshal [simp]: "storable m \<Longrightarrow> decode_message cod (marshal_message cod m) = (False, m)"
  by (simp add: decode_message_def marshal_message_def unmarshal_message_json)

lemma decode_all:
  "list_all storable ms \<Longrightarrow> map (\<lambda>v. snd (decode_message cod v)) (map (marshal_message cod) ms) = ms"
  by (induction ms) auto

lemma raw_read:
  assumes "GetRawMessages R cod t s n w = (Inr ms, w')"
    "cached ob t s w = map (marshal_message cod) xs" "xs \<noteq> []" "list_all storable xs" "0 < n"
  shows "ms = take (nat n) xs"
proof -
  obtain r w1 where one: "redis_do R (LRANGE (msgs_key t s) 0 (n - 1)) w = (r, w1)" by fastforce
  with assms(1) obtain y where y: "r = Inr y"
    by (cases r) (auto simp: GetRawMessages_def Let_def split: prod.splits)
  have v: "as_list r = Inr (map (marshal_message cod) (take (nat n) xs))"
    using do_lrange [OF one [unfolded y]] assms(2,5) y
    by (auto simp: cached_def redis_range_prefix take_map)
  have ne: "take (nat n) xs \<noteq> []" using assms(3,5) by simp
  have "list_all storable (take (nat n) xs)"
    using assms(4) by (auto simp: list_all_iff dest: in_set_takeD)
  with ne one v assms(1) show ?thesis
    by (simp add: GetRawMessages_def Let_def decode_all del: map_map)
qed

lemma raw_miss:
  assumes "GetRawMessages R cod t s n w = (Inr ms, w')" "cached ob t s w = []"
  shows "fst (GetSessionHistory cod t s n [] (w_db w)) = Inr ms"
proof -
  obtain r w1 where one: "redis_do R (LRANGE (msgs_key t s) 0 (n - 1)) w = (r, w1)" by fastforce
  with assms(1) obtain y where y: "r = Inr y"
    by (cases r) (auto simp: GetRawMessages_def Let_def split: prod.splits)
  have "as_list r = Inr []" "w_db w1 = w_db w"
    using do_lrange [OF one [unfolded y]] assms(2) y by (auto simp: cached_def redis_range_def)
  with one assms(1) show ?thesis
    by (auto simp: GetRawMessages_def Let_def on_db_def split: prod.splits)
qed

lemma anchor_loop_skip:
  "list_all storable ms \<Longrightarrow> \<forall>m \<in> set ms. uuid_String cod (msg_ID m) \<noteq> a \<Longrightarrow>
     anchor_loop cod a (map (marshal_message cod) ms) all_msgs i = (all_msgs @ ms, i)"
  by (induction ms arbitrary: all_msgs) auto

lemma anchor_loop_collect:
  "list_all storable ms \<Longrightarrow> fst (anchor_loop cod a (map (marshal_message cod) ms) all_msgs i) = all_msgs @ ms"
  by (induction ms arbitrary: all_msgs i) auto

lemma anchor_loop_found:
  assumes "list_all storable (newer @ m # older)" "msg_ID m \<notin> msg_ID ` set older"
  shows "anchor_loop cod (uuid_String cod (msg_ID m)) (map (marshal_message cod) (newer @ m # older)) [] None =
    (newer @ m # older, Some (length newer))"
proof -
  let ?a = "uuid_String cod (msg_ID m)"
  obtain i where i: "anchor_loop cod ?a (map (marshal_message cod) newer) [] None = (newer, i)"
    using anchor_loop_collect [of newer ?a "[]" None] assms(1) by (auto simp: prod_eq_iff)
  have "\<forall>x \<in> set older. uuid_String cod (msg_ID x) \<noteq> ?a"
    using assms(2) by (metis uuid_String_inject imageI)
  then have skip: "anchor_loop cod ?a (map (marshal_message cod) older) (newer @ [m]) (Some (length newer)) =
      (newer @ m # older, Some (length newer))"
    using anchor_loop_skip [of older ?a "newer @ [m]" "Some (length newer)"] assms(1) by simp
  show ?thesis using assms(1) skip by (simp add: anchor_loop_append i)
qed

lemma until_read:
  assumes "GetRawMessagesUntil R cod t s (uuid_String cod (msg_ID m)) n w = (r, w')" "is_ok r"
    "cached ob t s w = map (marshal_message cod) (newer @ m # older)"
    "length (newer @ m # older) \<le> 50" "list_all storable (newer @ m # older)"
    "msg_ID m \<notin> msg_ID ` set older" "0 \<le> n"
  shows "r = Inr (take (nat n) (m # older))"
proof -
  obtain q w1 where one: "redis_do R (LRANGE (msgs_key t s) 0 49) w = (q, w1)" by fastforce
  have ne: "uuid_String cod (msg_ID m) \<noteq> []" by simp
  obtain y where y: "q = Inr y"
    using one assms(1,2) ne by (cases q) (auto simp: GetRawMessagesUntil_def Let_def)
  have v: "as_list q = Inr (map (marshal_message cod) (newer @ m # older))"
    using do_lrange [OF one [unfolded y]] assms(3,4) y by (auto simp: cached_def)
  have res: "r = anchor_window (newer @ m # older) (length newer) n"
    using assms(1) ne one v anchor_loop_found [OF assms(5,6)]
    by (simp add: GetRawMessagesUntil_def Let_def del: map_append list.map)
  show ?thesis
    using assms(7) unfolding res anchor_window_def Let_def
    by (auto simp: nat_le_iff take_all)
qed

end

interpretation memc: cache_store mem_redis mem_observers ref_codec
  by unfold_locales

end
