(* ===== verification/MemoryStore.thy ===== *)
theory MemoryStore
  imports EntityStore
begin

text \<open>
  The memory records of \<^verbatim>\<open>internal/repository/memory.go\<close> (persona traits, life events, their feedback
  and decay) and the decay worker of \<^verbatim>\<open>internal/worker/decay.go\<close>. What PostgreSQL computes on JSONB
  texts and dates is an argument (\<open>pg_json\<close>). The invariants: importance stays between 0.01 and 1, and
  a user has each persona trait once. What the decay statement does with a rate below 1 and
  with the rate 1 is given by equations.
\<close>

record pg_json =
  jsonb_eq :: "json \<Rightarrow> json \<Rightarrow> bool"
  json_render :: "json \<Rightarrow> string"            \<comment> \<open>the text of a value that is not a string\<close>
  ts_parse :: "string \<Rightarrow> time option"          \<comment> \<open>\<^verbatim>\<open>::timestamptz\<close>; \<open>None\<close> is a failed cast\<close>

section \<open>Statements\<close>

text \<open>\<^verbatim>\<open>payload->>'key'\<close>.\<close>

definition json_text :: "pg_json \<Rightarrow> string \<Rightarrow> json \<Rightarrow> string option" where
  "json_text J key j =
     (case j of
        JObj fs \<Rightarrow>
          (case map_of (rev fs) key of
             None \<Rightarrow> None | Some JNull \<Rightarrow> None | Some (JStr s) \<Rightarrow> Some s | Some v \<Rightarrow> Some (json_render J v))
      | _ \<Rightarrow> None)"

definition memory_types :: "string list" where
  "memory_types = [''rag_chunk'', ''life_event'', ''user_character'', ''persona'', ''persona_context'']"

definition insert_memory_row ::
  "uuid \<Rightarrow> uuid \<Rightarrow> uuid \<Rightarrow> string \<Rightarrow> json \<Rightarrow> rat \<Rightarrow> db \<Rightarrow> uuid res \<times> db" where
  "insert_memory_row t u s ty payload importance d =
     (let (i, d1) = gen_uuid d in
      if i \<in> set (map me_id (db_memories d)) then (Inl (Err ''duplicate key''), d1)
      else if ty \<notin> set memory_types then (Inl (Err ''check constraint''), d1)
      else (Inr i, d1\<lparr>db_memories := db_memories d @
        [\<lparr>me_id = i, me_tenant_id = t, me_user_id = u, me_session_id = Some s, me_type = ty,
          me_payload = payload, me_embedding = None, me_importance = importance, me_access_count = 0,
          me_last_accessed_at = None, me_created_at = db_now d\<rparr>]\<rparr>))"

definition of_type :: "uuid \<Rightarrow> uuid \<Rightarrow> string \<Rightarrow> memory_row \<Rightarrow> bool" where
  "of_type t u ty r \<longleftrightarrow> me_tenant_id r = t \<and> me_user_id r = u \<and> me_type r = ty"

definition scan_memory :: "memory_row \<Rightarrow> memory_record" where
  "scan_memory r =
     \<lparr>mr_ID = me_id r, mr_Type = me_type r, mr_Payload = me_payload r, mr_Importance = me_importance r,
      mr_AccessCount = me_access_count r, mr_LastAccessedAt = zero_time, mr_CreatedAt = me_created_at r\<rparr>"

text \<open>ORDER BY importance DESC, created_at DESC.\<close>

definition important_first :: "memory_row list \<Rightarrow> memory_row list" where
  "important_first rs = order_desc me_importance (order_desc me_created_at rs)"

section \<open>Persona traits\<close>

definition GetPersona ::
  "codec \<Rightarrow> string \<Rightarrow> string \<Rightarrow> int \<Rightarrow> db \<Rightarrow> memory_record list res \<times> db" where
  "GetPersona cod tenantID userID limit =
     pool_query (\<lambda>d. with_uuid cod tenantID (\<lambda>t. with_uuid cod userID (\<lambda>u.
       case sql_limit limit (important_first (filter (of_type t u ''persona'') (db_memories d))) of
         Inl e \<Rightarrow> Inl e | Inr rs \<Rightarrow> Inr (map scan_memory rs))))"

definition has_trait :: "pg_json \<Rightarrow> uuid \<Rightarrow> uuid \<Rightarrow> string \<Rightarrow> memory_row \<Rightarrow> bool" where
  "has_trait J t u trait r \<longleftrightarrow> of_type t u ''persona'' r \<and> json_text J ''trait'' (me_payload r) = Some trait"

text \<open>
  INSERT ... WHERE NOT EXISTS ... RETURNING id: no row when the trait is among the rows the statement
  sees. A statement that runs alone sees all rows; at the isolation level READ COMMITTED one that runs
  beside others misses what they have not committed when it starts, and nothing in the schema stops the
  second insertion.
\<close>

definition insert_trait_seeing ::
  "(memory_row \<Rightarrow> bool) \<Rightarrow> codec \<Rightarrow> pg_json \<Rightarrow> string \<Rightarrow> string \<Rightarrow> string \<Rightarrow> string \<Rightarrow> db \<Rightarrow> uuid res \<times> db" where
  "insert_trait_seeing seen cod J tenantID userID sessionID trait =
     exec_uuid cod tenantID (\<lambda>t. exec_uuid cod userID (\<lambda>u. exec_uuid cod sessionID (\<lambda>s d.
       if list_ex (has_trait J t u trait) (filter seen (db_memories d)) then (Inl (Err ''no rows in result set''), d)
       else insert_memory_row t u s ''persona'' (JObj [(''trait'', jstr trait)]) 1 d)))"

definition insert_trait ::
  "codec \<Rightarrow> pg_json \<Rightarrow> string \<Rightarrow> string \<Rightarrow> string \<Rightarrow> string \<Rightarrow> db \<Rightarrow> uuid res \<times> db" where
  "insert_trait = insert_trait_seeing (\<lambda>_. True)"

lemmas insert_trait_eval = insert_trait_def insert_trait_seeing_def

fun upsert_traits ::
  "codec \<Rightarrow> pg_json \<Rightarrow> string \<Rightarrow> string \<Rightarrow> string \<Rightarrow> string list \<Rightarrow> db \<Rightarrow> string list \<times> db" where
  "upsert_traits cod J tenantID userID sessionID [] d = ([], d)"
| "upsert_traits cod J tenantID userID sessionID (tr # trs) d =
     (let trait = TrimSpace tr in
      if trait = [] then upsert_traits cod J tenantID userID sessionID trs d
      else (case pool_exec (insert_trait cod J tenantID userID sessionID trait) d of
              (Inl _, d1) \<Rightarrow> upsert_traits cod J tenantID userID sessionID trs d1
            | (Inr i, d1) \<Rightarrow>
                (let (ids, d2) = upsert_traits cod J tenantID userID sessionID trs d1
                 in (uuid_String cod i # ids, d2))))"

definition UpsertPersona ::
  "codec \<Rightarrow> pg_json \<Rightarrow> string \<Rightarrow> string \<Rightarrow> string \<Rightarrow> string list \<Rightarrow> db \<Rightarrow> string list res \<times> db" where
  "UpsertPersona cod J tenantID userID sessionID newTraits d =
     apfst Inr (upsert_traits cod J tenantID userID sessionID newTraits d)"

definition UpdatePersonaEmbeddingsBatch ::
  "codec \<Rightarrow> string \<Rightarrow> string list \<Rightarrow> vec list \<Rightarrow> db \<Rightarrow> err option \<times> db" where
  "UpdatePersonaEmbeddingsBatch cod tenantID ids embeddings d =
     (if zip ids embeddings = [] then (None, d)
      else (None, snd (send_batch (map (\<lambda>(i, v). exec_uuid cod i (\<lambda>iu. exec_uuid cod tenantID (\<lambda>t d.
             (Inr (), d\<lparr>db_memories := update_where (\<lambda>r. me_id r = iu \<and> me_tenant_id r = t)
                (\<lambda>r. r\<lparr>me_embedding := Some v\<rparr>) (db_memories d)\<rparr>)))) (zip ids embeddings)) d)))"

section \<open>Life events\<close>

text \<open>\<^verbatim>\<open>NULLIF(payload->>'date', 'unspecified')\<close>, and its cast: \<open>Some None\<close> is NULL.\<close>

definition event_date :: "pg_json \<Rightarrow> memory_row \<Rightarrow> time option option" where
  "event_date J r =
     (case json_text J ''date'' (me_payload r) of
        None \<Rightarrow> Some None
      | Some s \<Rightarrow> if s = ''unspecified'' then Some None else map_option Some (ts_parse J s))"

definition seven_days :: int where
  "seven_days = 7 * 86400 * second"

definition upcoming :: "pg_json \<Rightarrow> db \<Rightarrow> memory_row \<Rightarrow> bool" where
  "upcoming J d r =
     (case event_date J r of Some (Some tm) \<Rightarrow> tm \<ge> db_now d - seven_days | Some None \<Rightarrow> True | None \<Rightarrow> False)"

definition event_distance :: "pg_json \<Rightarrow> db \<Rightarrow> memory_row \<Rightarrow> int" where
  "event_distance J d r =
     \<bar>(case event_date J r of Some (Some tm) \<Rightarrow> tm | _ \<Rightarrow> me_created_at r) - db_now d\<bar>"

text \<open>
  A date that is no timestamp is an error of the execution, which pgx reports when the rows are read; the
  code does not ask for it (\<^verbatim>\<open>rows.Err\<close>) and answers no event at all.
\<close>

definition GetUpcomingEvents ::
  "codec \<Rightarrow> pg_search \<Rightarrow> pg_json \<Rightarrow> string \<Rightarrow> string \<Rightarrow> string \<Rightarrow> int \<Rightarrow> db \<Rightarrow> memory_record list res \<times> db" where
  "GetUpcomingEvents cod P J tenantID userID query limit =
     pool_query (\<lambda>d. with_uuid cod tenantID (\<lambda>t. with_uuid cod userID (\<lambda>u.
       let rs = filter (of_type t u ''life_event'') (db_memories d) in
       if list_ex (\<lambda>r. event_date J r = None) rs then Inr []
       else (case sql_limit limit
                (order_desc (\<lambda>r. if query = [] then 0
                     else fts_rank P (case json_text J ''event_name'' (me_payload r) of None \<Rightarrow> [] | Some s \<Rightarrow> s) query)
                   (sort_key (event_distance J d) (filter (upcoming J d) rs))) of
               Inl e \<Rightarrow> Inl e | Inr es \<Rightarrow> Inr (map scan_memory es)))))"

text \<open>INSERT ... WHERE NOT EXISTS for events; \<open>seen\<close> as for the traits.\<close>

definition insert_event_seeing ::
  "(memory_row \<Rightarrow> bool) \<Rightarrow> codec \<Rightarrow> pg_json \<Rightarrow> string \<Rightarrow> string \<Rightarrow> string \<Rightarrow> json \<Rightarrow> db \<Rightarrow> unit res \<times> db" where
  "insert_event_seeing seen cod J tenantID userID sessionID payload =
     exec_uuid cod tenantID (\<lambda>t. exec_uuid cod userID (\<lambda>u. exec_uuid cod sessionID (\<lambda>s d.
       if list_ex (\<lambda>r. of_type t u ''life_event'' r \<and> jsonb_eq J (me_payload r) payload) (filter seen (db_memories d))
       then (Inr (), d)
       else (case insert_memory_row t u s ''life_event'' payload (8 / 10) d of
               (Inl e, d1) \<Rightarrow> (Inl e, d1) | (Inr _, d1) \<Rightarrow> (Inr (), d1)))))"

definition insert_event_once ::
  "codec \<Rightarrow> pg_json \<Rightarrow> string \<Rightarrow> string \<Rightarrow> string \<Rightarrow> json \<Rightarrow> db \<Rightarrow> unit res \<times> db" where
  "insert_event_once = insert_event_seeing (\<lambda>_. True)"

lemmas insert_event_eval = insert_event_once_def insert_event_seeing_def

definition UpsertEvent ::
  "codec \<Rightarrow> pg_json \<Rightarrow> string \<Rightarrow> string \<Rightarrow> string \<Rightarrow> json \<Rightarrow> db \<Rightarrow> err option \<times> db" where
  "UpsertEvent cod J tenantID userID sessionID payload d =
     apfst err_of (pool_exec (insert_event_once cod J tenantID userID sessionID payload) d)"

definition UpsertEventBatch ::
  "codec \<Rightarrow> pg_json \<Rightarrow> string \<Rightarrow> string \<Rightarrow> string \<Rightarrow> json list \<Rightarrow> db \<Rightarrow> err option \<times> db" where
  "UpsertEventBatch cod J tenantID userID sessionID payloads d =
     (None, snd (send_batch (map (insert_event_once cod J tenantID userID sessionID) payloads) d))"

definition InsertEvent ::
  "codec \<Rightarrow> string \<Rightarrow> string \<Rightarrow> string \<Rightarrow> json \<Rightarrow> db \<Rightarrow> err option \<times> db" where
  "InsertEvent cod tenantID userID sessionID payload d =
     apfst err_of (pool_exec (exec_uuid cod tenantID (\<lambda>t. exec_uuid cod userID (\<lambda>u. exec_uuid cod sessionID (\<lambda>s.
       insert_memory_row t u s ''life_event'' payload (8 / 10))))) d)"

section \<open>Search, feedback and decay\<close>

definition memoryFallback ::
  "codec \<Rightarrow> string \<Rightarrow> string \<Rightarrow> string \<Rightarrow> int \<Rightarrow> db \<Rightarrow> memory_record list res \<times> db" where
  "memoryFallback cod tenantID userID memType limit =
     pool_query (\<lambda>d. with_uuid cod tenantID (\<lambda>t. with_uuid cod userID (\<lambda>u.
       case sql_limit limit (important_first (filter (of_type t u memType) (db_memories d))) of
         Inl e \<Rightarrow> Inl e | Inr rs \<Rightarrow> Inr (map scan_memory rs))))"

definition nearest_memories :: "pg_search \<Rightarrow> vec \<Rightarrow> memory_row list \<Rightarrow> memory_row list" where
  "nearest_memories P v rs = sort_key (\<lambda>r. case me_embedding r of None \<Rightarrow> 0 | Some w \<Rightarrow> vec_dist P w v)
     (filter (\<lambda>r. me_embedding r \<noteq> None) rs)"

text \<open>The cold-start loop over the requested types; a type whose query fails is left out.\<close>

fun fallback_types ::
  "codec \<Rightarrow> string \<Rightarrow> string \<Rightarrow> int \<Rightarrow> string list \<Rightarrow> db \<Rightarrow> (string \<rightharpoonup> memory_record list) \<Rightarrow>
     (string \<rightharpoonup> memory_record list) \<times> db" where
  "fallback_types cod tenantID userID k [] d m = (m, d)"
| "fallback_types cod tenantID userID k (ty # tys) d m =
     (case memoryFallback cod tenantID userID ty k d of
        (Inl _, d1) \<Rightarrow> fallback_types cod tenantID userID k tys d1 m
      | (Inr fb, d1) \<Rightarrow>
          fallback_types cod tenantID userID k tys d1 (if fb = [] then m else m(ty \<mapsto> fb)))"

definition SearchByVectorPerType ::
  "codec \<Rightarrow> pg_search \<Rightarrow> string \<Rightarrow> string \<Rightarrow> vec \<Rightarrow> string list \<Rightarrow> int \<Rightarrow> db
     \<Rightarrow> (string \<rightharpoonup> memory_record list) res \<times> db" where
  "SearchByVectorPerType cod P tenantID userID embedding types topKPerType d =
     (case pool_query (\<lambda>d. with_uuid cod tenantID (\<lambda>t. with_uuid cod userID (\<lambda>u.
         Inr (\<lambda>ty. if ty \<in> set types
           then (case take (nat topKPerType) (nearest_memories P embedding (filter (of_type t u ty) (db_memories d))) of
                   [] \<Rightarrow> None | rs \<Rightarrow> Some (map scan_memory rs))
           else None)))) d of
        (Inl e, d1) \<Rightarrow> (Inl e, d1)
      | (Inr result, d1) \<Rightarrow>
          if list_all (\<lambda>ty. result ty = None) types
          then apfst Inr (fallback_types cod tenantID userID topKPerType types d1 result)
          else (Inr result, d1))"

definition feedback_importance :: "bool \<Rightarrow> rat \<Rightarrow> rat" where
  "feedback_importance positive importance =
     min 1 (max (1 / 100) (importance + (if positive then 1 / 10 else - (1 / 10))))"

definition RecordFeedback ::
  "codec \<Rightarrow> string \<Rightarrow> string \<Rightarrow> string \<Rightarrow> bool \<Rightarrow> db \<Rightarrow> err option \<times> db" where
  "RecordFeedback cod tenantID userID itemID positive d =
     apfst err_of (pool_exec (exec_uuid cod tenantID (\<lambda>t. exec_uuid cod userID (\<lambda>u. exec_uuid cod itemID (\<lambda>i d.
       (Inr (), d\<lparr>db_memories := update_where
          (\<lambda>r. me_tenant_id r = t \<and> me_user_id r = u \<and> me_id r = i)
          (\<lambda>r. r\<lparr>me_access_count := me_access_count r + 1, me_last_accessed_at := Some (db_now d),
                 me_importance := feedback_importance positive (me_importance r)\<rparr>)
          (db_memories d)\<rparr>))))) d)"

definition decay_types :: "string list" where
  "decay_types = [''life_event'', ''user_character'', ''persona'', ''persona_context'']"

definition stale :: "int \<Rightarrow> time \<Rightarrow> memory_row \<Rightarrow> bool" where
  "stale olderThanDays now r \<longleftrightarrow> me_type r \<in> set decay_types \<and>
     (case me_last_accessed_at r of None \<Rightarrow> True | Some a \<Rightarrow> a < now - olderThanDays * 86400 * second)"

text \<open>
  In \<^verbatim>\<open>1 - $1\<close> the untyped parameter takes the type of the literal, int4, and pgx passes the rate, a
  float64, through Go's conversion to an integer, which drops the fraction.
\<close>

definition int_param :: "rat \<Rightarrow> int" where
  "int_param q = (if 0 \<le> q then \<lfloor>q\<rfloor> else - \<lfloor>- q\<rfloor>)"

definition decayed :: "rat \<Rightarrow> rat \<Rightarrow> rat" where
  "decayed rate importance = max (1 / 100) (importance * of_int (1 - int_param rate))"

definition decay_stmt :: "rat \<Rightarrow> int \<Rightarrow> db \<Rightarrow> int res \<times> db" where
  "decay_stmt rate olderThanDays d =
     (Inr (int (length (filter (stale olderThanDays (db_now d)) (db_memories d)))),
      d\<lparr>db_memories := update_where (stale olderThanDays (db_now d))
          (\<lambda>r. r\<lparr>me_importance := decayed rate (me_importance r)\<rparr>) (db_memories d)\<rparr>)"

text \<open>Begin, SET LOCAL, the update and the commit; a failure of any of them leaves the tables alone.\<close>

definition DecayImportance :: "rat \<Rightarrow> int \<Rightarrow> db \<Rightarrow> int res \<times> db" where
  "DecayImportance rate olderThanDays d =
     (case pool_call d of
        (Some e, d1) \<Rightarrow> (Inl e, d1)
      | (None, d1) \<Rightarrow>
          (case pool_call d1 of
             (Some e, d2) \<Rightarrow> (Inl e, d2)
           | (None, d2) \<Rightarrow>
               (case pool_call d2 of
                  (Some e, d3) \<Rightarrow> (Inl e, d3)
                | (None, d3) \<Rightarrow>
                    (case pool_call d3 of
                       (Some e, d4) \<Rightarrow> (Inl e, d4)
                     | (None, d4) \<Rightarrow> decay_stmt rate olderThanDays d4))))"

record DecayWorker =
  dw_rate :: rat
  dw_ageDays :: int

definition decay :: "DecayWorker \<Rightarrow> db \<Rightarrow> db" where
  "decay w d = snd (DecayImportance (dw_rate w) (dw_ageDays w) d)"

section \<open>Bounds\<close>

definition importance_ok :: "db \<Rightarrow> bool" where
  "importance_ok d \<longleftrightarrow> (\<forall>r \<in> set (db_memories d). 1 / 100 \<le> me_importance r \<and> me_importance r \<le> 1)"

lemma importance_ok_tables: "same_tables d d' \<Longrightarrow> importance_ok d \<Longrightarrow> importance_ok d'"
  by (simp add: importance_ok_def same_tables_def)

interpretation importance: table_invariant importance_ok
  by unfold_locales (rule importance_ok_tables)

lemma insert_memory_row_importance:
  assumes "insert_memory_row t u s ty p im d = (r, d')" "1 / 100 \<le> im" "im \<le> 1" "importance_ok d"
  shows "importance_ok d'"
  using assms by (auto simp: insert_memory_row_def gen_uuid_def importance_ok_def split: if_splits)

lemma exec_uuid_keeps:
  assumes "\<And>u d r d'. k u d = (r, d') \<Longrightarrow> P d \<Longrightarrow> P d'"
  shows "exec_uuid cod s k d = (r, d') \<Longrightarrow> P d \<Longrightarrow> P d'"
  using assms by (auto simp: exec_uuid_def split: option.splits)

lemma insert_trait_seeing_importance:
  assumes "insert_trait_seeing seen cod J t u s tr d = (r, d')" "importance_ok d"
  shows "importance_ok d'"
  using assms unfolding insert_trait_seeing_def
  by (elim exec_uuid_keeps [where P = importance_ok, rotated -2])
    (auto split: if_splits dest: insert_memory_row_importance)

lemma insert_trait_importance:
  "insert_trait cod J t u s tr d = (r, d') \<Longrightarrow> importance_ok d \<Longrightarrow> importance_ok d'"
  unfolding insert_trait_def by (rule insert_trait_seeing_importance)

lemma upsert_traits_importance:
  "upsert_traits cod J t u s trs d = (ids, d') \<Longrightarrow> importance_ok d \<Longrightarrow> importance_ok d'"
proof (induction trs arbitrary: d ids)
  case (Cons tr trs)
  show ?case
  proof (cases "TrimSpace tr = []")
    case True
    with Cons show ?thesis by (auto simp: Let_def)
  next
    case False
    obtain q d1 where one: "pool_exec (insert_trait cod J t u s (TrimSpace tr)) d = (q, d1)" by fastforce
    have "importance_ok d1"
      by (rule importance.exec_keeps [OF _ one Cons.prems(2)]) (rule insert_trait_importance)
    with False one Cons show ?thesis
      by (cases q; cases "upsert_traits cod J t u s trs d1") (auto simp: Let_def)
  qed
qed simp

lemma UpsertPersona_importance [inv_intros]:
  "UpsertPersona cod J t u s trs d = (r, d') \<Longrightarrow> importance_ok d \<Longrightarrow> importance_ok d'"
  by (cases "upsert_traits cod J t u s trs d") (auto simp: UpsertPersona_def dest: upsert_traits_importance)

lemma insert_event_seeing_importance:
  assumes "insert_event_seeing seen cod J t u s p d = (r, d')" "importance_ok d"
  shows "importance_ok d'"
  using assms unfolding insert_event_seeing_def
  by (elim exec_uuid_keeps [where P = importance_ok, rotated -2])
    (auto split: if_splits prod.splits sum.splits dest!: insert_memory_row_importance)

lemma insert_event_importance:
  "insert_event_once cod J t u s p d = (r, d') \<Longrightarrow> importance_ok d \<Longrightarrow> importance_ok d'"
  unfolding insert_event_once_def by (rule insert_event_seeing_importance)

lemma UpsertEvent_importance [inv_intros]:
  "UpsertEvent cod J t u s p d = (r, d') \<Longrightarrow> importance_ok d \<Longrightarrow> importance_ok d'"
  by (auto simp: UpsertEvent_def apfst_def map_prod_def split: prod.splits
      intro: importance.exec_keeps [OF insert_event_importance])

lemma UpsertEventBatch_importance [inv_intros]:
  assumes "UpsertEventBatch cod J t u s ps d = (r, d')" "importance_ok d"
  shows "importance_ok d'"
proof -
  let ?qs = "map (insert_event_once cod J t u s) ps"
  obtain q d1 where one: "send_batch ?qs d = (q, d1)" by fastforce
  have "importance_ok d1"
  proof (rule importance.batch_keeps [OF _ one assms(2)])
    fix q a r b
    assume "q \<in> set ?qs" "q a = (r, b)" "importance_ok a"
    then show "importance_ok b" by (auto intro: insert_event_importance)
  qed
  with assms(1) one show ?thesis by (simp add: UpsertEventBatch_def)
qed

lemma feedback_bounds: "1 / 100 \<le> feedback_importance p x \<and> feedback_importance p x \<le> 1"
  unfolding feedback_importance_def by (simp add: min_def max_def)

lemma feedback_bounds' [simp]: "1 \<le> feedback_importance p x * 100" "feedback_importance p x \<le> 1"
  using feedback_bounds [of p x] by simp_all

lemma RecordFeedback_importance [inv_intros]:
  assumes "RecordFeedback cod t u i p d = (r, d')" "importance_ok d"
  shows "importance_ok d'"
proof -
  let ?q = "exec_uuid cod t (\<lambda>t. exec_uuid cod u (\<lambda>u. exec_uuid cod i (\<lambda>i d.
       (Inr () :: unit res, d\<lparr>db_memories := update_where
          (\<lambda>r. me_tenant_id r = t \<and> me_user_id r = u \<and> me_id r = i)
          (\<lambda>r. r\<lparr>me_access_count := me_access_count r + 1, me_last_accessed_at := Some (db_now d),
                 me_importance := feedback_importance p (me_importance r)\<rparr>)
          (db_memories d)\<rparr>))))"
  obtain q d1 where one: "pool_exec ?q d = (q, d1)" by fastforce
  have "importance_ok d1"
  proof (rule importance.exec_keeps [OF _ one assms(2)])
    fix a r b assume "?q a = (r, b)" "importance_ok a"
    then show "importance_ok b"
      by (auto simp: exec_uuid_def importance_ok_def set_update_where
          split: option.splits if_splits)
  qed
  with assms(1) one show ?thesis by (simp add: RecordFeedback_def)
qed

lemma int_param_bounds: "0 \<le> q \<Longrightarrow> 0 \<le> int_param q" "q < 1 \<Longrightarrow> 0 \<le> q \<Longrightarrow> int_param q = 0" "int_param 1 = 1"
  by (auto simp: int_param_def floor_unique)

lemma decayed_bounds:
  assumes "0 \<le> rate" "0 \<le> x" "x \<le> 1"
  shows "1 / 100 \<le> decayed rate x \<and> decayed rate x \<le> 1"
proof -
  have "x * of_int (1 - int_param rate) \<le> x * 1"
    using assms(2) int_param_bounds(1) [OF assms(1)] by (intro mult_left_mono) simp_all
  with assms(3) show ?thesis by (simp add: decayed_def)
qed

lemma decay_stmt_importance:
  assumes "decay_stmt rate days d = (r, d')" "0 \<le> rate" "importance_ok d"
  shows "importance_ok d'"
proof -
  have "1 / 100 \<le> me_importance r \<and> me_importance r \<le> 1 \<Longrightarrow>
      1 / 100 \<le> decayed rate (me_importance r) \<and> decayed rate (me_importance r) \<le> 1" for r :: memory_row
    using decayed_bounds [OF assms(2), of "me_importance r"] by simp
  with assms show ?thesis
    by (auto simp: decay_stmt_def importance_ok_def set_update_where split: if_splits)
qed

text \<open>A run of the transaction either leaves the tables alone or is the update.\<close>

lemma DecayImportance_cases:
  assumes "DecayImportance rate days d = (r, d')"
  shows "(\<exists>e. r = Inl e) \<and> same_tables d d' \<or> (\<exists>d4. same_tables d d4 \<and> decay_stmt rate days d4 = (r, d'))"
  using assms unfolding DecayImportance_def
  by (auto split: prod.splits option.splits dest!: pool_call_tables) (metis same_tables_trans)+

lemma DecayImportance_importance [inv_intros]:
  assumes "DecayImportance rate days d = (r, d')" "0 \<le> rate" "importance_ok d"
  shows "importance_ok d'"
  using DecayImportance_cases [OF assms(1)] decay_stmt_importance assms(2,3) importance_ok_tables by metis

section \<open>What the decay does\<close>

text \<open>A rate below 1 is no rate at all; the rate 1 takes every importance to the floor.\<close>

lemma decayed_fraction: "0 \<le> rate \<Longrightarrow> rate < 1 \<Longrightarrow> decayed rate x = max (1 / 100) x"
  by (simp add: decayed_def int_param_bounds)

lemma decayed_one: "decayed 1 x = 1 / 100"
  by (simp add: decayed_def int_param_bounds)

lemma decayed_iterate: "0 \<le> rate \<Longrightarrow> rate < 1 \<Longrightarrow> ((decayed rate) ^^ Suc n) x = max (1 / 100) x"
  by (induction n) (simp_all add: decayed_fraction)

lemma decayed_one_iterate: "((decayed 1) ^^ Suc n) x = 1 / 100"
  by (simp add: decayed_one)

section \<open>Persona traits are kept once\<close>

definition persona_key :: "pg_json \<Rightarrow> memory_row \<Rightarrow> uuid \<times> uuid \<times> string option" where
  "persona_key J r = (me_tenant_id r, me_user_id r, json_text J ''trait'' (me_payload r))"

definition traits_distinct :: "pg_json \<Rightarrow> db \<Rightarrow> bool" where
  "traits_distinct J d \<longleftrightarrow> distinct (map (persona_key J) (filter (\<lambda>r. me_type r = ''persona'') (db_memories d)))"

lemma traits_distinct_tables: "same_tables d d' \<Longrightarrow> traits_distinct J d \<Longrightarrow> traits_distinct J d'"
  by (simp add: traits_distinct_def same_tables_def)

interpretation traits: table_invariant "traits_distinct J" for J
  by unfold_locales (rule traits_distinct_tables)

lemma json_text_trait [simp]: "json_text J ''trait'' (JObj [(''trait'', JStr tr)]) = Some tr"
  by (simp add: json_text_def)

text \<open>The rows a run of the loop adds: one per identifier it returns, each a new trait of the input.\<close>

definition trait_row :: "uuid \<Rightarrow> uuid \<Rightarrow> string list \<Rightarrow> memory_row \<Rightarrow> bool" where
  "trait_row t u traits r \<longleftrightarrow> of_type t u ''persona'' r \<and> me_importance r = 1 \<and> me_embedding r = None \<and>
     list_ex (\<lambda>tr. TrimSpace tr \<noteq> [] \<and> me_payload r = JObj [(''trait'', jstr (TrimSpace tr))]) traits"

lemma insert_trait_cases:
  assumes "insert_trait cod J tid uid sid tr d = (q, d')"
  shows "(\<exists>e. q = Inl e) \<and> same_tables d d' \<or>
    (\<exists>t u i row. pg_uuid cod tid = Some t \<and> pg_uuid cod uid = Some u \<and> q = Inr i \<and> me_id row = i \<and>
      of_type t u ''persona'' row \<and> me_importance row = 1 \<and> me_embedding row = None \<and>
      me_payload row = JObj [(''trait'', jstr tr)] \<and>
      \<not> list_ex (has_trait J t u tr) (db_memories d) \<and> db_memories d' = db_memories d @ [row])"
  using assms
  by (auto simp: insert_trait_eval exec_uuid_def insert_memory_row_def gen_uuid_def same_tables_def of_type_def
      Let_def split: option.splits if_splits)

lemma pool_exec_cases:
  assumes "pool_exec f d = (q, d')"
  shows "(\<exists>e. q = Inl e) \<and> same_tables d d' \<or> (\<exists>d1. same_tables d d1 \<and> f d1 = (q, d'))"
  using assms by (auto simp: pool_exec_def split: prod.splits option.splits dest!: pool_call_tables)

lemma upsert_traits_rows:
  assumes "pg_uuid cod tid = Some t" "pg_uuid cod uid = Some u"
  shows "upsert_traits cod J tid uid sid trs d = (ids, d') \<Longrightarrow>
    \<exists>new. db_memories d' = db_memories d @ new \<and> map (\<lambda>r. uuid_String cod (me_id r)) new = ids \<and>
      list_all (trait_row t u trs) new"
proof (induction trs arbitrary: d ids d')
  case (Cons tr trs)
  have weak: "trait_row t u trs r \<Longrightarrow> trait_row t u (tr # trs) r" for r
    by (auto simp: trait_row_def)
  show ?case
  proof (cases "TrimSpace tr = []")
    case True
    with Cons.IH [of d ids] Cons.prems weak show ?thesis by (auto simp: list_all_iff)
  next
    case False
    obtain q d1 where one: "pool_exec (insert_trait cod J tid uid sid (TrimSpace tr)) d = (q, d1)" by fastforce
    obtain ids2 d2 where two: "upsert_traits cod J tid uid sid trs d1 = (ids2, d2)" by fastforce
    obtain new where new: "db_memories d2 = db_memories d1 @ new"
      "map (\<lambda>r. uuid_String cod (me_id r)) new = ids2" "list_all (trait_row t u trs) new"
      using Cons.IH [OF two] by blast
    have d': "d' = d2" using Cons.prems False one two by (auto split: sum.splits)
    show ?thesis
    proof (cases q)
      case (Inl e)
      then have "ids = ids2" "db_memories d1 = db_memories d"
        using Cons.prems False one two pool_exec_cases [OF one]
        by (auto simp: same_tables_def dest!: insert_trait_cases)
      with new d' weak show ?thesis by (auto simp: list_all_iff)
    next
      case (Inr i)
      then have ids: "ids = uuid_String cod i # ids2" using Cons.prems False one two by auto
      from pool_exec_cases [OF one] Inr obtain d0 where d0: "same_tables d d0"
        "insert_trait cod J tid uid sid (TrimSpace tr) d0 = (Inr i, d1)" by auto
      then obtain row where row: "me_id row = i" "of_type t u ''persona'' row" "me_importance row = 1"
        "me_embedding row = None" "me_payload row = JObj [(''trait'', jstr (TrimSpace tr))]"
        "db_memories d1 = db_memories d @ [row]"
        using insert_trait_cases [OF d0(2)] assms by (auto simp: same_tables_def)
      then have "trait_row t u (tr # trs) row" using False by (simp add: trait_row_def)
      then have "list_all (trait_row t u (tr # trs)) (row # new)"
        using new(3) weak by (auto simp: list_all_iff)
      then show ?thesis
        using new row(1,6) ids d' by (intro exI [of _ "row # new"]) simp
    qed
  qed
qed simp

lemma insert_trait_distinct:
  assumes "insert_trait cod J tid uid sid tr d = (q, d')" "valid_utf8 tr" "traits_distinct J d"
  shows "traits_distinct J d'"
  using insert_trait_cases [OF assms(1)]
proof (elim disjE conjE exE)
  assume "same_tables d d'"
  then show ?thesis using assms(3) by (rule traits_distinct_tables)
next
  fix t u i row
  assume a: "of_type t u ''persona'' row" "me_payload row = JObj [(''trait'', jstr tr)]"
    "\<not> list_ex (has_trait J t u tr) (db_memories d)" "db_memories d' = db_memories d @ [row]"
  have "persona_key J row \<notin> persona_key J ` set (filter (\<lambda>r. me_type r = ''persona'') (db_memories d))"
    using a(1-3) assms(2) by (auto simp: persona_key_def has_trait_def of_type_def list_ex_iff)
  with a(1,4) assms(3) show ?thesis by (simp add: traits_distinct_def of_type_def)
qed

lemma upsert_traits_distinct:
  "upsert_traits cod J tid uid sid trs d = (ids, d') \<Longrightarrow> list_all (\<lambda>tr. valid_utf8 (TrimSpace tr)) trs \<Longrightarrow>
     traits_distinct J d \<Longrightarrow> traits_distinct J d'"
proof (induction trs arbitrary: d ids d')
  case (Cons tr trs)
  show ?case
  proof (cases "TrimSpace tr = []")
    case True
    with Cons show ?thesis by (auto simp: Let_def)
  next
    case False
    obtain q d1 where one: "pool_exec (insert_trait cod J tid uid sid (TrimSpace tr)) d = (q, d1)" by fastforce
    obtain ids2 d2 where two: "upsert_traits cod J tid uid sid trs d1 = (ids2, d2)" by fastforce
    have "traits_distinct J d1"
      by (rule traits.exec_keeps [OF _ one Cons.prems(3)])
        (rule insert_trait_distinct, assumption, use Cons.prems(2) in simp, assumption)
    moreover have "d' = d2" using Cons.prems(1) False one two by (auto split: sum.splits)
    ultimately show ?thesis using Cons.IH [OF two] Cons.prems(2) by simp
  qed
qed simp

end
