(* ===== verification/ExperienceStore.thy ===== *)
theory ExperienceStore
  imports MemoryStore
begin

text \<open>
  Learned experiences: \<^verbatim>\<open>internal/repository/experience.go\<close>. An experience is inserted or merged into a
  similar one, searched by vector, and rated by the host application. The invariant bounds the
  confidence and the counters; the effect of a sequence of negative signals is computed exactly.
\<close>

definition of_experience_user :: "uuid \<Rightarrow> uuid \<Rightarrow> experience_row \<Rightarrow> bool" where
  "of_experience_user t u r \<longleftrightarrow> ex_tenant_id r = t \<and> ex_user_id r = u"

definition scan_experience :: "experience_row \<Rightarrow> experience" where
  "scan_experience r =
     \<lparr>exp_ID = ex_id r, exp_TenantID = ex_tenant_id r, exp_UserID = ex_user_id r,
      exp_Description = ex_description r, exp_Steps = ex_steps r,
      exp_SourceSessionID = ex_source_session_id r, exp_Confidence = ex_confidence r,
      exp_UsageCount = ex_usage_count r, exp_SuccessCount = ex_success_count r,
      exp_IsActive = ex_is_active r, exp_CreatedAt = ex_created_at r, exp_UpdatedAt = ex_updated_at r\<rparr>"

text \<open>The merge into an existing row, and the insertion of a new one.\<close>

definition merge_experience_stmt ::
  "codec \<Rightarrow> string \<Rightarrow> uuid \<Rightarrow> uuid \<Rightarrow> string \<Rightarrow> string list \<Rightarrow> vec \<Rightarrow> uuid \<Rightarrow> db \<Rightarrow> unit res \<times> db" where
  "merge_experience_stmt cod tenantID sessionID messageID description steps embedding similarID =
     exec_uuid cod tenantID (\<lambda>t d.
       (Inr (), d\<lparr>db_experiences := update_where
          (\<lambda>r. ex_id r = similarID \<and> ex_tenant_id r = t)
          (\<lambda>r. r\<lparr>ex_description := description, ex_steps := JArr (map jstr steps),
                 ex_trigger_embedding := Some embedding, ex_source_session_id := Some sessionID,
                 ex_source_message_ids := ex_source_message_ids r @ [messageID],
                 ex_confidence := min 1 (ex_confidence r + 5 / 100), ex_updated_at := db_now d\<rparr>)
          (db_experiences d)\<rparr>))"

definition insert_experience_stmt ::
  "codec \<Rightarrow> string \<Rightarrow> string \<Rightarrow> uuid \<Rightarrow> uuid \<Rightarrow> string \<Rightarrow> string list \<Rightarrow> vec \<Rightarrow> db \<Rightarrow> unit res \<times> db" where
  "insert_experience_stmt cod tenantID userID sessionID messageID description steps embedding =
     exec_uuid cod tenantID (\<lambda>t. exec_uuid cod userID (\<lambda>u d.
       let (i, d1) = gen_uuid d in
       if i \<in> set (map ex_id (db_experiences d)) then (Inl (Err ''duplicate key''), d1)
       else (Inr (), d1\<lparr>db_experiences := db_experiences d @
         [\<lparr>ex_id = i, ex_tenant_id = t, ex_user_id = u, ex_description = description,
           ex_trigger_embedding = Some embedding, ex_steps = JArr (map jstr steps),
           ex_source_session_id = Some sessionID, ex_source_message_ids = [messageID],
           ex_confidence = 1 / 2, ex_usage_count = 0, ex_success_count = 0, ex_is_active = True,
           ex_created_at = db_now d, ex_updated_at = db_now d\<rparr>]\<rparr>)))"

definition UpsertExperience ::
  "codec \<Rightarrow> string \<Rightarrow> string \<Rightarrow> uuid \<Rightarrow> uuid \<Rightarrow> string \<Rightarrow> string list \<Rightarrow> vec \<Rightarrow> uuid option \<Rightarrow> db
     \<Rightarrow> err option \<times> db" where
  "UpsertExperience cod tenantID userID sessionID messageID description steps embedding similarID d =
     (case similarID of
        Some i \<Rightarrow> apfst err_of (pool_exec
          (merge_experience_stmt cod tenantID sessionID messageID description steps embedding i) d)
      | None \<Rightarrow> apfst err_of (pool_exec
          (insert_experience_stmt cod tenantID userID sessionID messageID description steps embedding) d))"

definition nearest_experiences :: "pg_search \<Rightarrow> vec \<Rightarrow> experience_row list \<Rightarrow> experience_row list" where
  "nearest_experiences P v rs =
     sort_key (\<lambda>r. case ex_trigger_embedding r of None \<Rightarrow> 0 | Some w \<Rightarrow> vec_dist P w v)
       (filter (\<lambda>r. ex_trigger_embedding r \<noteq> None) rs)"

text \<open>The best match and its similarity; any failure is no match.\<close>

definition SearchSimilar ::
  "codec \<Rightarrow> pg_search \<Rightarrow> string \<Rightarrow> string \<Rightarrow> vec \<Rightarrow> rat \<Rightarrow> db \<Rightarrow> (experience option \<times> rat) \<times> db" where
  "SearchSimilar cod P tenantID userID embedding threshold d =
     (case pool_query (\<lambda>d. with_uuid cod tenantID (\<lambda>t. with_uuid cod userID (\<lambda>u.
         case nearest_experiences P embedding
                (filter (\<lambda>r. of_experience_user t u r \<and> ex_is_active r) (db_experiences d)) of
           [] \<Rightarrow> Inl (Err ''no rows in result set'')
         | r # _ \<Rightarrow> Inr (scan_experience r,
             1 - (case ex_trigger_embedding r of None \<Rightarrow> 0 | Some w \<Rightarrow> vec_dist P w embedding))))) d of
        (Inl _, d1) \<Rightarrow> ((None, 0), d1)
      | (Inr (e, sim), d1) \<Rightarrow> (if sim < threshold then (None, sim) else (Some e, sim), d1))"

definition ExperienceSearchByVector ::
  "codec \<Rightarrow> pg_search \<Rightarrow> string \<Rightarrow> string \<Rightarrow> vec \<Rightarrow> int \<Rightarrow> rat \<Rightarrow> db \<Rightarrow> experience list res \<times> db" where
  "ExperienceSearchByVector cod P tenantID userID embedding topK minConfidence =
     pool_query (\<lambda>d. with_uuid cod tenantID (\<lambda>t. with_uuid cod userID (\<lambda>u.
       case sql_limit topK (nearest_experiences P embedding
              (filter (\<lambda>r. of_experience_user t u r \<and> ex_is_active r \<and> minConfidence \<le> ex_confidence r)
                (db_experiences d))) of
         Inl e \<Rightarrow> Inl e | Inr rs \<Rightarrow> Inr (map scan_experience rs))))"

definition ListByUser ::
  "codec \<Rightarrow> string \<Rightarrow> string \<Rightarrow> db \<Rightarrow> experience list res \<times> db" where
  "ListByUser cod tenantID userID =
     pool_query (\<lambda>d. with_uuid cod tenantID (\<lambda>t. with_uuid cod userID (\<lambda>u.
       Inr (map scan_experience (order_desc ex_confidence
         (filter (\<lambda>r. of_experience_user t u r \<and> ex_is_active r) (db_experiences d)))))))"

definition RecordUsage :: "codec \<Rightarrow> string \<Rightarrow> string \<Rightarrow> db \<Rightarrow> err option \<times> db" where
  "RecordUsage cod tenantID experienceID d =
     apfst err_of (pool_exec (exec_uuid cod tenantID (\<lambda>t. exec_uuid cod experienceID (\<lambda>i d.
       (Inr (), d\<lparr>db_experiences := update_where (\<lambda>r. ex_tenant_id r = t \<and> ex_id r = i)
          (\<lambda>r. r\<lparr>ex_usage_count := ex_usage_count r + 1, ex_updated_at := db_now d\<rparr>)
          (db_experiences d)\<rparr>)))) d)"

text \<open>The two updates of \<^verbatim>\<open>RecordFeedback\<close>, on one row; LEAST ignores the NULL that NULLIF gives.\<close>

definition positive_feedback :: "time \<Rightarrow> experience_row \<Rightarrow> experience_row" where
  "positive_feedback now r =
     r\<lparr>ex_success_count := ex_success_count r + 1,
       ex_confidence := (if ex_usage_count r + 1 = 0 then 1
         else min 1 (of_int (ex_success_count r + 1) / of_int (ex_usage_count r + 1))),
       ex_updated_at := now\<rparr>"

definition negative_feedback :: "time \<Rightarrow> experience_row \<Rightarrow> experience_row" where
  "negative_feedback now r =
     r\<lparr>ex_confidence := max (1 / 100) (ex_confidence r - 15 / 100),
       ex_is_active := (if ex_confidence r - 15 / 100 < 1 / 10 then False else ex_is_active r),
       ex_updated_at := now\<rparr>"

definition experience_update ::
  "codec \<Rightarrow> string \<Rightarrow> string \<Rightarrow> string \<Rightarrow> (time \<Rightarrow> experience_row \<Rightarrow> experience_row) \<Rightarrow> db \<Rightarrow> unit res \<times> db" where
  "experience_update cod tenantID userID experienceID f =
     exec_uuid cod tenantID (\<lambda>t. exec_uuid cod userID (\<lambda>u. exec_uuid cod experienceID (\<lambda>i d.
       (Inr (), d\<lparr>db_experiences := update_where
          (\<lambda>r. ex_tenant_id r = t \<and> ex_user_id r = u \<and> ex_id r = i) (f (db_now d)) (db_experiences d)\<rparr>))))"

definition ExperienceRecordFeedback ::
  "codec \<Rightarrow> string \<Rightarrow> string \<Rightarrow> string \<Rightarrow> bool \<Rightarrow> db \<Rightarrow> err option \<times> db" where
  "ExperienceRecordFeedback cod tenantID userID experienceID positive d =
     apfst err_of (pool_exec (experience_update cod tenantID userID experienceID
       (if positive then positive_feedback else negative_feedback)) d)"

definition Deactivate :: "codec \<Rightarrow> string \<Rightarrow> string \<Rightarrow> string \<Rightarrow> db \<Rightarrow> err option \<times> db" where
  "Deactivate cod tenantID userID experienceID d =
     apfst err_of (pool_exec (experience_update cod tenantID userID experienceID
       (\<lambda>now r. r\<lparr>ex_is_active := False, ex_updated_at := now\<rparr>)) d)"

section \<open>Bounds\<close>

definition experience_ok :: "experience_row \<Rightarrow> bool" where
  "experience_ok r \<longleftrightarrow> 0 < ex_confidence r \<and> ex_confidence r \<le> 1 \<and> 0 \<le> ex_usage_count r \<and> 0 \<le> ex_success_count r"

definition experiences_ok :: "db \<Rightarrow> bool" where
  "experiences_ok d \<longleftrightarrow> list_all experience_ok (db_experiences d)"

lemma experiences_ok_tables: "same_tables d d' \<Longrightarrow> experiences_ok d \<Longrightarrow> experiences_ok d'"
  by (simp add: experiences_ok_def same_tables_def)

interpretation experiences: table_invariant experiences_ok
  by unfold_locales (rule experiences_ok_tables)

lemma experience_ok_updates [inv_intros]:
  "experience_ok r \<Longrightarrow> experience_ok (positive_feedback now r)"
  "experience_ok r \<Longrightarrow> experience_ok (negative_feedback now r)"
  by (auto simp: experience_ok_def positive_feedback_def negative_feedback_def)

lemma experiences_update_where:
  "experiences_ok d \<Longrightarrow> (\<And>r. experience_ok r \<Longrightarrow> experience_ok (f r)) \<Longrightarrow>
     experiences_ok (d\<lparr>db_experiences := update_where p f (db_experiences d)\<rparr>)"
  by (auto simp: experiences_ok_def list_all_iff set_update_where)

lemma experience_update_ok:
  assumes "experience_update cod t u i f d = (r, d')" "experiences_ok d"
    "\<And>now r. experience_ok r \<Longrightarrow> experience_ok (f now r)"
  shows "experiences_ok d'"
  using assms by (auto simp: experience_update_def exec_uuid_def split: option.splits
      intro: experiences_update_where)

lemma insert_experience_ok:
  "insert_experience_stmt cod t u s m ds st v d = (r, d') \<Longrightarrow> experiences_ok d \<Longrightarrow> experiences_ok d'"
  by (auto simp: insert_experience_stmt_def exec_uuid_def gen_uuid_def Let_def experiences_ok_def
      experience_ok_def split: option.splits if_splits)

lemma merge_experience_ok:
  "merge_experience_stmt cod t s m ds st v i d = (r, d') \<Longrightarrow> experiences_ok d \<Longrightarrow> experiences_ok d'"
  by (auto simp: merge_experience_stmt_def exec_uuid_def split: option.splits
      intro!: experiences_update_where) (auto simp: experience_ok_def)

lemma apfst_err_of: "apfst err_of p = (r, d') \<Longrightarrow> \<exists>q. p = (q, d') \<and> r = err_of q"
  by (cases p) auto

lemma UpsertExperience_ok [inv_intros]:
  "UpsertExperience cod t u s m ds st v sim d = (r, d') \<Longrightarrow> experiences_ok d \<Longrightarrow> experiences_ok d'"
  by (auto simp: UpsertExperience_def split: option.splits dest!: apfst_err_of
      intro: experiences.exec_keeps [OF merge_experience_ok] experiences.exec_keeps [OF insert_experience_ok])

lemma ExperienceRecordFeedback_ok [inv_intros]:
  assumes "ExperienceRecordFeedback cod t u i p d = (r, d')" "experiences_ok d"
  shows "experiences_ok d'"
proof -
  obtain q where "pool_exec (experience_update cod t u i (if p then positive_feedback else negative_feedback)) d = (q, d')"
    using assms(1) by (auto simp: ExperienceRecordFeedback_def dest!: apfst_err_of)
  then show ?thesis
    by (cases p; rule experiences.exec_keeps [rotated])
      (use assms(2) in \<open>auto intro: experience_update_ok inv_intros\<close>)
qed

section \<open>Sequences of negative signals\<close>

text \<open>
  A negative signal takes 0.15 from the confidence; the experience is switched off by the first one
  that would bring it below 0.1.
\<close>

lemma negative_feedback_steps:
  assumes "ex_confidence r - 15 / 100 * of_nat n \<ge> 1 / 10"
  shows "ex_confidence ((negative_feedback now ^^ n) r) = ex_confidence r - 15 / 100 * of_nat n \<and>
    ex_is_active ((negative_feedback now ^^ n) r) = ex_is_active r"
  using assms
proof (induction n)
  case (Suc n)
  then have "ex_confidence r - 15 / 100 * of_nat n \<ge> 1 / 10" by (simp add: field_simps)
  with Suc show ?case by (auto simp: negative_feedback_def max_def field_simps)
qed simp

lemma negative_feedback_off:
  "ex_confidence r < 25 / 100 \<Longrightarrow> \<not> ex_is_active (negative_feedback now r)"
  by (simp add: negative_feedback_def)

end
