(* ===== verification/Retriever.thy ===== *)
theory Retriever
  imports Facts Cache ExperienceStore
begin

text \<open>
  Context retrieval: \<^verbatim>\<open>internal/service/retriever.go\<close>. The tasks of \<^verbatim>\<open>fetchContextParallel\<close> run in
  goroutines; what each backend call answers is collected in a \<open>backend\<close>, so that a task is a function
  of the answers, and the collection of the results is a transition system in which any pending result
  may arrive next and the timeout may end the loop at any time.
\<close>

section \<open>Request and bundle\<close>

record GetContextRequest =
  req_TenantID :: string
  req_UserID :: string
  req_SessionID :: string
  req_Query :: string
  req_MemoryTypes :: "string list"
  req_TimeRange :: "(time option \<times> time option) option"

record ContextBundle =
  cb_SelfFacts :: "entity_fact list"
  cb_RecentMessages :: "message list"
  cb_EntityFacts :: "entity_fact list"
  cb_Persona :: "memory_record list"
  cb_UpcomingEvents :: "memory_record list"
  cb_Experiences :: "experience list"

definition empty_bundle :: ContextBundle where
  "empty_bundle = \<lparr>cb_SelfFacts = [], cb_RecentMessages = [], cb_EntityFacts = [], cb_Persona = [],
     cb_UpcomingEvents = [], cb_Experiences = []\<rparr>"

definition CacheRecentMessagesCount :: int where
  "CacheRecentMessagesCount = 20"

definition DefaultEventsLimit :: int where
  "DefaultEventsLimit = 5"

definition DefaultExperienceTopK :: int where
  "DefaultExperienceTopK = 3"

definition DefaultExperienceMinConf :: rat where
  "DefaultExperienceMinConf = 4 / 10"

definition DefaultTopKPerEntity :: int where
  "DefaultTopKPerEntity = 5"

definition DefaultFallbackFactsTopK :: int where
  "DefaultFallbackFactsTopK = 15"

definition wantsType :: "GetContextRequest \<Rightarrow> string \<Rightarrow> bool" where
  "wantsType req t \<longleftrightarrow> req_MemoryTypes req = [] \<or> t \<in> set (req_MemoryTypes req)"

section \<open>The tasks\<close>

text \<open>The answers of the calls the tasks may make.\<close>

record backend =
  b_Embed :: "vec res"
  b_SearchSelfFacts :: "entity_fact list res"
  b_ResolveEntities :: "string list res"
  b_QueryFactsByVector :: "vec \<Rightarrow> string list \<Rightarrow> entity_fact list res"
  b_QueryFactsByFTS :: "string list \<Rightarrow> entity_fact list res"
  b_SearchAllFactsByVector :: "vec \<Rightarrow> entity_fact list res"
  b_FallbackFacts :: "entity_fact list res"
  b_SearchByVectorPerType :: "vec \<Rightarrow> (string \<rightharpoonup> memory_record list) res"
  b_GetPersona :: "memory_record list res"
  b_GetUpcomingEvents :: "memory_record list res"
  b_SearchExperiences :: "vec \<Rightarrow> experience list res"

text \<open>The shared embedding: \<open>Some v\<close> when it was computed without an error and is not empty.\<close>

definition needsEmbed :: "GetContextRequest \<Rightarrow> bool" where
  "needsEmbed req \<longleftrightarrow> req_Query req \<noteq> [] \<and>
     (wantsType req ''experiences'' \<or> wantsType req ''persona'' \<or> wantsType req ''entity_facts'')"

definition shared_embedding :: "GetContextRequest \<Rightarrow> backend \<Rightarrow> vec res" where
  "shared_embedding req B = (if needsEmbed req then b_Embed B else Inr [])"

definition usable :: "vec res \<Rightarrow> vec option" where
  "usable e = (case e of Inl _ \<Rightarrow> None | Inr v \<Rightarrow> if v = [] then None else Some v)"

datatype fetchResult =
    SelfFacts "entity_fact list" "err option"
  | Entity "entity_fact list" "err option"
  | Structured "memory_record list option" "memory_record list option"
  | Experiences "experience list" "err option"

definition self_facts_task :: "backend \<Rightarrow> fetchResult" where
  "self_facts_task B =
     (case b_SearchSelfFacts B of
        Inl e \<Rightarrow> SelfFacts [] (Some e)
      | Inr facts \<Rightarrow> SelfFacts (filterByConfidence (deduplicateByAttribute facts) EntityFactMinConfidence) None)"

text \<open>Phases 1 and 2: the facts of the entities the query names, and the error left in \<^verbatim>\<open>err\<close>.\<close>

definition entity_phases :: "GetContextRequest \<Rightarrow> backend \<Rightarrow> entity_fact list \<times> err option" where
  "entity_phases req B =
     (if req_Query req = [] then ([], None)
      else (let entityNames = ok_or [] (b_ResolveEntities B) in
        if entityNames = [] then ([], None)
        else (let facts = (case usable (shared_embedding req B) of
                  None \<Rightarrow> [] | Some v \<Rightarrow> ok_or [] (b_QueryFactsByVector B v entityNames)) in
          if facts \<noteq> [] then (facts, None)
          else (case b_QueryFactsByFTS B entityNames of Inl e \<Rightarrow> ([], Some e) | Inr fs \<Rightarrow> (fs, None)))))"

text \<open>The fallbacks, which start from the error of the phases before.\<close>

definition entity_fallback ::
  "GetContextRequest \<Rightarrow> backend \<Rightarrow> entity_fact list \<times> err option \<Rightarrow> entity_fact list \<times> err option" where
  "entity_fallback req B p =
     (let (facts, err) = p in
      if facts \<noteq> [] then (facts, err)
      else (let (facts, err) =
              (if req_Query req = [] then ([], err)
               else (case usable (shared_embedding req B) of
                       None \<Rightarrow> ([], err)
                     | Some v \<Rightarrow> (case b_SearchAllFactsByVector B v of
                                   Inl _ \<Rightarrow> ([], None) | Inr fs \<Rightarrow> (fs, err))))
            in if facts \<noteq> [] then (facts, err)
               else (case b_FallbackFacts B of Inl e \<Rightarrow> ([], Some e) | Inr fs \<Rightarrow> (fs, err))))"

definition entity_task :: "GetContextRequest \<Rightarrow> backend \<Rightarrow> fetchResult" where
  "entity_task req B =
     (let (facts, err) = entity_fallback req B (entity_phases req B) in
      Entity (if err = None
              then truncateFactsToBudget
                (filterByConfidence (deduplicateByAttribute facts) EntityFactMinConfidence) entityFactsCharBudget
              else facts) err)"

definition persona_vector :: "GetContextRequest \<Rightarrow> backend \<Rightarrow> memory_record list option" where
  "persona_vector req B =
     (if req_Query req = [] then None
      else (case usable (shared_embedding req B) of
              None \<Rightarrow> None
            | Some v \<Rightarrow>
                (case b_SearchByVectorPerType B v of
                   Inl _ \<Rightarrow> None
                 | Inr byType \<Rightarrow> (case byType ''persona'' of
                      None \<Rightarrow> None | Some records \<Rightarrow> if records = [] then None else Some records))))"

definition structured_task :: "GetContextRequest \<Rightarrow> backend \<Rightarrow> fetchResult" where
  "structured_task req B =
     Structured
       (if wantsType req ''persona''
        then Some (case persona_vector req B of Some rs \<Rightarrow> rs | None \<Rightarrow> ok_or [] (b_GetPersona B))
        else None)
       (if wantsType req ''events'' then Some (ok_or [] (b_GetUpcomingEvents B)) else None)"

definition experiences_task :: "GetContextRequest \<Rightarrow> backend \<Rightarrow> fetchResult" where
  "experiences_task req B =
     (case shared_embedding req B of
        Inl e \<Rightarrow> Experiences [] (Some e)
      | Inr v \<Rightarrow> (case b_SearchExperiences B v of Inl e \<Rightarrow> Experiences [] (Some e) | Inr es \<Rightarrow> Experiences es None))"

definition tasks :: "GetContextRequest \<Rightarrow> backend \<Rightarrow> fetchResult list" where
  "tasks req B =
     [self_facts_task B] @
     (if wantsType req ''entity_facts'' then [entity_task req B] else []) @
     (if wantsType req ''persona'' \<or> wantsType req ''events'' then [structured_task req B] else []) @
     (if wantsType req ''experiences'' \<and> req_Query req \<noteq> [] then [experiences_task req B] else [])"

section \<open>Collecting the results\<close>

fun merge :: "ContextBundle \<Rightarrow> fetchResult \<Rightarrow> ContextBundle" where
  "merge b (SelfFacts facts _) = b\<lparr>cb_SelfFacts := facts\<rparr>"
| "merge b (Entity facts _) = b\<lparr>cb_EntityFacts := facts\<rparr>"
| "merge b (Structured p e) =
     (let b1 = (case p of None \<Rightarrow> b | Some rs \<Rightarrow> b\<lparr>cb_Persona := rs\<rparr>)
      in case e of None \<Rightarrow> b1 | Some rs \<Rightarrow> b1\<lparr>cb_UpcomingEvents := rs\<rparr>)"
| "merge b (Experiences es _) = b\<lparr>cb_Experiences := es\<rparr>"

text \<open>
  One turn of the receiving loop: any of the pending results is next. The loop ends when nothing is
  pending, or at the timeout, which can be in any state.
\<close>

inductive receive :: "fetchResult list \<times> ContextBundle \<Rightarrow> fetchResult list \<times> ContextBundle \<Rightarrow> bool" where
  receive: "receive (xs @ r # ys, b) (xs @ ys, merge b r)"

inductive_cases receiveE: "receive (rs, b) s"

definition fetch_returns :: "GetContextRequest \<Rightarrow> backend \<Rightarrow> ContextBundle \<Rightarrow> fetchResult list \<Rightarrow> ContextBundle \<Rightarrow> bool" where
  "fetch_returns req B b missing b' \<longleftrightarrow> receive\<^sup>*\<^sup>* (tasks req B, b) (missing, b')"

text \<open>The bundle when every result arrives.\<close>

definition fetchContextParallel :: "GetContextRequest \<Rightarrow> backend \<Rightarrow> ContextBundle \<Rightarrow> ContextBundle" where
  "fetchContextParallel req B b = foldl merge b (tasks req B)"

definition recent_messages ::
  "'r redis \<Rightarrow> codec \<Rightarrow> int \<Rightarrow> GetContextRequest \<Rightarrow> 'r world \<Rightarrow> message list \<times> 'r world" where
  "recent_messages R cod recentMessagesLimit req w =
     (if \<not> wantsType req ''recent_messages'' then ([], w)
      else (case req_TimeRange req of
              Some (Some _, Some _) \<Rightarrow> ([], w)
            | _ \<Rightarrow> apfst (ok_or []) (GetRawMessages R cod (req_TenantID req) (req_SessionID req)
                    (if recentMessagesLimit \<le> 0 then CacheRecentMessagesCount else recentMessagesLimit) w)))"

definition GetContext ::
  "'r redis \<Rightarrow> codec \<Rightarrow> int \<Rightarrow> GetContextRequest \<Rightarrow> backend \<Rightarrow> 'r world \<Rightarrow> ContextBundle \<times> 'r world" where
  "GetContext R cod recentMessagesLimit req B w =
     (let (recentRaw, w1) = recent_messages R cod recentMessagesLimit req w
      in (fetchContextParallel req B (empty_bundle\<lparr>cb_RecentMessages := recentRaw\<rparr>), w1))"

text \<open>The usage updates the experience task sends off, one for each experience it returns.\<close>

definition record_usages :: "codec \<Rightarrow> string \<Rightarrow> experience list \<Rightarrow> db \<Rightarrow> db" where
  "record_usages cod tenantID exps d =
     fold (\<lambda>e d. snd (RecordUsage cod tenantID (uuid_String cod (exp_ID e)) d)) exps d"

section \<open>The order of arrival\<close>

fun kind :: "fetchResult \<Rightarrow> string" where
  "kind (SelfFacts _ _) = ''self_facts''"
| "kind (Entity _ _) = ''entity''"
| "kind (Structured _ _) = ''structured''"
| "kind (Experiences _ _) = ''experiences''"

lemma kind_tasks [simp]:
  "kind (self_facts_task B) = ''self_facts''" "kind (entity_task req B) = ''entity''"
  "kind (structured_task req B) = ''structured''" "kind (experiences_task req B) = ''experiences''"
  by (auto simp: self_facts_task_def entity_task_def structured_task_def experiences_task_def Let_def
      split: sum.splits prod.splits)

lemma tasks_kinds: "distinct (map kind (tasks req B))"
  by (auto simp: tasks_def)

lemma merge_commute: "kind r \<noteq> kind s \<Longrightarrow> merge (merge b r) s = merge (merge b s) r"
  by (cases r; cases s) (auto simp: Let_def split: option.splits)

lemma foldl_merge_perm:
  assumes "mset rs = mset ss" "distinct (map kind rs)"
  shows "foldl merge b rs = foldl merge b ss"
proof -
  have "fold (\<lambda>r b. merge b r) rs = fold (\<lambda>r b. merge b r) ss"
  proof (rule fold_multiset_equiv [OF _ assms(1)])
    fix r s assume "r \<in> set rs" "s \<in> set rs"
    with assms(2) have "r = s \<or> kind r \<noteq> kind s" by (auto simp: distinct_map inj_on_def)
    then show "(\<lambda>b. merge b r) \<circ> (\<lambda>b. merge b s) = (\<lambda>b. merge b s) \<circ> (\<lambda>b. merge b r)"
      using merge_commute by (auto simp: fun_eq_iff)
  qed
  then show ?thesis by (simp add: foldl_conv_fold)
qed

lemma receive_got:
  "receive\<^sup>*\<^sup>* (rs, b) (missing, b') \<Longrightarrow> \<exists>got. mset (got @ missing) = mset rs \<and> b' = foldl merge b got"
proof (induction "(missing, b')" arbitrary: missing b' rule: rtranclp_induct)
  case base
  then show ?case by (intro exI [of _ "[]"]) simp
next
  case (step y)
  obtain mid b1 where y: "y = (mid, b1)" by (cases y)
  with step obtain got where got: "mset (got @ mid) = mset rs" "b1 = foldl merge b got" by blast
  from step(2) y obtain xs r ys where "mid = xs @ r # ys" "missing = xs @ ys" "b' = merge b1 r"
    by (auto elim: receiveE)
  with got show ?case by (intro exI [of _ "got @ [r]"]) auto
qed

lemma receive_length: "receive (rs, b) (rs', b') \<Longrightarrow> length rs' < length rs"
  by (auto elim: receiveE)

lemma fetch_all:
  assumes "fetch_returns req B b [] b'"
  shows "b' = fetchContextParallel req B b"
proof -
  obtain got where "mset got = mset (tasks req B)" "b' = foldl merge b got"
    using receive_got assms unfolding fetch_returns_def by fastforce
  then show ?thesis
    using foldl_merge_perm [of "tasks req B" got b] tasks_kinds by (simp add: fetchContextParallel_def)
qed

lemma fetch_all_possible: "fetch_returns req B b [] (fetchContextParallel req B b)"
proof -
  have "receive\<^sup>*\<^sup>* (rs, b) ([], foldl merge b rs)" for rs
  proof (induction rs arbitrary: b)
    case (Cons r rs)
    have "receive (r # rs, b) (rs, merge b r)" using receive.intros [of "[]" r rs b] by simp
    then show ?case using Cons by (simp add: converse_rtranclp_into_rtranclp)
  qed simp
  then show ?thesis by (simp add: fetch_returns_def fetchContextParallel_def)
qed

text \<open>A field is written by results of one kind only.\<close>

lemma untouched:
  "\<forall>r \<in> set rs. kind r \<noteq> ''self_facts'' \<Longrightarrow> cb_SelfFacts (foldl merge b rs) = cb_SelfFacts b"
  "\<forall>r \<in> set rs. kind r \<noteq> ''entity'' \<Longrightarrow> cb_EntityFacts (foldl merge b rs) = cb_EntityFacts b"
  "\<forall>r \<in> set rs. kind r \<noteq> ''structured'' \<Longrightarrow> cb_Persona (foldl merge b rs) = cb_Persona b"
  "\<forall>r \<in> set rs. kind r \<noteq> ''structured'' \<Longrightarrow> cb_UpcomingEvents (foldl merge b rs) = cb_UpcomingEvents b"
  "\<forall>r \<in> set rs. kind r \<noteq> ''experiences'' \<Longrightarrow> cb_Experiences (foldl merge b rs) = cb_Experiences b"
  "cb_RecentMessages (foldl merge b rs) = cb_RecentMessages b"
proof -
  have one: "kind r \<noteq> ''self_facts'' \<Longrightarrow> cb_SelfFacts (merge b r) = cb_SelfFacts b"
    "kind r \<noteq> ''entity'' \<Longrightarrow> cb_EntityFacts (merge b r) = cb_EntityFacts b"
    "kind r \<noteq> ''structured'' \<Longrightarrow> cb_Persona (merge b r) = cb_Persona b"
    "kind r \<noteq> ''structured'' \<Longrightarrow> cb_UpcomingEvents (merge b r) = cb_UpcomingEvents b"
    "kind r \<noteq> ''experiences'' \<Longrightarrow> cb_Experiences (merge b r) = cb_Experiences b"
    "cb_RecentMessages (merge b r) = cb_RecentMessages b" for b r
    by (cases r; auto simp: Let_def split: option.splits)+
  show "\<forall>r \<in> set rs. kind r \<noteq> ''self_facts'' \<Longrightarrow> cb_SelfFacts (foldl merge b rs) = cb_SelfFacts b"
    "\<forall>r \<in> set rs. kind r \<noteq> ''entity'' \<Longrightarrow> cb_EntityFacts (foldl merge b rs) = cb_EntityFacts b"
    "\<forall>r \<in> set rs. kind r \<noteq> ''structured'' \<Longrightarrow> cb_Persona (foldl merge b rs) = cb_Persona b"
    "\<forall>r \<in> set rs. kind r \<noteq> ''structured'' \<Longrightarrow> cb_UpcomingEvents (foldl merge b rs) = cb_UpcomingEvents b"
    "\<forall>r \<in> set rs. kind r \<noteq> ''experiences'' \<Longrightarrow> cb_Experiences (foldl merge b rs) = cb_Experiences b"
    "cb_RecentMessages (foldl merge b rs) = cb_RecentMessages b"
    by (induction rs arbitrary: b) (auto simp: one)
qed

lemma split_kind:
  assumes "distinct (map kind (got @ missing))"
  shows "(\<forall>r \<in> set got. kind r \<noteq> k) \<or> (\<forall>r \<in> set missing. kind r \<noteq> k)"
  using assms by (auto simp: image_iff)

text \<open>After a timeout every field is either as it was or as it would be with all the results.\<close>

lemma fetch_partial:
  assumes "fetch_returns req B b missing b'"
  defines "full \<equiv> fetchContextParallel req B b"
  shows "cb_SelfFacts b' \<in> {cb_SelfFacts b, cb_SelfFacts full}" "cb_EntityFacts b' \<in> {cb_EntityFacts b, cb_EntityFacts full}"
    "cb_Persona b' \<in> {cb_Persona b, cb_Persona full}" "cb_UpcomingEvents b' \<in> {cb_UpcomingEvents b, cb_UpcomingEvents full}"
    "cb_Experiences b' \<in> {cb_Experiences b, cb_Experiences full}" "cb_RecentMessages b' = cb_RecentMessages b"
proof -
  obtain got where ms: "mset (got @ missing) = mset (tasks req B)" and b': "b' = foldl merge b got"
    using receive_got assms(1) unfolding fetch_returns_def by blast
  have full: "full = foldl merge b' missing"
    using foldl_merge_perm [of "tasks req B" "got @ missing" b] ms tasks_kinds b'
    by (simp add: full_def fetchContextParallel_def)
  have "mset (map kind (got @ missing)) = mset (map kind (tasks req B))" using ms by (metis mset_map)
  then have dist: "distinct (map kind (got @ missing))" using tasks_kinds mset_eq_imp_distinct_iff by metis
  note s = split_kind [OF dist]
  show "cb_SelfFacts b' \<in> {cb_SelfFacts b, cb_SelfFacts full}"
    using s [of "''self_facts''"] untouched(1) [of got b] untouched(1) [of missing b'] full b' by auto
  show "cb_EntityFacts b' \<in> {cb_EntityFacts b, cb_EntityFacts full}"
    using s [of "''entity''"] untouched(2) [of got b] untouched(2) [of missing b'] full b' by auto
  show "cb_Persona b' \<in> {cb_Persona b, cb_Persona full}"
    using s [of "''structured''"] untouched(3) [of got b] untouched(3) [of missing b'] full b' by auto
  show "cb_UpcomingEvents b' \<in> {cb_UpcomingEvents b, cb_UpcomingEvents full}"
    using s [of "''structured''"] untouched(4) [of got b] untouched(4) [of missing b'] full b' by auto
  show "cb_Experiences b' \<in> {cb_Experiences b, cb_Experiences full}"
    using s [of "''experiences''"] untouched(5) [of got b] untouched(5) [of missing b'] full b' by auto
  show "cb_RecentMessages b' = cb_RecentMessages b" using untouched(6) b' by simp
qed

section \<open>What the bundle holds\<close>

lemma fetch_self:
  "cb_SelfFacts (fetchContextParallel req B b) = clean_self (ok_or [] (b_SearchSelfFacts B))"
proof -
  have "foldl merge b (tasks req B) = foldl merge (merge b (self_facts_task B)) (tl (tasks req B))"
    by (simp add: tasks_def)
  moreover have "\<forall>r \<in> set (tl (tasks req B)). kind r \<noteq> ''self_facts''" by (auto simp: tasks_def)
  ultimately have "cb_SelfFacts (fetchContextParallel req B b) = cb_SelfFacts (merge b (self_facts_task B))"
    using untouched(1) by (simp add: fetchContextParallel_def)
  also have "\<dots> = clean_self (ok_or [] (b_SearchSelfFacts B))"
    by (auto simp: self_facts_task_def clean_self_def deduplicate_first_by filterByConfidence_filter split: sum.splits)
  finally show ?thesis .
qed

definition entity_result :: "GetContextRequest \<Rightarrow> backend \<Rightarrow> entity_fact list" where
  "entity_result req B =
     (let (facts, err) = entity_fallback req B (entity_phases req B) in
      if err = None then clean_entities facts else facts)"

lemma fetch_entities:
  assumes "wantsType req ''entity_facts''"
  shows "cb_EntityFacts (fetchContextParallel req B b) = entity_result req B"
proof -
  let ?rest = "drop 2 (tasks req B)"
  have "foldl merge b (tasks req B) = foldl merge (merge (merge b (self_facts_task B)) (entity_task req B)) ?rest"
    using assms by (simp add: tasks_def)
  moreover have "\<forall>r \<in> set ?rest. kind r \<noteq> ''entity''" using assms by (auto simp: tasks_def)
  ultimately have "cb_EntityFacts (fetchContextParallel req B b) =
      cb_EntityFacts (merge (merge b (self_facts_task B)) (entity_task req B))"
    using untouched(2) by (simp add: fetchContextParallel_def)
  also have "\<dots> = entity_result req B"
    by (auto simp: entity_task_def entity_result_def clean_entities_def clean_self_def Let_def split: prod.splits)
  finally show ?thesis .
qed

text \<open>An error of the text search is the only way past the clean-up.\<close>

lemma entity_error:
  assumes "\<And>names. is_ok (b_QueryFactsByFTS B names)"
    "entity_fallback req B (entity_phases req B) = (facts, Some e)"
  shows "facts = []"
proof -
  obtain fs err where ph: "entity_phases req B = (fs, err)" by fastforce
  have ok: "b_QueryFactsByFTS B names \<noteq> Inl x" for names x using assms(1) [of names] by auto
  have "err = None"
    using ph by (auto simp: entity_phases_def Let_def ok split: if_splits sum.splits option.splits)
  with assms(2) ph show ?thesis
    by (auto simp: entity_fallback_def Let_def split: if_splits sum.splits option.splits)
qed

lemma entity_result_clean:
  assumes "\<And>names. is_ok (b_QueryFactsByFTS B names)"
  shows "clean (entity_result req B)"
proof -
  obtain facts err where f: "entity_fallback req B (entity_phases req B) = (facts, err)" by fastforce
  show ?thesis
  proof (cases err)
    case None
    with f show ?thesis by (simp add: entity_result_def clean_clean_entities)
  next
    case (Some e)
    with entity_error [OF assms] f have "facts = []" by blast
    with f Some show ?thesis by (simp add: entity_result_def clean_def)
  qed
qed

section \<open>The database behind the bundle\<close>

text \<open>The answers when every call reads the database \<^verbatim>\<open>d\<close>; the embedding comes from the model provider.\<close>

definition store_backend ::
  "codec \<Rightarrow> crypto_lib \<Rightarrow> pg_search \<Rightarrow> pg_json \<Rightarrow> string \<Rightarrow> GetContextRequest \<Rightarrow> vec res \<Rightarrow> db \<Rightarrow> backend" where
  "store_backend cod L P J mk req emb d =
     (let t = req_TenantID req; u = req_UserID req; q = req_Query req in
      \<lparr>b_Embed = emb,
       b_SearchSelfFacts = fst (SearchSelfFacts cod L mk t u d),
       b_ResolveEntities = fst (ResolveEntities cod P t u q d),
       b_QueryFactsByVector = (\<lambda>v names. fst (QueryFactsByVector cod L P mk t u v names DefaultTopKPerEntity d)),
       b_QueryFactsByFTS = (\<lambda>names. fst (QueryFactsByFTS cod L P mk t u q names DefaultTopKPerEntity d)),
       b_SearchAllFactsByVector = (\<lambda>v. fst (SearchAllFactsByVector cod L P mk t u v DefaultFallbackFactsTopK d)),
       b_FallbackFacts = fst (FallbackFacts cod L mk t u DefaultFallbackFactsTopK d),
       b_SearchByVectorPerType = (\<lambda>v. fst (SearchByVectorPerType cod P t u v [''persona''] 5 d)),
       b_GetPersona = fst (GetPersona cod t u 5 d),
       b_GetUpcomingEvents = fst (GetUpcomingEvents cod P J t u q DefaultEventsLimit d),
       b_SearchExperiences = (\<lambda>v. fst (ExperienceSearchByVector cod P t u v DefaultExperienceTopK
                                        DefaultExperienceMinConf d))\<rparr>)"

lemma reads_facts_in:
  assumes "reads_facts cod L mk t u p d fs" "f \<in> set fs" "\<And>t u r. p t u r \<Longrightarrow> p' t u r"
  shows "reads_facts cod L mk t u p' d [f]"
  using assms by (fastforce simp: reads_facts_def list_all_iff list_ex_iff split: option.splits sum.splits)

lemma self_scoped:
  assumes "f \<in> set (cb_SelfFacts (fetchContextParallel req (store_backend cod L P J mk req emb d) b))"
  shows "reads_facts cod L mk (req_TenantID req) (req_UserID req)
    (\<lambda>t u r. of_user t u r \<and> current r \<and> em_entity_type r = ''self'') d [f]"
proof -
  let ?q = "SearchSelfFacts cod L mk (req_TenantID req) (req_UserID req) d"
  obtain r d' where q: "?q = (r, d')" by fastforce
  have "f \<in> set (clean_self (ok_or [] r))"
    using assms q by (simp add: fetch_self store_backend_def Let_def)
  then have f: "f \<in> set (ok_or [] r)" using clean_self_subset by blast
  show ?thesis
  proof (cases r)
    case (Inl e)
    with f show ?thesis by simp
  next
    case (Inr fs)
    with f reads_facts_in [OF SearchSelfFacts_reads [OF q [unfolded Inr]], of f] show ?thesis by simp
  qed
qed

lemma entities_source:
  assumes "entity_fallback req B (entity_phases req B) = (facts, err)" "f \<in> set facts"
  shows "(\<exists>v names fs. b_QueryFactsByVector B v names = Inr fs \<and> f \<in> set fs) \<or>
    (\<exists>names fs. b_QueryFactsByFTS B names = Inr fs \<and> f \<in> set fs) \<or>
    (\<exists>v fs. b_SearchAllFactsByVector B v = Inr fs \<and> f \<in> set fs) \<or>
    (\<exists>fs. b_FallbackFacts B = Inr fs \<and> f \<in> set fs)"
proof -
  obtain ps pe where ph: "entity_phases req B = (ps, pe)" by fastforce
  have inr: "x \<in> set (ok_or [] r) \<Longrightarrow> \<exists>fs. r = Inr fs \<and> x \<in> set fs" for x :: entity_fact and r
    by (cases r) auto
  have p: "f \<in> set ps \<Longrightarrow> (\<exists>v names fs. b_QueryFactsByVector B v names = Inr fs \<and> f \<in> set fs) \<or>
      (\<exists>names fs. b_QueryFactsByFTS B names = Inr fs \<and> f \<in> set fs)"
    using ph by (auto simp: entity_phases_def Let_def split: if_splits sum.splits option.splits dest!: inr)
  show ?thesis
  proof (cases "ps = []")
    case False
    with assms ph p show ?thesis by (auto simp: entity_fallback_def)
  next
    case True
    with assms ph show ?thesis
      by (auto simp: entity_fallback_def Let_def split: if_splits sum.splits option.splits)
  qed
qed

lemma third_party_reads:
  assumes "f \<in> set fs"
  shows "fst (QueryFactsByVector cod L P mk t u v names k d) = Inr fs \<Longrightarrow> reads_facts cod L mk t u third_party d [f]"
    and "fst (QueryFactsByFTS cod L P mk t u q names k d) = Inr fs \<Longrightarrow> reads_facts cod L mk t u third_party d [f]"
    and "fst (SearchAllFactsByVector cod L P mk t u v k d) = Inr fs \<Longrightarrow> reads_facts cod L mk t u third_party d [f]"
    and "fst (FallbackFacts cod L mk t u k d) = Inr fs \<Longrightarrow> reads_facts cod L mk t u third_party d [f]"
proof -
  have ne: "fs \<noteq> []" using assms by auto
  have pair: "fst p = Inr fs \<Longrightarrow> p = (Inr fs, snd p)" for p :: "entity_fact list res \<times> db" by (cases p) simp
  show "reads_facts cod L mk t u third_party d [f]" if "fst (QueryFactsByVector cod L P mk t u v names k d) = Inr fs"
    using reads_facts_in [OF QueryFactsByVector_reads [OF pair [OF that] ne] assms] by blast
  show "reads_facts cod L mk t u third_party d [f]" if "fst (QueryFactsByFTS cod L P mk t u q names k d) = Inr fs"
    using reads_facts_in [OF QueryFactsByFTS_reads [OF pair [OF that] ne] assms] by blast
  show "reads_facts cod L mk t u third_party d [f]" if "fst (SearchAllFactsByVector cod L P mk t u v k d) = Inr fs"
    using reads_facts_in [OF SearchAllFactsByVector_reads [OF pair [OF that] ne] assms] by blast
  show "reads_facts cod L mk t u third_party d [f]" if "fst (FallbackFacts cod L mk t u k d) = Inr fs"
    using reads_facts_in [OF FallbackFacts_reads [OF pair [OF that]] assms] by blast
qed

lemma entities_scoped:
  assumes "wantsType req ''entity_facts''"
    "f \<in> set (cb_EntityFacts (fetchContextParallel req (store_backend cod L P J mk req emb d) b))"
  shows "reads_facts cod L mk (req_TenantID req) (req_UserID req) third_party d [f]"
proof -
  let ?B = "store_backend cod L P J mk req emb d"
  obtain facts err where fe: "entity_fallback req ?B (entity_phases req ?B) = (facts, err)" by fastforce
  have "f \<in> set facts"
    using assms fe clean_entities_subset by (auto simp: fetch_entities entity_result_def split: if_splits)
  from entities_source [OF fe this] show ?thesis
    by (auto simp: store_backend_def Let_def intro: third_party_reads)
qed

end
