(* ===== verification/Accounts.thy ===== *)
theory Accounts
  imports EntityStore
begin

text \<open>
  The user profile (\<^verbatim>\<open>internal/repository/profile.go\<close>), the record of token usage
  (\<^verbatim>\<open>internal/repository/usage.go\<close>) and the tenant of a pooled connection
  (\<^verbatim>\<open>internal/repository/tenant.go\<close> and the acquire hook of \<^verbatim>\<open>internal/repository/db.go\<close>).
\<close>

section \<open>The profile\<close>

text \<open>The loop over the self facts, best first: the first name wins, the aliases are collected.\<close>

fun profile_loop ::
  "(nat \<Rightarrow> nat) \<Rightarrow> crypto_lib \<Rightarrow> crypto \<Rightarrow> string \<Rightarrow> entity_row list \<Rightarrow> string \<Rightarrow> string list \<Rightarrow> string \<times> string list" where
  "profile_loop tab L c tenantID [] canonicalName aliases = (canonicalName, aliases)"
| "profile_loop tab L c tenantID (r # rs) canonicalName aliases =
     (case DecryptValue L c (em_value_encrypted r) tenantID of
        Inl _ \<Rightarrow> profile_loop tab L c tenantID rs canonicalName aliases
      | Inr val \<Rightarrow>
          if TrimSpace val = [] then profile_loop tab L c tenantID rs canonicalName aliases
          else (let attr = ToLower tab (em_attribute r) in
                if attr = ''name''
                then profile_loop tab L c tenantID rs (if canonicalName = [] then val else canonicalName) aliases
                else if attr = ''nickname'' \<or> attr = ''alias''
                then profile_loop tab L c tenantID rs canonicalName (aliases @ [val])
                else profile_loop tab L c tenantID rs canonicalName aliases))"

definition default_profile :: user_profile where
  "default_profile = \<lparr>up_CanonicalName = ''User'', up_Aliases = []\<rparr>"

definition Get ::
  "(nat \<Rightarrow> nat) \<Rightarrow> codec \<Rightarrow> crypto_lib \<Rightarrow> string \<Rightarrow> string \<Rightarrow> string \<Rightarrow> db \<Rightarrow> user_profile \<times> db" where
  "Get tab cod L mk tenantID userID d =
     (case NewCrypto mk of
        Inl _ \<Rightarrow> (default_profile, d)
      | Inr c \<Rightarrow>
          (case pool_query (\<lambda>d. with_uuid cod tenantID (\<lambda>t. with_uuid cod userID (\<lambda>u.
                  Inr (best_first (filter (\<lambda>r. of_user t u r \<and> current r \<and> em_entity_type r = ''self'')
                    (db_entities d)))))) d of
             (Inl _, d1) \<Rightarrow> (default_profile, d1)
           | (Inr rows, d1) \<Rightarrow>
               (let (canonicalName, aliases) = profile_loop tab L c tenantID rows [] [] in
                (\<lparr>up_CanonicalName = (if canonicalName = [] then ''User'' else canonicalName),
                  up_Aliases = aliases\<rparr>, d1))))"

text \<open>The name never comes out blank, whatever was stored.\<close>

lemma profile_loop_name:
  "profile_loop tab L c t rs n as = (n', as') \<Longrightarrow> n = [] \<or> TrimSpace n \<noteq> [] \<Longrightarrow> n' = [] \<or> TrimSpace n' \<noteq> []"
  by (induction rs arbitrary: n as) (auto simp: Let_def split: sum.splits if_splits)

lemma profile_loop_keeps:
  "profile_loop tab L c t rs n as = (n', as') \<Longrightarrow> n \<noteq> [] \<Longrightarrow> n' = n"
  by (induction rs arbitrary: n as) (auto simp: Let_def split: sum.splits if_splits)

lemma TrimSpace_User: "TrimSpace ''User'' = ''User''"
  by code_simp

lemma Get_name:
  assumes "Get tab cod L mk tenantID userID d = (p, d')"
  shows "TrimSpace (up_CanonicalName p) \<noteq> []"
  using assms
  by (auto simp: Get_def default_profile_def TrimSpace_User Let_def split: sum.splits prod.splits if_splits
      dest: profile_loop_name [where n = "[]", simplified])

section \<open>Token usage\<close>

definition Record :: "uuid \<Rightarrow> llm_usage \<Rightarrow> db \<Rightarrow> err option \<times> db" where
  "Record new_id u d =
     apfst err_of (pool_exec (\<lambda>d.
       if new_id \<in> set (map lu_ID (db_usage d)) then (Inl (Err ''duplicate key''), d)
       else (Inr (), d\<lparr>db_usage := db_usage d @ [u\<lparr>lu_ID := new_id\<rparr>]\<rparr>)) d)"

section \<open>The tenant of a connection\<close>

text \<open>
  A context carries at most one tenant. A pooled connection has the session setting
  \<^verbatim>\<open>app.tenant_id\<close>, which the row-level policies read; \<open>None\<close> is the state after RESET, in which they
  deny all rows.
\<close>

type_synonym tenant_ctx = "string option"

definition WithTenantID :: "tenant_ctx \<Rightarrow> string \<Rightarrow> tenant_ctx" where
  "WithTenantID ctx tenantID = Some tenantID"

definition TenantIDFromCtx :: "tenant_ctx \<Rightarrow> string" where
  "TenantIDFromCtx ctx = (case ctx of Some v \<Rightarrow> v | None \<Rightarrow> [])"

record conn =
  app_tenant_id :: "string option"

text \<open>
  The hook before a connection is handed out: the answer (whether the connection may be used) and the
  connection. \<open>ok\<close> says whether the statement the hook executes succeeds.
\<close>

definition BeforeAcquire :: "tenant_ctx \<Rightarrow> bool \<Rightarrow> conn \<Rightarrow> bool \<times> conn" where
  "BeforeAcquire ctx ok c =
     (let tid = TenantIDFromCtx ctx in
      if tid \<noteq> [] then (if ok then (True, c\<lparr>app_tenant_id := Some tid\<rparr>) else (False, c))
      else (True, if ok then c\<lparr>app_tenant_id := None\<rparr> else c))"

lemma BeforeAcquire_tenant:
  "tid \<noteq> [] \<Longrightarrow> BeforeAcquire (WithTenantID ctx tid) ok c = (True, c') \<Longrightarrow> app_tenant_id c' = Some tid"
  by (auto simp: BeforeAcquire_def WithTenantID_def TenantIDFromCtx_def split: if_splits)

lemma BeforeAcquire_no_tenant:
  "BeforeAcquire None True c = (r, c') \<Longrightarrow> r \<and> app_tenant_id c' = None"
  by (auto simp: BeforeAcquire_def TenantIDFromCtx_def)

text \<open>When RESET fails the connection is handed out with the tenant of its last user.\<close>

lemma BeforeAcquire_reset_fails: "BeforeAcquire None False c = (True, c)"
  by (simp add: BeforeAcquire_def TenantIDFromCtx_def)

end
