(* ===== verification/Middleware.thy ===== *)
theory Middleware
  imports Accounts
begin

text \<open>
  The HTTP middleware (\<^verbatim>\<open>internal/api/middleware.go\<close>): the request identifier that is passed on and
  echoed, the access log, and the request counters and durations. The handlers are an argument.
\<close>

text \<open>What the middleware sees of a request and of its response.\<close>

record http_exchange =
  hx_method :: string
  hx_full_path :: string        \<comment> \<open>the route's pattern, empty when no route matched\<close>
  hx_url_path :: string
  hx_request_header :: "string option"    \<comment> \<open>X-Request-ID\<close>
  hx_response_header :: "string option"
  hx_keys :: "(string \<times> string) list"     \<comment> \<open>the context's values\<close>
  hx_status :: int

definition RequestIDMiddleware :: "string \<Rightarrow> (http_exchange \<Rightarrow> 'a) \<Rightarrow> http_exchange \<Rightarrow> 'a" where
  "RequestIDMiddleware new_id chain c =
     (let reqID = (case hx_request_header c of None \<Rightarrow> new_id | Some h \<Rightarrow> if h = [] then new_id else h)
      in chain (c\<lparr>hx_keys := (''request_id'', reqID) # hx_keys c, hx_response_header := Some reqID\<rparr>))"

definition metrics_path :: "http_exchange \<Rightarrow> string" where
  "metrics_path c = (if hx_full_path c = [] then hx_url_path c else hx_full_path c)"

text \<open>What is observed: the access log, the counter of each method, path and status, and the durations of each path.\<close>

record log_entry =
  le_method :: string
  le_path :: string
  le_status :: int
  le_latency_ms :: int
  le_request_id :: "string option"

record observed =
  ob_log :: "log_entry list"
  ob_requests :: "string \<times> string \<times> string \<Rightarrow> nat"
  ob_durations :: "string \<times> string \<Rightarrow> time list"

text \<open>Both read the clock before and after the rest of the chain.\<close>

definition SlogMiddleware ::
  "time \<times> time \<Rightarrow> (http_exchange \<times> observed \<Rightarrow> http_exchange \<times> observed) \<Rightarrow> http_exchange \<times> observed
     \<Rightarrow> http_exchange \<times> observed" where
  "SlogMiddleware clock chain s =
     (let (c, o1) = chain s
      in (c, o1\<lparr>ob_log := ob_log o1 @
        [\<lparr>le_method = hx_method c, le_path = metrics_path c, le_status = hx_status c,
          le_latency_ms = (snd clock - fst clock) div 1000000, le_request_id = map_of (hx_keys c) ''request_id''\<rparr>]\<rparr>))"

definition MetricsMiddleware ::
  "time \<times> time \<Rightarrow> (http_exchange \<times> observed \<Rightarrow> http_exchange \<times> observed) \<Rightarrow> http_exchange \<times> observed
     \<Rightarrow> http_exchange \<times> observed" where
  "MetricsMiddleware clock chain s =
     (let (c, o1) = chain s; k = (hx_method c, metrics_path c, Itoa (hx_status c)); p = (hx_method c, metrics_path c)
      in (c, o1\<lparr>ob_requests := (ob_requests o1)(k := Suc (ob_requests o1 k)),
                ob_durations := (ob_durations o1)(p := ob_durations o1 p @ [snd clock - fst clock])\<rparr>))"

text \<open>The chain in the order in which the server installs it; the recovery from panics is gin's.\<close>

definition middleware ::
  "string \<Rightarrow> time \<times> time \<Rightarrow> time \<times> time \<Rightarrow> (http_exchange \<Rightarrow> http_exchange) \<Rightarrow> http_exchange \<times> observed
     \<Rightarrow> http_exchange \<times> observed" where
  "middleware new_id slog_clock metrics_clock handler s =
     RequestIDMiddleware new_id
       (\<lambda>c. SlogMiddleware slog_clock (MetricsMiddleware metrics_clock (apfst handler)) (c, snd s)) (fst s)"

text \<open>A caller's identifier is echoed and handed to the handlers; every exchange is counted and logged once.\<close>

lemma request_id_passed:
  "hx_request_header c = Some h \<Longrightarrow> h \<noteq> [] \<Longrightarrow>
     \<exists>c'. RequestIDMiddleware n chain c = chain c' \<and> hx_response_header c' = Some h \<and>
       map_of (hx_keys c') ''request_id'' = Some h"
  by (rule exI [of _ "c\<lparr>hx_keys := (''request_id'', h) # hx_keys c, hx_response_header := Some h\<rparr>"])
    (simp add: RequestIDMiddleware_def Let_def)

lemma counted_once:
  assumes "middleware n t1 t2 handler (c, o1) = (c', o2)"
  shows "ob_requests o2 k = ob_requests o1 k + (if k = (hx_method c', metrics_path c', Itoa (hx_status c')) then 1 else 0)"
    and "length (ob_log o2) = Suc (length (ob_log o1))"
    and "le_status (last (ob_log o2)) = hx_status c'"
  using assms
  by (auto simp: middleware_def RequestIDMiddleware_def SlogMiddleware_def MetricsMiddleware_def Let_def)

text \<open>
  When the handler leaves the context's values alone, the log line carries the identifier that the caller
  sent and gets back.
\<close>

lemma logged_request_id:
  assumes "middleware n t1 t2 handler (c, o1) = (c', o2)" "hx_request_header c = Some h" "h \<noteq> []"
    and "\<And>x. hx_keys (handler x) = hx_keys x" "\<And>x. hx_response_header (handler x) = hx_response_header x"
  shows "le_request_id (last (ob_log o2)) = Some h" "hx_response_header c' = Some h"
  using assms
  by (auto simp: middleware_def RequestIDMiddleware_def SlogMiddleware_def MetricsMiddleware_def Let_def)

end
