(* ===== verification/MemoryRuns.thy ===== *)
theory MemoryRuns
  imports MemoryStore ExperienceStore
begin

text \<open>
  Sequences of operations on the memory records (\<^verbatim>\<open>internal/repository/memory.go\<close>,
  \<^verbatim>\<open>internal/worker/decay.go\<close>) and on the experiences (\<^verbatim>\<open>internal/repository/experience.go\<close>), as the
  API server and the workers issue them in any order, and the invariants every such sequence keeps.
\<close>

section \<open>Memory records\<close>

datatype memory_op =
    PersonaOp string string string "string list"
  | PersonaEmbeddingsOp string "string list" "vec list"
  | EventOp string string string json
  | EventBatchOp string string string "json list"
  | InsertEventOp string string string json
  | FeedbackOp string string string bool
  | DecayOp DecayWorker

fun run_memory_op :: "codec \<Rightarrow> pg_json \<Rightarrow> memory_op \<Rightarrow> db \<Rightarrow> db" where
  "run_memory_op cod J (PersonaOp t u s traits) d = snd (UpsertPersona cod J t u s traits d)"
| "run_memory_op cod J (PersonaEmbeddingsOp t ids vs) d = snd (UpdatePersonaEmbeddingsBatch cod t ids vs d)"
| "run_memory_op cod J (EventOp t u s p) d = snd (UpsertEvent cod J t u s p d)"
| "run_memory_op cod J (EventBatchOp t u s ps) d = snd (UpsertEventBatch cod J t u s ps d)"
| "run_memory_op cod J (InsertEventOp t u s p) d = snd (InsertEvent cod t u s p d)"
| "run_memory_op cod J (FeedbackOp t u i positive) d = snd (RecordFeedback cod t u i positive d)"
| "run_memory_op cod J (DecayOp w) d = decay w d"

text \<open>What the callers provide: trait texts are the decoder's, so valid UTF-8, and the decay rate is no growth.\<close>

fun memory_op_ok :: "memory_op \<Rightarrow> bool" where
  "memory_op_ok (PersonaOp t u s traits) \<longleftrightarrow> list_all (\<lambda>tr. valid_utf8 (TrimSpace tr)) traits"
| "memory_op_ok (DecayOp w) \<longleftrightarrow> 0 \<le> dw_rate w"
| "memory_op_ok _ \<longleftrightarrow> True"

text \<open>Updates that keep owner, kind and payload of every record keep the traits distinct.\<close>

lemma traits_distinct_update:
  assumes "traits_distinct J d"
    and "\<And>r. me_tenant_id (f r) = me_tenant_id r \<and> me_user_id (f r) = me_user_id r \<and> me_type (f r) = me_type r \<and>
      me_payload (f r) = me_payload r"
  shows "traits_distinct J (d\<lparr>db_memories := update_where p f (db_memories d)\<rparr>)"
proof -
  have "map (persona_key J) (filter (\<lambda>r. me_type r = ''persona'') (update_where p f rs)) =
      map (persona_key J) (filter (\<lambda>r. me_type r = ''persona'') rs)" for rs
    using assms(2) by (induction rs) (auto simp: persona_key_def)
  with assms(1) show ?thesis by (simp add: traits_distinct_def)
qed

lemma traits_distinct_other:
  assumes "insert_memory_row t u s ty p im d = (r, d')" "ty \<noteq> ''persona''" "traits_distinct J d"
  shows "traits_distinct J d'"
  using assms by (auto simp: insert_memory_row_def gen_uuid_def traits_distinct_def split: if_splits)

lemma insert_event_distinct:
  assumes "insert_event_once cod K t u s p d = (r, d')" "traits_distinct J d"
  shows "traits_distinct J d'"
  using assms unfolding insert_event_eval
  by (elim exec_uuid_keeps [where P = "traits_distinct J", rotated -2])
    (auto split: if_splits prod.splits sum.splits dest!: traits_distinct_other)

text \<open>Both invariants together, and the updates of single rows that keep them.\<close>

definition memory_ok :: "pg_json \<Rightarrow> db \<Rightarrow> bool" where
  "memory_ok J d \<longleftrightarrow> importance_ok d \<and> traits_distinct J d"

interpretation memory: table_invariant "memory_ok J" for J
  by unfold_locales (auto simp: memory_ok_def intro: importance_ok_tables traits_distinct_tables)

lemma memory_update_ok:
  assumes "memory_ok J d"
    and "\<And>r. me_tenant_id (f r) = me_tenant_id r \<and> me_user_id (f r) = me_user_id r \<and> me_type (f r) = me_type r \<and>
      me_payload (f r) = me_payload r"
    and "\<And>r. 1 / 100 \<le> me_importance r \<and> me_importance r \<le> 1 \<Longrightarrow> 1 / 100 \<le> me_importance (f r) \<and> me_importance (f r) \<le> 1"
  shows "memory_ok J (d\<lparr>db_memories := update_where p f (db_memories d)\<rparr>)"
  using assms traits_distinct_update [of J d f p]
  by (auto simp: memory_ok_def importance_ok_def set_update_where)

lemma memory_insert_ok:
  "insert_memory_row t u s ty p im d = (r, d') \<Longrightarrow> ty \<noteq> ''persona'' \<Longrightarrow> 1 / 100 \<le> im \<Longrightarrow> im \<le> 1 \<Longrightarrow>
     memory_ok J d \<Longrightarrow> memory_ok J d'"
  by (auto simp: memory_ok_def intro: insert_memory_row_importance traits_distinct_other)

lemma memory_event_ok:
  "insert_event_once cod K t u s p d = (r, d') \<Longrightarrow> memory_ok J d \<Longrightarrow> memory_ok J d'"
  by (auto simp: memory_ok_def intro: insert_event_importance insert_event_distinct)

lemma run_event_ok: "memory_ok J d \<Longrightarrow> memory_ok J (snd (UpsertEvent cod K t u s p d))"
proof -
  obtain q d' where q: "pool_exec (insert_event_once cod K t u s p) d = (q, d')" by fastforce
  assume "memory_ok J d"
  with memory.exec_keeps [OF memory_event_ok q] q show ?thesis by (simp add: UpsertEvent_def)
qed

lemma run_event_batch_ok: "memory_ok J d \<Longrightarrow> memory_ok J (snd (UpsertEventBatch cod K t u s ps d))"
proof -
  obtain q d' where q: "send_batch (map (insert_event_once cod K t u s) ps) d = (q, d')" by fastforce
  assume "memory_ok J d"
  then have "memory_ok J d'"
    by (rule memory.batch_keeps [OF _ q, rotated]) (auto intro: memory_event_ok)
  with q show ?thesis by (simp add: UpsertEventBatch_def)
qed

lemma run_insert_event_ok: "memory_ok J d \<Longrightarrow> memory_ok J (snd (InsertEvent cod t u s p d))"
proof -
  let ?q = "exec_uuid cod t (\<lambda>t. exec_uuid cod u (\<lambda>u. exec_uuid cod s (\<lambda>s.
    insert_memory_row t u s ''life_event'' p (8 / 10))))"
  obtain q d' where q: "pool_exec ?q d = (q, d')" by fastforce
  assume ok: "memory_ok J d"
  have "memory_ok J b" if "?q a = (r, b)" "memory_ok J a" for a r b
    using that by (auto simp: exec_uuid_def split: option.splits dest: memory_insert_ok)
  from memory.exec_keeps [OF this q ok] q show ?thesis by (simp add: InsertEvent_def)
qed

lemma run_embeddings_ok: "memory_ok J d \<Longrightarrow> memory_ok J (snd (UpdatePersonaEmbeddingsBatch cod t ids vs d))"
proof -
  let ?qs = "map (\<lambda>(i, v). exec_uuid cod i (\<lambda>iu. exec_uuid cod t (\<lambda>t d.
             (Inr () :: unit res, d\<lparr>db_memories := update_where (\<lambda>r. me_id r = iu \<and> me_tenant_id r = t)
                (\<lambda>r. r\<lparr>me_embedding := Some v\<rparr>) (db_memories d)\<rparr>)))) (zip ids vs)"
  obtain q d' where q: "send_batch ?qs d = (q, d')" by fastforce
  assume "memory_ok J d"
  then have "memory_ok J d'"
  proof (rule memory.batch_keeps [OF _ q, rotated])
    fix q a r b
    assume "q \<in> set ?qs" "q a = (r, b)" "memory_ok J a"
    then show "memory_ok J b"
      by (auto simp: exec_uuid_def split: option.splits intro!: memory_update_ok)
  qed
  with q \<open>memory_ok J d\<close> show ?thesis by (simp add: UpdatePersonaEmbeddingsBatch_def)
qed

lemma run_feedback_ok: "memory_ok J d \<Longrightarrow> memory_ok J (snd (RecordFeedback cod t u i positive d))"
proof -
  let ?q = "exec_uuid cod t (\<lambda>t. exec_uuid cod u (\<lambda>u. exec_uuid cod i (\<lambda>i d.
       (Inr () :: unit res, d\<lparr>db_memories := update_where
          (\<lambda>r. me_tenant_id r = t \<and> me_user_id r = u \<and> me_id r = i)
          (\<lambda>r. r\<lparr>me_access_count := me_access_count r + 1, me_last_accessed_at := Some (db_now d),
                 me_importance := feedback_importance positive (me_importance r)\<rparr>)
          (db_memories d)\<rparr>))))"
  obtain q d' where q: "pool_exec ?q d = (q, d')" by fastforce
  assume ok: "memory_ok J d"
  have "memory_ok J b" if "?q a = (r, b)" "memory_ok J a" for a r b
    using that by (auto simp: exec_uuid_def split: option.splits intro!: memory_update_ok)
  from memory.exec_keeps [OF this q ok] q show ?thesis by (simp add: RecordFeedback_def)
qed

lemma run_decay_ok: "0 \<le> dw_rate w \<Longrightarrow> memory_ok J d \<Longrightarrow> memory_ok J (decay w d)"
proof -
  obtain r d' where r: "DecayImportance (dw_rate w) (dw_ageDays w) d = (r, d')" by fastforce
  assume rate: "0 \<le> dw_rate w" and ok: "memory_ok J d"
  have "memory_ok J d'"
    using DecayImportance_cases [OF r]
  proof (elim disjE conjE exE)
    fix d4 assume d4: "same_tables d d4" "decay_stmt (dw_rate w) (dw_ageDays w) d4 = (r, d')"
    then show ?thesis using memory.tables_only [OF d4(1) ok] decayed_bounds [OF rate]
      by (auto simp: decay_stmt_def intro!: memory_update_ok)
  qed (use ok in \<open>auto intro: memory.tables_only\<close>)
  with r show ?thesis by (simp add: decay_def)
qed

lemma memory_op_keeps:
  assumes "memory_op_ok x" "memory_ok J d"
  shows "memory_ok J (run_memory_op cod J x d)"
proof (cases x)
  case (PersonaOp t u s traits)
  obtain ids d' where "upsert_traits cod J t u s traits d = (ids, d')" by fastforce
  with PersonaOp assms show ?thesis
    by (auto simp: memory_ok_def UpsertPersona_def intro: upsert_traits_importance upsert_traits_distinct)
qed (use assms in \<open>simp_all add: run_event_ok run_event_batch_ok run_insert_event_ok run_embeddings_ok
    run_feedback_ok run_decay_ok\<close>)

lemma memory_ops_keep:
  "list_all memory_op_ok xs \<Longrightarrow> memory_ok J d \<Longrightarrow> memory_ok J (fold (run_memory_op cod J) xs d)"
  by (induction xs arbitrary: d) (simp_all add: memory_op_keeps)

section \<open>Repeated decay\<close>

text \<open>The ticker runs the decay at later and later times; every record goes its own way.\<close>

definition decay_at :: "DecayWorker \<Rightarrow> time \<Rightarrow> db \<Rightarrow> db" where
  "decay_at w now d = decay w (d\<lparr>db_now := now\<rparr>)"

definition decay_row :: "DecayWorker \<Rightarrow> time \<Rightarrow> memory_row \<Rightarrow> memory_row" where
  "decay_row w now r =
     (if stale (dw_ageDays w) now r then r\<lparr>me_importance := decayed (dw_rate w) (me_importance r)\<rparr> else r)"

lemma decay_at_rows:
  assumes "db_faults d = []"
  shows "db_memories (decay_at w now d) = map (decay_row w now) (db_memories d) \<and> db_faults (decay_at w now d) = []"
  using assms by (simp add: decay_at_def decay_def DecayImportance_def pool_call_def decay_stmt_def update_where_def decay_row_def)

lemma decay_runs_rows:
  "db_faults d = [] \<Longrightarrow> db_memories (fold (decay_at w) nows d) = map (fold (decay_row w) nows) (db_memories d)"
  by (induction nows arbitrary: d) (simp_all add: decay_at_rows)

lemma stale_later: "stale days now r \<Longrightarrow> now \<le> now' \<Longrightarrow> stale days now' (r\<lparr>me_importance := x\<rparr>)"
  by (auto simp: stale_def split: option.splits)

lemma stale_importance [simp]: "stale days now (r\<lparr>me_importance := x\<rparr>) = stale days now r"
  by (simp add: stale_def)

lemma decay_row_runs:
  "list_all (\<lambda>now. stale (dw_ageDays w) now r) nows \<Longrightarrow>
     fold (decay_row w) nows r = r\<lparr>me_importance := ((decayed (dw_rate w)) ^^ length nows) (me_importance r)\<rparr>"
proof (induction nows arbitrary: r)
  case (Cons now nows)
  then show ?case
    using Cons.IH [of "r\<lparr>me_importance := decayed (dw_rate w) (me_importance r)\<rparr>"]
    by (simp add: decay_row_def funpow_swap1)
qed simp

lemma decay_runs_row:
  assumes "db_faults d = []" "sorted (t # nows)" "r \<in> set (db_memories d)" "stale (dw_ageDays w) t r"
  shows "r\<lparr>me_importance := ((decayed (dw_rate w)) ^^ length (t # nows)) (me_importance r)\<rparr>
    \<in> set (db_memories (fold (decay_at w) (t # nows) d))"
proof -
  have "stale (dw_ageDays w) now r" if "now \<in> set (t # nows)" for now
    using stale_later [OF assms(4), of now "me_importance r"] assms(2) that by auto
  then have all: "list_all (\<lambda>now. stale (dw_ageDays w) now r) (t # nows)"
    unfolding list_all_iff by blast
  have "fold (decay_row w) (t # nows) r \<in> set (db_memories (fold (decay_at w) (t # nows) d))"
    unfolding decay_runs_rows [OF assms(1)] set_map using assms(3) by (rule imageI)
  then show ?thesis by (simp only: decay_row_runs [OF all])
qed

text \<open>With a rate below 1 no run changes anything, as long as the importances are in their range.\<close>

lemma decay_row_fraction:
  "0 \<le> dw_rate w \<Longrightarrow> dw_rate w < 1 \<Longrightarrow> 1 / 100 \<le> me_importance r \<Longrightarrow> decay_row w now r = r"
  by (cases r) (simp add: decay_row_def decayed_fraction max_def)

lemma decay_without_effect:
  assumes "db_faults d = []" "0 \<le> dw_rate w" "dw_rate w < 1" "importance_ok d"
  shows "db_memories (fold (decay_at w) nows d) = db_memories d"
proof -
  have "fold (decay_row w) nows r = r" if "1 / 100 \<le> me_importance r" for r
    using decay_row_fraction [OF assms(2,3) that] by (induction nows) simp_all
  with assms(4) show ?thesis
    unfolding decay_runs_rows [OF assms(1)] importance_ok_def by (intro map_idI) blast
qed

section \<open>Experiences\<close>

datatype experience_op =
    UpsertExperienceOp string string uuid uuid string "string list" vec "uuid option"
  | UsageOp string string
  | ExperienceFeedbackOp string string string bool
  | DeactivateOp string string string

fun run_experience_op :: "codec \<Rightarrow> experience_op \<Rightarrow> db \<Rightarrow> db" where
  "run_experience_op cod (UpsertExperienceOp t u s m ds st v sim) d = snd (UpsertExperience cod t u s m ds st v sim d)"
| "run_experience_op cod (UsageOp t i) d = snd (RecordUsage cod t i d)"
| "run_experience_op cod (ExperienceFeedbackOp t u i positive) d = snd (ExperienceRecordFeedback cod t u i positive d)"
| "run_experience_op cod (DeactivateOp t u i) d = snd (Deactivate cod t u i d)"

lemma run_usage_ok: "experiences_ok d \<Longrightarrow> experiences_ok (snd (RecordUsage cod t i d))"
proof -
  let ?q = "exec_uuid cod t (\<lambda>t. exec_uuid cod i (\<lambda>i d.
       (Inr () :: unit res, d\<lparr>db_experiences := update_where (\<lambda>r. ex_tenant_id r = t \<and> ex_id r = i)
          (\<lambda>r. r\<lparr>ex_usage_count := ex_usage_count r + 1, ex_updated_at := db_now d\<rparr>)
          (db_experiences d)\<rparr>)))"
  obtain q d' where q: "pool_exec ?q d = (q, d')" by fastforce
  assume ok: "experiences_ok d"
  have "experiences_ok b" if "?q a = (r, b)" "experiences_ok a" for a r b
    using that by (auto simp: exec_uuid_def experience_ok_def split: option.splits intro!: experiences_update_where)
  from experiences.exec_keeps [OF this q ok] q show ?thesis by (simp add: RecordUsage_def)
qed

lemma run_deactivate_ok: "experiences_ok d \<Longrightarrow> experiences_ok (snd (Deactivate cod t u i d))"
proof -
  let ?f = "\<lambda>now r. r\<lparr>ex_is_active := False, ex_updated_at := now :: time\<rparr>"
  obtain q d' where q: "pool_exec (experience_update cod t u i ?f) d = (q, d')" by fastforce
  assume ok: "experiences_ok d"
  have "experiences_ok b" if "experience_update cod t u i ?f a = (r, b)" "experiences_ok a" for a r b
    by (rule experience_update_ok [OF that]) (simp add: experience_ok_def)
  from experiences.exec_keeps [OF this q ok] q show ?thesis by (simp add: Deactivate_def)
qed

lemma experience_ops_keep: "experiences_ok d \<Longrightarrow> experiences_ok (fold (run_experience_op cod) xs d)"
proof (induction xs arbitrary: d)
  case (Cons x xs)
  then have "experiences_ok (run_experience_op cod x d)"
    by (cases x) (auto simp: run_usage_ok run_deactivate_ok
        intro: UpsertExperience_ok [OF prod.collapse [symmetric]] ExperienceRecordFeedback_ok [OF prod.collapse [symmetric]])
  with Cons show ?case by simp
qed simp

end
