(* ===== verification/Flusher.thy ===== *)
theory Flusher
  imports Cache
begin

text \<open>
  The flusher worker (\<^verbatim>\<open>internal/worker/flusher.go\<close>): one cycle takes the lock, reads the sessions that
  have been inactive for too long and turns the pending messages of each into one entry of the
  tenant's cognitive stream. The lemmas say which sessions leave the active set and what is published.
\<close>

section \<open>The worker\<close>

text \<open>The batch event; \<^verbatim>\<open>encoding/json\<close> writes a map with its keys sorted.\<close>

definition batch_payload :: "string \<Rightarrow> string \<Rightarrow> string \<Rightarrow> int \<Rightarrow> string \<Rightarrow> json" where
  "batch_payload tenantID userID sessionID batchSize lastMsgID = JObj
     [(''batch_size'', jint batchSize), (''last_message_id'', jstr lastMsgID),
      (''session_id'', jstr sessionID), (''tenant_id'', jstr tenantID), (''user_id'', jstr userID)]"

definition flushSession ::
  "'r redis \<Rightarrow> codec \<Rightarrow> string \<Rightarrow> string \<Rightarrow> int \<Rightarrow> 'r world \<Rightarrow> 'r world" where
  "flushSession R cod tenantID sessionID n w =
     (case on_db (GetSessionHistory cod tenantID sessionID 1 []) w of
        (Inr (m # _), w1) \<Rightarrow>
          (let (_, w2) = ResetCognitiveBatch R tenantID sessionID w1;
               (_, w3) = XAddCognitiveBatch R tenantID
                 (Json (batch_payload tenantID (uuid_String cod (msg_UserID m)) sessionID (n * 2)
                    (uuid_String cod (msg_ID m)))) w2
           in w3)
      | (_, w1) \<Rightarrow> snd (RemoveSessionActivity R tenantID sessionID w1))"

definition flush_member :: "'r redis \<Rightarrow> codec \<Rightarrow> string \<Rightarrow> 'r world \<Rightarrow> 'r world" where
  "flush_member R cod member w =
     (case split_on CHR '':'' member of
        [tenantID, sessionID] \<Rightarrow>
          (case GetCognitiveBatchCount R tenantID sessionID w of
             (Inl _, w1) \<Rightarrow> w1
           | (Inr n, w1) \<Rightarrow>
               if n = 0 then snd (RemoveSessionActivity R tenantID sessionID w1)
               else flushSession R cod tenantID sessionID n w1)
      | _ \<Rightarrow> w)"

definition flusher_lock :: string where
  "flusher_lock = ''lock:flusher_worker''"

definition runFlushCycle :: "'r redis \<Rightarrow> codec \<Rightarrow> int \<Rightarrow> time \<Rightarrow> 'r world \<Rightarrow> 'r world" where
  "runFlushCycle R cod olderThan now w =
     (case TryLock R flusher_lock 50 w of
        (Inr True, w1) \<Rightarrow>
          (case GetInactiveSessions R olderThan 100 now w1 of
             (Inl _, w2) \<Rightarrow> w2
           | (Inr members, w2) \<Rightarrow> fold (flush_member R cod) members w2)
      | (_, w1) \<Rightarrow> w1)"

section \<open>What a cycle does\<close>

text \<open>
  A server that answers every command without an error; INCR is left out, it fails on overflow. The
  flusher does not use it.
\<close>

definition reliable :: "'r redis \<Rightarrow> bool" where
  "reliable R \<longleftrightarrow> (\<forall>c st. (\<forall>k. c \<noteq> INCR k) \<longrightarrow> is_ok (fst (R c st)))"

text \<open>No counter key holds a lock, and the counters are in range.\<close>

definition counters_ok :: "'r observers \<Rightarrow> 'r world \<Rightarrow> bool" where
  "counters_ok ob w \<longleftrightarrow> (\<forall>t s. unlocked ob (batch_key t s) w \<and> int64 (pending ob t s w))"

lemma counters_ok_cong:
  "obs_count ob (w_redis w') = obs_count ob (w_redis w) \<Longrightarrow>
   (\<And>t s. unlocked ob (batch_key t s) w' = unlocked ob (batch_key t s) w) \<Longrightarrow>
   counters_ok ob w' = counters_ok ob w"
  by (simp add: counters_ok_def pending_def)

lemma int64_0 [simp]: "int64 0"
  by (simp add: int64_def)

lemma batch_key_not_lock: "batch_key t s \<noteq> flusher_lock"
proof
  assume "batch_key t s = flusher_lock"
  then have "last (batch_key t s) = last flusher_lock" by simp
  then show False by (simp add: batch_key_def flusher_lock_def)
qed

lemma reliable_ok: "reliable R \<Longrightarrow> redis_do R c w = (r, w') \<Longrightarrow> (\<And>k. c \<noteq> INCR k) \<Longrightarrow> \<exists>y. r = Inr y"
  by (auto simp: reliable_def redis_do_def is_ok_iff split: prod.splits) (metis fst_conv)

lemma reliable_pipe:
  "reliable R \<Longrightarrow> redis_pipe R cs w = (rs, w') \<Longrightarrow> (\<And>c k. c \<in> set cs \<Longrightarrow> c \<noteq> INCR k) \<Longrightarrow> pipe_err rs = None"
proof (induction cs arbitrary: w rs)
  case (Cons c cs)
  from Cons.prems Cons.IH show ?case
    by (auto split: prod.splits dest!: reliable_ok)
qed simp

lemma split_on_two: "split_on sep m = [a, b] \<Longrightarrow> m = a @ sep # b"
proof (induction m arbitrary: a)
  case (Cons c cs)
  show ?case
  proof (cases "c = sep")
    case True
    with Cons.prems have "split_on sep cs = [b]" "a = []" by auto
    moreover have "split_on sep cs = [b] \<Longrightarrow> cs = b" for cs b
      by (induction cs arbitrary: b) (auto split: if_splits list.splits)
    ultimately show ?thesis using True by auto
  next
    case False
    with Cons show ?thesis by (auto split: list.splits)
  qed
qed simp

definition well_formed_member :: "string \<Rightarrow> bool" where
  "well_formed_member m \<longleftrightarrow> length (split_on CHR '':'' m) = 2"

context redis_store
begin

lemma append_reliable:
  assumes rel: "reliable R" and run: "AppendMessages R cod t s ms w = (e, w')"
  shows "e = None"
proof -
  have pipe: "redis_pipe R (map (\<lambda>m. RPUSH k (f m)) xs @ map (\<lambda>m. LPUSH k (f m)) ys @ [LTRIM k 0 49, EXPIRE k 7200]) v = (rs, v') \<Longrightarrow>
      pipe_err rs = None" for k xs ys v rs v' and f :: "message \<Rightarrow> bulk"
    by (erule reliable_pipe [OF rel]) auto
  obtain r w1 where one: "redis_do R (EXISTS (msgs_key t s)) w = (r, w1)" by fastforce
  with rel obtain y where y: "r = Inr y" using reliable_ok by blast
  then obtain n where n: "as_int r = Inr n" using do_exists [OF one [unfolded y]] by blast
  show ?thesis
  proof (cases "n = 0")
    case True
    then have "reloadAndAppend R cod (msgs_key t s) t s ms w1 = (e, w')"
      using run one n by (simp add: AppendMessages_def Let_def)
    then show ?thesis
      by (auto simp: reloadAndAppend_def Let_def simp del: redis_pipe.simps split: prod.splits dest!: pipe)
  next
    case False
    then show ?thesis
      using run one n pipe [of "msgs_key t s" "marshal_message cod" "[]" ms w1]
      by (auto simp: AppendMessages_def Let_def simp del: redis_pipe.simps split: prod.splits)
  qed
qed

lemma reset_reliable:
  "reliable R \<Longrightarrow> ResetCognitiveBatch R t s w = (r, w') \<Longrightarrow> r = None"
  by (auto simp: ResetCognitiveBatch_def simp del: redis_pipe.simps split: prod.splits dest!: reliable_pipe)

lemma remove_reliable:
  "reliable R \<Longrightarrow> RemoveSessionActivity R t s w = (r, w') \<Longrightarrow> r = None"
  by (auto simp: RemoveSessionActivity_def err_of_None apfst_def map_prod_def split: prod.splits
      dest!: reliable_ok)

lemma xadd_reliable:
  "reliable R \<Longrightarrow> XAddCognitiveBatch R t p w = (r, w') \<Longrightarrow> r = None"
  by (auto simp: XAddCognitiveBatch_def err_of_None apfst_def map_prod_def split: prod.splits
      dest!: reliable_ok)

text \<open>An XADD changes streams only.\<close>

lemma xadd_batch_rest:
  assumes "XAddCognitiveBatch R t p w = (None, w')"
  shows "obs_count ob (w_redis w') = obs_count ob (w_redis w) \<and> active ob w' = active ob w \<and>
    obs_string ob (w_redis w') = obs_string ob (w_redis w)"
  using assms
  by (auto simp: XAddCognitiveBatch_def redis_do_def active_def err_of_None split: prod.splits dest!: xadd_ok)

lemma counters_ok_reset:
  assumes "obs_count ob (w_redis w') = (obs_count ob (w_redis w))(k := None)"
    "obs_string ob (w_redis w') = (obs_string ob (w_redis w))(k := None)" "counters_ok ob w"
  shows "counters_ok ob w'"
  using assms by (auto simp: counters_ok_def pending_def unlocked_def)

lemma counters_ok_same:
  assumes "obs_count ob (w_redis w') = obs_count ob (w_redis w)"
    "obs_string ob (w_redis w') = obs_string ob (w_redis w)" "counters_ok ob w"
  shows "counters_ok ob w'"
  using assms by (simp add: counters_ok_def pending_def unlocked_def)

text \<open>Whether its messages are found or not, a flushed session leaves the active set.\<close>

lemma flushSession_active:
  assumes rel: "reliable R" and ok: "counters_ok ob w"
  shows "active ob (flushSession R cod t s n w) = zset_rem (active_member t s) (active ob w) \<and>
    counters_ok ob (flushSession R cod t s n w)"
proof -
  obtain q w1 where q: "on_db (GetSessionHistory cod t s 1 []) w = (q, w1)" by fastforce
  then have w1: "w_redis w1 = w_redis w" by (rule on_db_redis [THEN conjunct1])
  show ?thesis
  proof (cases "\<exists>m ms. q = Inr (m # ms)")
    case True
    then obtain m ms where m: "q = Inr (m # ms)" by blast
    let ?p = "Json (batch_payload t (uuid_String cod (msg_UserID m)) s (n * 2) (uuid_String cod (msg_ID m)))"
    obtain e2 w2 where two: "ResetCognitiveBatch R t s w1 = (e2, w2)" by fastforce
    obtain e3 w3 where three: "XAddCognitiveBatch R t ?p w2 = (e3, w3)" by fastforce
    have "flushSession R cod t s n w = w3"
      using q m two three by (simp add: flushSession_def)
    moreover have "counters_ok ob w3" "active ob w3 = zset_rem (active_member t s) (active ob w)"
      using reset_ok [of t s w1 w2] xadd_batch_rest [of t ?p w2 w3] two three w1 ok
        reset_reliable [OF rel two] xadd_reliable [OF rel three]
      by (auto simp: active_def intro!: counters_ok_reset [where k = "batch_key t s" and w = w])
    ultimately show ?thesis by simp
  next
    case False
    obtain e2 w2 where two: "RemoveSessionActivity R t s w1 = (e2, w2)" by fastforce
    have "flushSession R cod t s n w = w2"
      using q False two by (auto simp: flushSession_def split: sum.splits list.splits)
    moreover have "counters_ok ob w2" "active ob w2 = zset_rem (active_member t s) (active ob w)"
      using remove_ok [of t s w1 w2] two w1 ok remove_reliable [OF rel two]
      by (auto simp: active_def intro!: counters_ok_same [where w = w])
    ultimately show ?thesis by simp
  qed
qed

lemma count_reliable:
  assumes "reliable R" "counters_ok ob w" "GetCognitiveBatchCount R t s w = (r, w')"
  shows "r = Inr (pending ob t s w)"
proof -
  obtain q w1 where one: "redis_do R (GET (batch_key t s)) w = (q, w1)" by fastforce
  with assms(1) obtain y where y: "q = Inr y" using reliable_ok by blast
  then have "y = (case obs_count ob (w_redis w) (batch_key t s) of
        None \<Rightarrow> RNil | Some n \<Rightarrow> RBulk (Text (Itoa n)))"
    using one assms(2) by (auto simp: redis_do_def counters_ok_def unlocked_def split: prod.splits dest!: get_ok)
  moreover have "int64 (pending ob t s w)" using assms(2) by (simp add: counters_ok_def)
  ultimately show ?thesis
    using assms(3) one y by (auto simp: GetCognitiveBatchCount_def pending_def split: option.splits)
qed

lemma flush_member_active:
  assumes rel: "reliable R" and ok: "counters_ok ob w"
  shows "active ob (flush_member R cod m w) =
      (if well_formed_member m then zset_rem m (active ob w) else active ob w) \<and>
    counters_ok ob (flush_member R cod m w)"
proof (cases "well_formed_member m")
  case True
  then obtain t s where ts: "split_on CHR '':'' m = [t, s]"
    by (auto simp: well_formed_member_def length_Suc_conv numeral_2_eq_2)
  then have m: "m = active_member t s" by (simp add: active_member_def split_on_two)
  obtain r w1 where one: "GetCognitiveBatchCount R t s w = (r, w1)" by fastforce
  then have r: "r = Inr (pending ob t s w)" using count_reliable rel ok by blast
  have w1: "obs_count ob (w_redis w1) = obs_count ob (w_redis w)" "active ob w1 = active ob w"
    "obs_string ob (w_redis w1) = obs_string ob (w_redis w)"
    using batch_count_ok [of t s w _ w1] one r ok by (auto simp: counters_ok_def)
  have ok1: "counters_ok ob w1" using counters_ok_same w1(1,3) ok by blast
  show ?thesis
  proof (cases "pending ob t s w = 0")
    case True
    obtain e2 w2 where two: "RemoveSessionActivity R t s w1 = (e2, w2)" by fastforce
    have "flush_member R cod m w = w2"
      using ts one r True two by (simp add: flush_member_def)
    moreover have "counters_ok ob w2" "active ob w2 = zset_rem m (active ob w)"
      using remove_ok [of t s w1 w2] two w1 ok1 remove_reliable [OF rel two] m
      by (auto intro!: counters_ok_same [where w = w1])
    ultimately show ?thesis using \<open>well_formed_member m\<close> by simp
  next
    case False
    have "flush_member R cod m w = flushSession R cod t s (pending ob t s w) w1"
      using ts one r False by (simp add: flush_member_def)
    with flushSession_active [OF rel ok1, of cod t s] w1 m \<open>well_formed_member m\<close> show ?thesis by simp
  qed
next
  case False
  then have "flush_member R cod m w = w"
    by (auto simp: well_formed_member_def flush_member_def split: list.splits)
  with False ok show ?thesis by simp
qed

lemma flush_members_active:
  assumes "reliable R"
  shows "counters_ok ob w \<Longrightarrow>
    active ob (fold (flush_member R cod) ms w) =
      filter (\<lambda>p. \<not> (snd p \<in> set ms \<and> well_formed_member (snd p))) (active ob w)"
proof (induction ms arbitrary: w)
  case (Cons m ms)
  then show ?case
    using flush_member_active [OF assms Cons.prems, of cod m]
    by (auto simp: zset_rem_def conj_commute intro!: filter_cong)
qed simp

lemma lock_reliable:
  assumes "reliable R" "TryLock R key ttl w = (r, w')"
  shows "r = Inr (key_free ob key w)"
proof -
  obtain q w1 where one: "redis_do R (SETNX key ''locked'' ttl) w = (q, w1)" by fastforce
  with assms(1) obtain y where y: "q = Inr y" using reliable_ok by blast
  then have "y = RInt (if key_free ob key w then 1 else 0)"
    using one by (auto simp: redis_do_def key_free_def split: prod.splits if_splits dest!: setnx_ok)
  with assms(2) one y show ?thesis by (auto simp: TryLock_def split: if_splits)
qed

lemma inactive_reliable:
  assumes "reliable R" "GetInactiveSessions R older limit now w = (r, w')"
  shows "r = Inr (zset_upto ((now - older) div second) 0 limit (active ob w))"
proof -
  obtain q w1 where one: "redis_do R (ZRANGEBYSCORE activeKey ((now - older) div second) 0 limit) w = (q, w1)"
    by fastforce
  with assms(1) obtain y where y: "q = Inr y" using reliable_ok by blast
  with one assms(2) show ?thesis
    by (auto simp: GetInactiveSessions_def redis_do_def active_def split: prod.splits dest!: zrange_ok)
qed

text \<open>One cycle: the lock is taken, and exactly the due members of the form \<^verbatim>\<open>tenant:session\<close> leave the set.\<close>

lemma cycle_active:
  assumes rel: "reliable R" and ok: "counters_ok ob w" and free: "key_free ob flusher_lock w"
  shows "active ob (runFlushCycle R cod olderThan now w) =
    filter (\<lambda>p. \<not> (snd p \<in> set (zset_upto ((now - olderThan) div second) 0 100 (active ob w)) \<and>
       well_formed_member (snd p))) (active ob w)"
proof -
  obtain r w1 where one: "TryLock R flusher_lock 50 w = (r, w1)" by fastforce
  then have r: "r = Inr True" using lock_reliable rel free by blast
  have w1: "active ob w1 = active ob w" "obs_count ob (w_redis w1) = obs_count ob (w_redis w)"
    "\<And>k. k \<noteq> flusher_lock \<Longrightarrow> obs_string ob (w_redis w1) k = obs_string ob (w_redis w) k"
    using lock_ok [OF one [unfolded r]] by auto
  have ok1: "counters_ok ob w1"
    using ok w1 batch_key_not_lock by (auto simp: counters_ok_def pending_def unlocked_def)
  obtain q w2 where two: "GetInactiveSessions R olderThan 100 now w1 = (q, w2)" by fastforce
  then have q: "q = Inr (zset_upto ((now - olderThan) div second) 0 100 (active ob w1))"
    using inactive_reliable rel by blast
  have w2: "active ob w2 = active ob w" "counters_ok ob w2"
    using inactive_ok [OF two [unfolded q]] w1 ok1 by (auto intro: counters_ok_same [where w = w1])
  show ?thesis
    using one r two q w1(1) flush_members_active [OF rel w2(2)] w2(1)
    by (simp add: runFlushCycle_def)
qed

lemma cycle_locked:
  assumes "\<not> key_free ob flusher_lock w" "runFlushCycle R cod olderThan now w = w'"
    "is_ok (fst (TryLock R flusher_lock 50 w))"
  shows "active ob w' = active ob w \<and> obs_count ob (w_redis w') = obs_count ob (w_redis w) \<and>
    same_lists_streams ob w w' \<and> w_db w' = w_db w"
proof -
  obtain r w1 where one: "TryLock R flusher_lock 50 w = (r, w1)" by fastforce
  with assms(3) obtain b where b: "r = Inr b" by (auto simp: is_ok_iff)
  with one assms lock_ok [OF one [unfolded b]] show ?thesis
    by (auto simp: runFlushCycle_def)
qed

text \<open>What a flush publishes.\<close>

lemma flush_publishes:
  assumes rel: "reliable R"
    and newest: "fst (GetSessionHistory cod t s 1 [] (w_db w)) = Inr (m # ms)"
    and room: "length (obs_stream ob (w_redis w) (t @ '':stream:cognitive'')) < 10000"
    and w': "w' = flushSession R cod t s n w"
  shows "obs_stream ob (w_redis w') (t @ '':stream:cognitive'') =
      obs_stream ob (w_redis w) (t @ '':stream:cognitive'') @
      [[(''payload'', Json (batch_payload t (uuid_String cod (msg_UserID m)) s (n * 2) (uuid_String cod (msg_ID m)))),
        (''retries'', Text ''0'')]] \<and>
    pending ob t s w' = 0 \<and> active_member t s \<notin> snd ` set (active ob w')"
proof -
  let ?p = "Json (batch_payload t (uuid_String cod (msg_UserID m)) s (n * 2) (uuid_String cod (msg_ID m)))"
  obtain q w1 where q: "on_db (GetSessionHistory cod t s 1 []) w = (q, w1)" by fastforce
  then have w1: "w_redis w1 = w_redis w" "q = Inr (m # ms)"
    using on_db_redis [OF q] newest by auto
  obtain e2 w2 where two: "ResetCognitiveBatch R t s w1 = (e2, w2)" by fastforce
  obtain e3 w3 where three: "XAddCognitiveBatch R t ?p w2 = (e3, w3)" by fastforce
  have fl: "w' = w3" using q w1(2) two three w' by (simp add: flushSession_def)
  have e: "e2 = None" "e3 = None"
    using reset_reliable [OF rel two] xadd_reliable [OF rel three] by auto
  have r2: "obs_count ob (w_redis w2) = (obs_count ob (w_redis w))(batch_key t s := None)"
    "active ob w2 = zset_rem (active_member t s) (active ob w)"
    "obs_stream ob (w_redis w2) (t @ '':stream:cognitive'') = obs_stream ob (w_redis w) (t @ '':stream:cognitive'')"
    using reset_ok [OF two [unfolded e(1)]] w1(1) batch_key_not_stream [of t s t]
    by (auto simp: active_def)
  show ?thesis
    using xadd_batch_ok [OF three [unfolded e(2)]] r2 room fl
    by (auto simp: pending_def zset_mem_rem)
qed

end

end
