(* ===== verification/Validator.thy ===== *)
theory Validator
  imports Model
begin

text \<open>
  \<^verbatim>\<open>internal/security/validator.go\<close>: which facts extracted by the language model are accepted. The
  three injection patterns are regular expressions of one shape, some word, a gap, some word, with
  the flag \<^verbatim>\<open>(?i)\<close>; the model gives that shape the meaning it has in package regexp, on the runes of
  the text: letters match up to case folding, a dot matches any rune but a newline, and \<^verbatim>\<open>\s\<close> matches
  tab, newline, form feed, carriage return and space.
\<close>

section \<open>Patterns\<close>

datatype gap = Dots nat | Spaces

datatype pattern = Pattern "string list" gap "string list"

fun lit_rest :: "string \<Rightarrow> nat list \<Rightarrow> nat list option" where
  "lit_rest [] rs = Some rs"
| "lit_rest (p # ps) [] = None"
| "lit_rest (p # ps) (r # rs) = (if fold_rune r = fold_rune (byte p) then lit_rest ps rs else None)"

definition alt_rests :: "string list \<Rightarrow> nat list \<Rightarrow> nat list list" where
  "alt_rests ws rs = List.map_filter (\<lambda>w. lit_rest w rs) ws"

fun dots_rests :: "nat \<Rightarrow> nat list \<Rightarrow> nat list list" where
  "dots_rests 0 rs = [rs]"
| "dots_rests (Suc n) [] = [[]]"
| "dots_rests (Suc n) (r # rs) = (r # rs) # (if r = 10 then [] else dots_rests n rs)"

definition re_space :: "nat \<Rightarrow> bool" where
  "re_space r \<longleftrightarrow> r = 9 \<or> r = 10 \<or> r = 12 \<or> r = 13 \<or> r = 32"

fun spaces_rests :: "nat list \<Rightarrow> nat list list" where
  "spaces_rests [] = [[]]"
| "spaces_rests (r # rs) = (r # rs) # (if re_space r then spaces_rests rs else [])"

fun gap_rests :: "gap \<Rightarrow> nat list \<Rightarrow> nat list list" where
  "gap_rests (Dots n) rs = dots_rests n rs"
| "gap_rests Spaces rs = spaces_rests rs"

fun match_here :: "pattern \<Rightarrow> nat list \<Rightarrow> bool" where
  "match_here (Pattern ws g vs) rs =
     list_ex (\<lambda>a. list_ex (\<lambda>b. alt_rests vs b \<noteq> []) (gap_rests g a)) (alt_rests ws rs)"

fun match_runes :: "pattern \<Rightarrow> nat list \<Rightarrow> bool" where
  "match_runes p [] = match_here p []"
| "match_runes p (r # rs) = (match_here p (r # rs) \<or> match_runes p rs)"

text \<open>\<^verbatim>\<open>Regexp.MatchString\<close>: the pattern matches somewhere in the text.\<close>

definition MatchString :: "pattern \<Rightarrow> string \<Rightarrow> bool" where
  "MatchString p s = match_runes p (runes s)"

section \<open>The validator\<close>

definition maxEntityNameLen :: nat where
  "maxEntityNameLen = 100"

definition maxAttributeLen :: nat where
  "maxAttributeLen = 50"

definition maxValueLen :: nat where
  "maxValueLen = 500"

definition allowedTypes :: "string list" where
  "allowedTypes = [''person'', ''place'', ''org'', ''contact'', ''thing'', ''self'']"

definition allowedAttributes :: "string list" where
  "allowedAttributes = [''email'', ''phone'', ''job'', ''birthday'', ''address'', ''likes'',
     ''owns'', ''works_at'', ''relationship'', ''age'', ''name'']"

definition injectionPatterns :: "pattern list" where
  "injectionPatterns =
     [Pattern [''ignore'', ''forget'', ''disregard''] (Dots 30) [''previous'', ''above'', ''instruction''],
      Pattern [''you are'', ''act as'', ''pretend''] (Dots 30) [''admin'', ''root'', ''system''],
      Pattern [''system''] Spaces [''prompt'']]"

definition ValidateExtractedFact :: "extracted_fact \<Rightarrow> err option" where
  "ValidateExtractedFact f =
     (if length (xf_EntityName f) = 0 \<or> length (xf_EntityName f) > maxEntityNameLen
      then Some (Err ''invalid entity_name length'')
      else if xf_EntityType f \<notin> set allowedTypes
      then Some (Err (''unknown entity_type: '' @ xf_EntityType f))
      else if xf_Attribute f \<notin> set allowedAttributes
      then Some (Err (''unknown attribute: '' @ xf_Attribute f))
      else if length (xf_Value f) > maxValueLen then Some (Err ''value too long'')
      else if list_ex (\<lambda>pat. MatchString pat (xf_Value f) \<or> MatchString pat (xf_EntityName f)) injectionPatterns
      then Some (Err ''potential injection detected'')
      else None)"

section \<open>What the patterns mean\<close>

definition folds_to :: "nat list \<Rightarrow> string \<Rightarrow> bool" where
  "folds_to rs w \<longleftrightarrow> map fold_rune rs = map (fold_rune \<circ> byte) w"

fun gap_ok :: "gap \<Rightarrow> nat list \<Rightarrow> bool" where
  "gap_ok (Dots n) mid \<longleftrightarrow> length mid \<le> n \<and> 10 \<notin> set mid"
| "gap_ok Spaces mid \<longleftrightarrow> list_all re_space mid"

lemma lit_rest_iff: "lit_rest w rs = Some b \<longleftrightarrow> (\<exists>a. rs = a @ b \<and> folds_to a w)"
proof (induction w rs rule: lit_rest.induct)
  case (1 rs)
  then show ?case by (auto simp: folds_to_def)
next
  case (2 p ps)
  then show ?case by (auto simp: folds_to_def)
next
  case (3 p ps r rs)
  show ?case
  proof
    assume "lit_rest (p # ps) (r # rs) = Some b"
    then obtain a where "rs = a @ b" "folds_to a ps" "fold_rune r = fold_rune (byte p)"
      using 3 by (auto split: if_splits)
    then have "r # rs = (r # a) @ b \<and> folds_to (r # a) (p # ps)" by (simp add: folds_to_def)
    then show "\<exists>a. r # rs = a @ b \<and> folds_to a (p # ps)" by blast
  next
    assume "\<exists>a. r # rs = a @ b \<and> folds_to a (p # ps)"
    then obtain a where a: "r # rs = a @ b" "folds_to a (p # ps)" by blast
    then obtain r' a' where "a = r' # a'" by (cases a) (auto simp: folds_to_def)
    with a 3 show "lit_rest (p # ps) (r # rs) = Some b" by (auto simp: folds_to_def)
  qed
qed

lemma alt_rests_iff: "b \<in> set (alt_rests ws rs) \<longleftrightarrow> (\<exists>w \<in> set ws. \<exists>a. rs = a @ b \<and> folds_to a w)"
proof -
  have "b \<in> set (alt_rests ws rs) \<longleftrightarrow> (\<exists>w \<in> set ws. lit_rest w rs = Some b)"
    by (induction ws) (auto simp: alt_rests_def List.map_filter_def)
  then show ?thesis by (simp add: lit_rest_iff)
qed

lemma dots_rests_iff: "b \<in> set (dots_rests n rs) \<longleftrightarrow> (\<exists>a. rs = a @ b \<and> gap_ok (Dots n) a)"
proof (induction n rs rule: dots_rests.induct)
  case (3 n r rs)
  show ?case
  proof
    assume "b \<in> set (dots_rests (Suc n) (r # rs))"
    then consider "b = r # rs" | a where "r \<noteq> 10" "rs = a @ b" "gap_ok (Dots n) a"
      using 3 by (auto split: if_splits)
    then show "\<exists>a. r # rs = a @ b \<and> gap_ok (Dots (Suc n)) a"
    proof cases
      case 1
      then show ?thesis by (intro exI [of _ "[]"]) simp
    next
      case 2
      then show ?thesis by (intro exI [of _ "r # a"]) simp
    qed
  next
    assume "\<exists>a. r # rs = a @ b \<and> gap_ok (Dots (Suc n)) a"
    then obtain a where a: "r # rs = a @ b" "gap_ok (Dots (Suc n)) a" by blast
    show "b \<in> set (dots_rests (Suc n) (r # rs))"
    proof (cases a)
      case Nil
      with a have "b = r # rs" by simp
      then show ?thesis by simp
    next
      case (Cons r' a')
      with a have "r \<noteq> 10" "rs = a' @ b" "gap_ok (Dots n) a'" by auto
      then have "b \<in> set (dots_rests n rs)" using 3 by blast
      with \<open>r \<noteq> 10\<close> show ?thesis by simp
    qed
  qed
qed auto

lemma spaces_rests_iff: "b \<in> set (spaces_rests rs) \<longleftrightarrow> (\<exists>a. rs = a @ b \<and> gap_ok Spaces a)"
proof (induction rs)
  case (Cons r rs)
  show ?case
  proof
    assume "b \<in> set (spaces_rests (r # rs))"
    then consider "b = r # rs" | a where "re_space r" "rs = a @ b" "gap_ok Spaces a"
      using Cons by (auto split: if_splits)
    then show "\<exists>a. r # rs = a @ b \<and> gap_ok Spaces a"
    proof cases
      case 1
      then show ?thesis by (intro exI [of _ "[]"]) simp
    next
      case 2
      then show ?thesis by (intro exI [of _ "r # a"]) simp
    qed
  next
    assume "\<exists>a. r # rs = a @ b \<and> gap_ok Spaces a"
    then obtain a where a: "r # rs = a @ b" "gap_ok Spaces a" by blast
    show "b \<in> set (spaces_rests (r # rs))"
    proof (cases a)
      case Nil
      with a have "b = r # rs" by simp
      then show ?thesis by simp
    next
      case (Cons r' a')
      with a Cons.IH show ?thesis by auto
    qed
  qed
qed simp

lemma gap_rests_iff: "b \<in> set (gap_rests g rs) \<longleftrightarrow> (\<exists>a. rs = a @ b \<and> gap_ok g a)"
  by (cases g) (simp_all only: gap_rests.simps dots_rests_iff spaces_rests_iff)

definition occurs :: "pattern \<Rightarrow> nat list \<Rightarrow> bool" where
  "occurs p rs = (case p of Pattern ws g vs \<Rightarrow>
     (\<exists>pre a mid b post. rs = pre @ a @ mid @ b @ post \<and>
        (\<exists>w \<in> set ws. folds_to a w) \<and> gap_ok g mid \<and> (\<exists>v \<in> set vs. folds_to b v)))"

lemma match_here_iff:
  "match_here (Pattern ws g vs) rs \<longleftrightarrow>
     (\<exists>a mid b post. rs = a @ mid @ b @ post \<and>
        (\<exists>w \<in> set ws. folds_to a w) \<and> gap_ok g mid \<and> (\<exists>v \<in> set vs. folds_to b v))"
proof -
  have ne: "alt_rests vs r \<noteq> [] \<longleftrightarrow> (\<exists>b post. r = b @ post \<and> (\<exists>v \<in> set vs. folds_to b v))" for r
  proof -
    have "alt_rests vs r \<noteq> [] \<longleftrightarrow> (\<exists>x. x \<in> set (alt_rests vs r))"
      by (cases "alt_rests vs r") auto
    then show ?thesis by (auto simp: alt_rests_iff)
  qed
  show ?thesis
    by (simp only: match_here.simps list_ex_iff ne Bex_def alt_rests_iff gap_rests_iff) blast
qed

lemma match_runes_iff: "match_runes p rs \<longleftrightarrow> (\<exists>pre suf. rs = pre @ suf \<and> match_here p suf)"
proof (induction rs)
  case (Cons r rs)
  show ?case
  proof
    assume "match_runes p (r # rs)"
    then have "match_here p (r # rs) \<or> match_runes p rs" by simp
    then consider "match_here p (r # rs)" | "\<exists>pre suf. rs = pre @ suf \<and> match_here p suf"
      using Cons.IH by blast
    then show "\<exists>pre suf. r # rs = pre @ suf \<and> match_here p suf"
    proof cases
      case 1
      then show ?thesis by (metis append_Nil)
    next
      case 2
      then show ?thesis by (metis append_Cons)
    qed
  next
    assume "\<exists>pre suf. r # rs = pre @ suf \<and> match_here p suf"
    then obtain pre suf where ps: "r # rs = pre @ suf" "match_here p suf" by blast
    show "match_runes p (r # rs)"
    proof (cases pre)
      case Nil
      with ps have "match_here p (r # rs)" by simp
      then show ?thesis by simp
    next
      case (Cons x pre')
      with ps Cons.IH show ?thesis by auto
    qed
  qed
qed simp

lemma MatchString_iff: "MatchString p s \<longleftrightarrow> occurs p (runes s)"
proof (cases p)
  case (Pattern ws g vs)
  show ?thesis
    unfolding MatchString_def match_runes_iff Pattern match_here_iff occurs_def pattern.case
    by blast
qed

section \<open>What validation guarantees\<close>

text \<open>The contract of an accepted fact.\<close>

definition acceptable :: "extracted_fact \<Rightarrow> bool" where
  "acceptable f \<longleftrightarrow>
     xf_EntityName f \<noteq> [] \<and> length (xf_EntityName f) \<le> 100 \<and> length (xf_Value f) \<le> 500 \<and>
     xf_EntityType f \<in> set allowedTypes \<and> xf_Attribute f \<in> set allowedAttributes \<and>
     (\<forall>pat \<in> set injectionPatterns.
        \<not> occurs pat (runes (xf_Value f)) \<and> \<not> occurs pat (runes (xf_EntityName f)))"

lemma validate_iff: "ValidateExtractedFact f = None \<longleftrightarrow> acceptable f"
  by (auto simp: ValidateExtractedFact_def acceptable_def maxEntityNameLen_def maxValueLen_def
      list_ex_iff MatchString_iff not_less)

lemma valid_attribute: "ValidateExtractedFact f = None \<Longrightarrow> xf_Attribute f \<in> set allowedAttributes"
  by (simp add: validate_iff acceptable_def)

lemma valid_attribute_length: "ValidateExtractedFact f = None \<Longrightarrow> length (xf_Attribute f) \<le> 12"
  by (auto simp: validate_iff acceptable_def allowedAttributes_def)

end
