(* ===== verification/Llm.thy ===== *)
theory Llm
  imports GoJsonText
begin

text \<open>
  The language-model clients: \<^verbatim>\<open>internal/llm/llm.go\<close>. The HTTP transport (request construction,
  connection, reading the body) is an argument, a function from the request to an error or to the
  status and the body; the JSON each client sends and the decoding of what comes back are modelled.
  The code ignores the error of that decoding, so what was filled before it counts.
\<close>

section \<open>Requests and transport\<close>

record LLMMessage =
  lm_Role :: string
  lm_Content :: string

record LLMRequest =
  lr_Messages :: "LLMMessage list"

text \<open>The interface \<^verbatim>\<open>Client\<close>.\<close>

record llm_client =
  Generate :: "LLMRequest \<Rightarrow> (string \<times> int) res"
  Embed :: "string \<Rightarrow> vec res"
  EmbedBatch :: "string list \<Rightarrow> vec list res"
  ModelName :: string

definition BuildLLMRequest :: "string \<Rightarrow> string \<Rightarrow> LLMRequest" where
  "BuildLLMRequest systemPrompt userContent =
     \<lparr>lr_Messages = [\<lparr>lm_Role = ''system'', lm_Content = systemPrompt\<rparr>,
                    \<lparr>lm_Role = ''user'', lm_Content = userContent\<rparr>]\<rparr>"

record http_request =
  hr_url :: string
  hr_headers :: "(string \<times> string) list"
  hr_body :: json

type_synonym transport = "http_request \<Rightarrow> (int \<times> string) res"

definition json_header :: "string \<times> string" where
  "json_header = (''Content-Type'', ''application/json'')"

text \<open>
  The frame of every call: send, fail on a transport error or on a status other than 200, decode
  the body into a zero struct. A body that is not JSON leaves the struct zero.
\<close>

definition call_api :: "transport \<Rightarrow> string \<Rightarrow> 's field list \<Rightarrow> 's \<Rightarrow> http_request \<Rightarrow> 's res" where
  "call_api http what fs zero rq =
     (case http rq of
        Inl e \<Rightarrow> Inl e
      | Inr (status, body) \<Rightarrow>
          if status \<noteq> 200 then Inl (Err (what @ '' error: '' @ body))
          else Inr (case parse_json body of None \<Rightarrow> zero | Some j \<Rightarrow> snd (unmarshal_struct fs zero j)))"

section \<open>Decoders for nested values\<close>

definition dec_struct :: "'a field list \<Rightarrow> ('s \<Rightarrow> 'a) \<Rightarrow> ('a \<Rightarrow> 's \<Rightarrow> 's) \<Rightarrow> json \<Rightarrow> 's \<Rightarrow> 's step" where
  "dec_struct fs get upd j s =
     (case j of
        JObj kvs \<Rightarrow> Set (upd (snd (decode_fields fs kvs False (get s))) s)
      | JNull \<Rightarrow> Set s
      | _ \<Rightarrow> TypeMismatch)"

definition dec_slice :: "'a field list \<Rightarrow> 'a \<Rightarrow> ('a list \<Rightarrow> 's \<Rightarrow> 's) \<Rightarrow> json \<Rightarrow> 's \<Rightarrow> 's step" where
  "dec_slice fs zero upd j s =
     (case j of
        JArr js \<Rightarrow> Set (upd (map (\<lambda>j. snd (unmarshal_struct fs zero j)) js) s)
      | JNull \<Rightarrow> Set (upd [] s)
      | _ \<Rightarrow> TypeMismatch)"

text \<open>
  A number literal as a \<^verbatim>\<open>float32\<close>, kept exact; a magnitude that rounds to infinity is an error.
\<close>

definition digits_rat :: "string \<Rightarrow> rat" where
  "digits_rat ds = foldl (\<lambda>a c. a * 10 + of_nat (byte c - 48)) 0 ds"

definition float_literal :: "string \<Rightarrow> rat" where
  "float_literal s =
     (let neg = take 1 s = ''-''; u = (if neg then drop 1 s else s);
          i = takeWhile is_digit u; r = dropWhile is_digit u;
          f = (if take 1 r = ''.'' then takeWhile is_digit (drop 1 r) else []);
          r2 = (if take 1 r = ''.'' then dropWhile is_digit (drop 1 r) else r);
          ex = drop 1 r2; eneg = take 1 ex = ''-'';
          e = nat \<lfloor>digits_rat (if take 1 ex \<in> {''-'', ''+''} then drop 1 ex else ex)\<rfloor>;
          m = digits_rat i + digits_rat f / 10 ^ length f;
          v = (if r2 = [] then m else if eneg then m / 10 ^ e else m * 10 ^ e)
      in if neg then - v else v)"

definition max_float32 :: rat where
  "max_float32 = (2 ^ 25 - 1) * 2 ^ 103"

definition dec_float32 :: "json \<Rightarrow> rat" where
  "dec_float32 j =
     (case j of
        JNum l \<Rightarrow> if \<bar>float_literal l\<bar> < max_float32 then float_literal l else 0
      | _ \<Rightarrow> 0)"

definition dec_floats :: "(vec \<Rightarrow> 's \<Rightarrow> 's) \<Rightarrow> json \<Rightarrow> 's \<Rightarrow> 's step" where
  "dec_floats upd j s =
     (case j of JArr js \<Rightarrow> Set (upd (map dec_float32 js) s) | JNull \<Rightarrow> Set (upd [] s) | _ \<Rightarrow> TypeMismatch)"

section \<open>Gemini\<close>

definition vector_size :: nat where
  "vector_size = 1536"

text \<open>\<^verbatim>\<open>map[string]any{"text": s}\<close> as the one part.\<close>

definition gemini_parts :: "string \<Rightarrow> json" where
  "gemini_parts s = JArr [JObj [(''text'', jstr s)]]"

definition gemini_content :: "LLMMessage \<Rightarrow> json" where
  "gemini_content m =
     JObj [(''parts'', gemini_parts (lm_Content m)),
           (''role'', JStr (if lm_Role m = ''assistant'' then ''model'' else ''user''))]"

text \<open>The last system message is the instruction; the other messages are the contents, nil when there is none.\<close>

definition gemini_payload :: "LLMRequest \<Rightarrow> json" where
  "gemini_payload req =
     (let system = filter (\<lambda>m. lm_Role m = ''system'') (lr_Messages req);
          rest = filter (\<lambda>m. lm_Role m \<noteq> ''system'') (lr_Messages req)
      in JObj ([(''contents'', if rest = [] then JNull else JArr (map gemini_content rest)),
                (''generationConfig'', JObj [(''responseMimeType'', JStr ''application/json'')])] @
               (if system = [] then []
                else [(''systemInstruction'', JObj [(''parts'', gemini_parts (lm_Content (last system)))])])))"

definition gemini_url :: "string \<Rightarrow> string \<Rightarrow> string" where
  "gemini_url method key =
     ''https://generativelanguage.googleapis.com/v1beta/models/'' @ method @ ''?key='' @ key"

type_synonym gemini_result = "string list list \<times> int"   \<comment> \<open>candidates' part texts, total tokens\<close>

definition gemini_fields :: "gemini_result field list" where
  "gemini_fields =
     [(''candidates'', dec_slice [(''content'', dec_struct
         [(''parts'', dec_slice [(''text'', dec_string (\<lambda>t _. t))] [] (\<lambda>ps _. ps))] (\<lambda>p. p) (\<lambda>p _. p))]
         [] (\<lambda>cs r. (cs, snd r))),
      (''usageMetadata'', dec_struct [(''totalTokenCount'', dec_int (\<lambda>n _. n))] snd (\<lambda>n r. (fst r, n)))]"

definition first_candidate :: "gemini_result \<Rightarrow> string \<times> int" where
  "first_candidate r =
     (case fst r of
        (t # _) # _ \<Rightarrow> (t, snd r)
      | _ \<Rightarrow> (''[]'', snd r))"

definition GeminiGenerate :: "transport \<Rightarrow> string \<Rightarrow> LLMRequest \<Rightarrow> (string \<times> int) res" where
  "GeminiGenerate http key req =
     map_sum id first_candidate (call_api http ''gemini generate'' gemini_fields ([], 0)
       \<lparr>hr_url = gemini_url ''gemini-2.5-flash-lite:generateContent'' key, hr_headers = [json_header],
        hr_body = gemini_payload req\<rparr>)"

definition pad_vector :: "vec \<Rightarrow> vec" where
  "pad_vector v = v @ replicate (vector_size - length v) 0"

definition GeminiEmbed :: "transport \<Rightarrow> string \<Rightarrow> string \<Rightarrow> vec res" where
  "GeminiEmbed http key text =
     map_sum id pad_vector (call_api http ''gemini embed''
       [(''embedding'', dec_struct [(''values'', dec_floats (\<lambda>v _. v))] (\<lambda>v. v) (\<lambda>v _. v))] []
       \<lparr>hr_url = gemini_url ''text-embedding-004:embedContent'' key, hr_headers = [json_header],
        hr_body = JObj [(''content'', JObj [(''parts'', gemini_parts text)]),
                        (''model'', JStr ''models/text-embedding-004'')]\<rparr>)"

definition GeminiEmbedBatch :: "transport \<Rightarrow> string \<Rightarrow> string list \<Rightarrow> vec list res" where
  "GeminiEmbedBatch http key texts =
     map_sum id (map pad_vector) (call_api http ''gemini batch embed''
       [(''embeddings'', dec_slice [(''values'', dec_floats (\<lambda>v _. v))] [] (\<lambda>vs _. vs))] []
       \<lparr>hr_url = gemini_url ''text-embedding-004:batchEmbedContents'' key, hr_headers = [json_header],
        hr_body = JObj [(''requests'', JArr (map (\<lambda>t. JObj [(''model'', JStr ''models/text-embedding-004''),
          (''content'', JObj [(''parts'', gemini_parts t)])]) texts))]\<rparr>)"

section \<open>OpenAI and Azure OpenAI\<close>

definition message_object :: "LLMMessage \<Rightarrow> json" where
  "message_object m = JObj [(''role'', jstr (lm_Role m)), (''content'', jstr (lm_Content m))]"

definition json_mode :: "string \<times> json" where
  "json_mode = (''response_format'', JObj [(''type'', JStr ''json_object'')])"

type_synonym openai_result = "string list \<times> int"   \<comment> \<open>choices' message contents, total tokens\<close>

definition openai_fields :: "openai_result field list" where
  "openai_fields =
     [(''choices'', dec_slice [(''message'', dec_struct [(''content'', dec_string (\<lambda>t _. t))] (\<lambda>m. m) (\<lambda>m _. m))]
         [] (\<lambda>cs r. (cs, snd r))),
      (''usage'', dec_struct [(''total_tokens'', dec_int (\<lambda>n _. n))] snd (\<lambda>n r. (fst r, n)))]"

definition first_choice :: "openai_result \<Rightarrow> string \<times> int" where
  "first_choice r = (case fst r of t # _ \<Rightarrow> (t, snd r) | [] \<Rightarrow> (''[]'', snd r))"

definition data_fields :: "(int \<times> vec) list field list" where
  "data_fields =
     [(''data'', dec_slice [(''index'', dec_int (\<lambda>i d. (i, snd d))), (''embedding'', dec_floats (\<lambda>v d. (fst d, v)))]
         (0, []) (\<lambda>ds _. ds))]"

text \<open>
  \<^verbatim>\<open>out[d.Index] = d.Embedding\<close> for each index below the number of texts; a negative index is out of
  range and panics.
\<close>

fun place :: "(int \<times> vec) list \<Rightarrow> vec list \<Rightarrow> vec list res" where
  "place [] out = Inr out"
| "place ((i, v) # ds) out =
     (if i < int (length out)
      then (if i < 0 then Inl (Panic ''index out of range'') else place ds (out[nat i := v]))
      else place ds out)"

definition batch_vectors :: "string list \<Rightarrow> (int \<times> vec) list res \<Rightarrow> vec list res" where
  "batch_vectors texts r = (case r of Inl e \<Rightarrow> Inl e | Inr ds \<Rightarrow> place ds (replicate (length texts) []))"

definition first_vector :: "(int \<times> vec) list \<Rightarrow> vec" where
  "first_vector ds = (case ds of (_, v) # _ \<Rightarrow> v | [] \<Rightarrow> replicate vector_size 0)"

definition openai_request :: "string \<Rightarrow> string \<Rightarrow> (string \<times> json) list \<Rightarrow> http_request" where
  "openai_request path key payload =
     \<lparr>hr_url = ''https://api.openai.com/v1/'' @ path,
      hr_headers = [json_header, (''Authorization'', ''Bearer '' @ key)], hr_body = JObj payload\<rparr>"

definition OpenAIGenerate :: "transport \<Rightarrow> string \<Rightarrow> LLMRequest \<Rightarrow> (string \<times> int) res" where
  "OpenAIGenerate http key req =
     map_sum id first_choice (call_api http ''openai generate'' openai_fields ([], 0)
       (openai_request ''chat/completions'' key
          [(''messages'', JArr (map message_object (lr_Messages req))), (''model'', JStr ''gpt-4o-mini''), json_mode]))"

definition OpenAIEmbedBatch :: "transport \<Rightarrow> string \<Rightarrow> string list \<Rightarrow> vec list res" where
  "OpenAIEmbedBatch http key texts =
     batch_vectors texts (call_api http ''openai batch embed'' data_fields []
       (openai_request ''embeddings'' key
          [(''input'', JArr (map jstr texts)), (''model'', JStr ''text-embedding-3-small'')]))"

definition OpenAIEmbed :: "transport \<Rightarrow> string \<Rightarrow> string \<Rightarrow> vec res" where
  "OpenAIEmbed http key text =
     map_sum id first_vector (call_api http ''openai embed'' data_fields []
       (openai_request ''embeddings'' key
          [(''input'', jstr text), (''model'', JStr ''text-embedding-3-small'')]))"

record AzureOpenAIClient =
  az_endpoint :: string
  az_apiKey :: string
  az_chatDeployment :: string
  az_embedDeployment :: string
  az_apiVersion :: string

definition azureOpenAIDefaultAPIVersion :: string where
  "azureOpenAIDefaultAPIVersion = ''2024-02-01''"

definition NewAzureOpenAIClient :: "string \<Rightarrow> string \<Rightarrow> string \<Rightarrow> string \<Rightarrow> string \<Rightarrow> AzureOpenAIClient" where
  "NewAzureOpenAIClient endpoint apiKey chatDeployment embedDeployment apiVersion =
     \<lparr>az_endpoint = rev (dropWhile (\<lambda>c. c = CHR ''/'') (rev endpoint)), az_apiKey = apiKey,
      az_chatDeployment = chatDeployment, az_embedDeployment = embedDeployment,
      az_apiVersion = (if apiVersion = [] then azureOpenAIDefaultAPIVersion else apiVersion)\<rparr>"

definition azure_request :: "AzureOpenAIClient \<Rightarrow> string \<Rightarrow> string \<Rightarrow> (string \<times> json) list \<Rightarrow> http_request" where
  "azure_request c deployment path payload =
     \<lparr>hr_url = az_endpoint c @ ''/openai/deployments/'' @ deployment @ ''/'' @ path @ ''?api-version='' @ az_apiVersion c,
      hr_headers = [json_header, (''api-key'', az_apiKey c)], hr_body = JObj payload\<rparr>"

definition AzureGenerate :: "transport \<Rightarrow> AzureOpenAIClient \<Rightarrow> LLMRequest \<Rightarrow> (string \<times> int) res" where
  "AzureGenerate http c req =
     map_sum id first_choice (call_api http ''azure openai generate'' openai_fields ([], 0)
       (azure_request c (az_chatDeployment c) ''chat/completions''
          [(''messages'', JArr (map message_object (lr_Messages req))), json_mode]))"

definition AzureEmbedBatch :: "transport \<Rightarrow> AzureOpenAIClient \<Rightarrow> string list \<Rightarrow> vec list res" where
  "AzureEmbedBatch http c texts =
     batch_vectors texts (call_api http ''azure openai batch embed'' data_fields []
       (azure_request c (az_embedDeployment c) ''embeddings'' [(''input'', JArr (map jstr texts))]))"

definition AzureEmbed :: "transport \<Rightarrow> AzureOpenAIClient \<Rightarrow> string \<Rightarrow> vec res" where
  "AzureEmbed http c text =
     map_sum id first_vector (call_api http ''azure openai embed'' data_fields []
       (azure_request c (az_embedDeployment c) ''embeddings'' [(''input'', jstr text)]))"

section \<open>The mock client and the choice of the client\<close>

definition mock_facts :: string where
  "mock_facts = (let q = [chr 34] in
     ''{'' @ q @ ''facts'' @ q @ '':[],'' @ q @ ''events'' @ q @ '':[],'' @ q @ ''persona_updates'' @ q @ '':[]}'')"

definition mock_experiences :: string where
  "mock_experiences = (let q = [chr 34] in ''{'' @ q @ ''experiences'' @ q @ '':[]}'')"

definition MockGenerate :: "LLMRequest \<Rightarrow> (string \<times> int) res" where
  "MockGenerate req =
     (if list_ex (\<lambda>m. contains (lm_Content m) ''experience'' \<or> contains (lm_Content m) ''behavior'') (lr_Messages req)
      then Inr (mock_experiences, 10) else Inr (mock_facts, 10))"

definition MockEmbed :: "string \<Rightarrow> vec res" where
  "MockEmbed text = Inr (replicate vector_size 0)"

definition MockEmbedBatch :: "string list \<Rightarrow> vec list res" where
  "MockEmbedBatch texts = Inr (map (\<lambda>_. replicate vector_size 0) texts)"

datatype provider = Mock | Gemini string | OpenAI string | Azure AzureOpenAIClient

fun client_of :: "transport \<Rightarrow> provider \<Rightarrow> llm_client" where
  "client_of http Mock = \<lparr>Generate = MockGenerate, Embed = MockEmbed, EmbedBatch = MockEmbedBatch, ModelName = ''mock''\<rparr>"
| "client_of http (Gemini key) = \<lparr>Generate = GeminiGenerate http key, Embed = GeminiEmbed http key,
     EmbedBatch = GeminiEmbedBatch http key, ModelName = ''gemini-2.5-flash-lite''\<rparr>"
| "client_of http (OpenAI key) = \<lparr>Generate = OpenAIGenerate http key, Embed = OpenAIEmbed http key,
     EmbedBatch = OpenAIEmbedBatch http key, ModelName = ''gpt-4o-mini''\<rparr>"
| "client_of http (Azure c) = \<lparr>Generate = AzureGenerate http c, Embed = AzureEmbed http c,
     EmbedBatch = AzureEmbedBatch http c, ModelName = az_chatDeployment c\<rparr>"

text \<open>
  The environment is a function from a variable to its value, empty when unset; \<^verbatim>\<open>log.Fatal\<close> ends
  the process, so no client is returned.
\<close>

definition newAzureClient :: "(string \<Rightarrow> string) \<Rightarrow> provider res" where
  "newAzureClient env =
     (let endpoint = env ''AZURE_OPENAI_ENDPOINT''; key = env ''AZURE_OPENAI_KEY'';
          chat = env ''AZURE_OPENAI_CHAT_DEPLOYMENT''; embed = env ''AZURE_OPENAI_EMBED_DEPLOYMENT''
      in if endpoint = [] \<or> key = [] \<or> chat = [] \<or> embed = []
         then Inl (Err ''azure provider selected but one or more required env vars are missing'')
         else Inr (Azure (NewAzureOpenAIClient endpoint key chat embed (env ''AZURE_OPENAI_API_VERSION''))))"

definition NewClient :: "(nat \<Rightarrow> nat) \<Rightarrow> (string \<Rightarrow> string) \<Rightarrow> provider res" where
  "NewClient tab env =
     (let p = ToLower tab (TrimSpace (env ''LLM_PROVIDER'')) in
      if p = ''mock'' then Inr Mock
      else if p = ''azure'' then newAzureClient env
      else if p = ''openai'' then
        (if env ''OPENAI_API_KEY'' = [] then Inl (Err ''LLM_PROVIDER=openai but OPENAI_API_KEY is not set'')
         else Inr (OpenAI (env ''OPENAI_API_KEY'')))
      else if p = ''gemini'' then
        (if env ''GEMINI_API_KEY'' = [] then Inl (Err ''LLM_PROVIDER=gemini but GEMINI_API_KEY is not set'')
         else Inr (Gemini (env ''GEMINI_API_KEY'')))
      else if p = [] then
        (if env ''AZURE_OPENAI_ENDPOINT'' \<noteq> [] then newAzureClient env
         else if env ''OPENAI_API_KEY'' \<noteq> [] then Inr (OpenAI (env ''OPENAI_API_KEY''))
         else if env ''GEMINI_API_KEY'' \<noteq> [] then Inr (Gemini (env ''GEMINI_API_KEY''))
         else Inl (Err ''no LLM API key configured''))
      else Inl (Err ''LLM_PROVIDER is invalid''))"

section \<open>The batch of embeddings lines up with the texts\<close>

text \<open>What the loop over the answer computes: for each position the last vector sent for it.\<close>

definition vector_at :: "(int \<times> vec) list \<Rightarrow> nat \<Rightarrow> vec" where
  "vector_at ds i = (case List.find (\<lambda>d. fst d = int i) (rev ds) of Some d \<Rightarrow> snd d | None \<Rightarrow> [])"

lemma length_place: "place ds out = Inr r \<Longrightarrow> length r = length out"
  by (induction ds out rule: place.induct) (auto split: if_splits)

lemma find_snoc: "List.find P (xs @ [x]) = (case List.find P xs of Some y \<Rightarrow> Some y | None \<Rightarrow> if P x then Some x else None)"
  by (induction xs) auto

lemma place_nth:
  "place ds out = Inr r \<Longrightarrow> i < length out \<Longrightarrow>
     r ! i = (case List.find (\<lambda>d. fst d = int i) (rev ds) of Some d \<Rightarrow> snd d | None \<Rightarrow> out ! i)"
proof (induction ds out rule: place.induct)
  case (2 j v ds out)
  show ?case
  proof (cases "j < int (length out)")
    case True
    with 2 have "0 \<le> j" "place ds (out[nat j := v]) = Inr r" by (auto split: if_splits)
    with 2 True show ?thesis
      by (auto simp: find_snoc nth_list_update nat_eq_iff split: option.splits)
  next
    case False
    with 2 show ?thesis by (auto simp: find_snoc split: option.splits)
  qed
qed simp

lemma place_ok: "list_all (\<lambda>d. 0 \<le> fst d) ds \<Longrightarrow> is_ok (place ds out)"
  by (induction ds out rule: place.induct) auto

lemma batch_vectors_nth:
  assumes "batch_vectors texts r = Inr vs"
  shows "length vs = length texts \<and> (\<exists>ds. r = Inr ds \<and> (\<forall>i < length texts. vs ! i = vector_at ds i))"
proof -
  from assms obtain ds where r: "r = Inr ds" and p: "place ds (replicate (length texts) []) = Inr vs"
    by (auto simp: batch_vectors_def split: sum.splits)
  show ?thesis
    using length_place [OF p] place_nth [OF p] r by (auto simp: vector_at_def split: option.splits)
qed

lemma length_pad_vector: "length (pad_vector v) = max vector_size (length v)"
  by (simp add: pad_vector_def)

text \<open>No client turns an answer with another status into a result.\<close>

lemma call_api_status:
  "http rq = Inr (status, body) \<Longrightarrow> status \<noteq> 200 \<Longrightarrow> call_api http what fs zero rq = Inl (Err (what @ '' error: '' @ body))"
  by (simp add: call_api_def)

text \<open>The answers the three services document are read back.\<close>

lemma openai_answer:
  assumes "http rq = Inr (200, body)" "int64 n"
    and "parse_json body = Some (JObj [(''choices'', JArr (JObj [(''message'', JObj [(''content'', JStr t)])] # cs)),
      (''usage'', JObj [(''total_tokens'', jint n)])])"
  shows "map_sum id first_choice (call_api http what openai_fields ([], 0) rq) = Inr (t, n)"
proof -
  have "fold_key ''choices'' \<noteq> fold_key ''usage''" by code_simp
  with assms show ?thesis
    by (simp add: call_api_def openai_fields_def first_choice_def unmarshal_struct_def dec_slice_def dec_struct_def)
qed

end
