(* ===== verification/Worker.thy ===== *)
theory Worker
  imports Flusher MemoryStore ExperienceStore Accounts Validator Llm "HOL-Library.AList"
begin

text \<open>
  What the stream workers share: the errors that are not retried, the JSON object inside a model's
  answer, prompt templates, the payload of a batch event and the messages it names
  (\<^verbatim>\<open>internal/worker/cognitive.go\<close>, \<^verbatim>\<open>internal/worker/experience.go\<close>).
\<close>

section \<open>Errors\<close>

text \<open>\<^verbatim>\<open>errors.As\<close> looks through the wrappers.\<close>

fun isUnrecoverable :: "err \<Rightarrow> bool" where
  "isUnrecoverable (Unrecoverable e) = True"
| "isUnrecoverable (Wrapped p e) = isUnrecoverable e"
| "isUnrecoverable _ = False"

fun error_text :: "err \<Rightarrow> string" where
  "error_text (Err s) = s"
| "error_text (Wrapped p e) = p @ '': '' @ error_text e"
| "error_text (Unrecoverable e) = error_text e"
| "error_text (Panic s) = s"

fun is_panic :: "err \<Rightarrow> bool" where
  "is_panic (Panic s) = True"
| "is_panic _ = False"

text \<open>\<^verbatim>\<open>fmt.Errorf\<close> with \<^verbatim>\<open>%w\<close>; a panic passes through.\<close>

definition wrap :: "string \<Rightarrow> err \<Rightarrow> err" where
  "wrap p e = (if is_panic e then e else Wrapped p e)"

definition shortID :: "string \<Rightarrow> string" where
  "shortID s = (if length s > 8 then take 8 s else s)"

section \<open>The JSON object in an answer\<close>

text \<open>\<^verbatim>\<open>(?s)\{.*\}\<close> matches from the first opening brace to the last closing one.\<close>

definition json_block :: "string \<Rightarrow> string" where
  "json_block s =
     (let u = dropWhile (\<lambda>c. c \<noteq> CHR ''{'') s; v = rev (dropWhile (\<lambda>c. c \<noteq> CHR ''}'') (rev u))
      in if v = [] then s else v)"

definition extractCognitiveJSON :: "string \<Rightarrow> string" where
  "extractCognitiveJSON s = json_block (TrimSpace s)"

definition extractJSON :: "string \<Rightarrow> string" where
  "extractJSON s = json_block (TrimSpace s)"

lemma json_block_fenced:
  assumes "CHR ''{'' \<notin> set pre" "CHR ''}'' \<notin> set post"
  shows "json_block (pre @ CHR ''{'' # body @ CHR ''}'' # post) = CHR ''{'' # body @ [CHR ''}'']"
proof -
  have u: "dropWhile (\<lambda>c. c \<noteq> CHR ''{'') (pre @ CHR ''{'' # body @ CHR ''}'' # post) = CHR ''{'' # body @ CHR ''}'' # post"
    using assms(1) by (subst dropWhile_append2) auto
  have "rev (CHR ''{'' # body @ CHR ''}'' # post) = rev post @ CHR ''}'' # rev (CHR ''{'' # body)" by simp
  moreover have "dropWhile (\<lambda>c. c \<noteq> CHR ''}'') (rev post @ CHR ''}'' # rev (CHR ''{'' # body)) =
      CHR ''}'' # rev (CHR ''{'' # body)"
    using assms(2) by (subst dropWhile_append2) auto
  ultimately show ?thesis by (simp add: json_block_def u)
qed

lemma json_block_none: "CHR ''{'' \<notin> set s \<Longrightarrow> json_block s = s"
proof -
  assume "CHR ''{'' \<notin> set s"
  then have "dropWhile (\<lambda>c. c \<noteq> CHR ''{'') s = []" by (auto simp: dropWhile_eq_Nil_conv)
  then show ?thesis by (simp only: json_block_def Let_def dropWhile.simps rev.simps) simp
qed

section \<open>Prompt templates\<close>

text \<open>
  \<^verbatim>\<open>strings.NewReplacer(...).Replace\<close>: one pass from the left; at each position the first pair whose
  (non-empty) old text is there is replaced, and what is inserted is not looked at again.
\<close>

definition find_pair :: "(string \<times> string) list \<Rightarrow> string \<Rightarrow> (string \<times> string) option" where
  "find_pair ps s = List.find (\<lambda>p. has_prefix s (fst p)) ps"

function replacer :: "(string \<times> string) list \<Rightarrow> string \<Rightarrow> string" where
  "replacer ps [] = []"
| "replacer ps (c # cs) =
     (case find_pair ps (c # cs) of
        None \<Rightarrow> c # replacer ps cs
      | Some (old, new) \<Rightarrow> new @ replacer ps (drop (length old - 1) cs))"
  by pat_completeness auto
termination by (relation "measure (length \<circ> snd)") auto

fun join :: "string \<Rightarrow> string list \<Rightarrow> string" where
  "join sep [] = []"
| "join sep [s] = s"
| "join sep (s # t # ts) = s @ sep @ join sep (t # ts)"

text \<open>Text without a placeholder is left as it is.\<close>

lemma replacer_plain:
  "list_all (\<lambda>p. \<not> contains s (fst p)) ps \<Longrightarrow> replacer ps s = s"
proof (induction s)
  case (Cons c cs)
  have "find_pair ps (c # cs) = None"
  proof -
    have "\<not> has_prefix (c # cs) (fst p)" if "p \<in> set ps" for p
      using Cons.prems that by (fastforce simp: list_all_iff contains_iff has_prefix_iff intro: exI [of _ "[]"])
    then show ?thesis by (simp only: find_pair_def find_None_iff) blast
  qed
  moreover have "list_all (\<lambda>p. \<not> contains cs (fst p)) ps"
  proof -
    have "contains (c # cs) p" if "contains cs p" for p
    proof -
      from that obtain a b where "cs = a @ p @ b" by (auto simp: contains_iff)
      then have "c # cs = (c # a) @ p @ b" by simp
      then show ?thesis unfolding contains_iff by blast
    qed
    with Cons.prems show ?thesis by (auto simp: list_all_iff)
  qed
  ultimately show ?case using Cons.IH by simp
qed simp

section \<open>The batch event\<close>

record batch_info =
  bi_TenantID :: string
  bi_UserID :: string
  bi_SessionID :: string
  bi_BatchSize :: int
  bi_LastMessageID :: string

definition batch_fields :: "batch_info field list" where
  "batch_fields =
     [(''tenant_id'', dec_string (\<lambda>s b. b\<lparr>bi_TenantID := s\<rparr>)),
      (''user_id'', dec_string (\<lambda>s b. b\<lparr>bi_UserID := s\<rparr>)),
      (''session_id'', dec_string (\<lambda>s b. b\<lparr>bi_SessionID := s\<rparr>)),
      (''batch_size'', dec_int (\<lambda>n b. b\<lparr>bi_BatchSize := n\<rparr>)),
      (''last_message_id'', dec_string (\<lambda>s b. b\<lparr>bi_LastMessageID := s\<rparr>))]"

definition zero_batch :: batch_info where
  "zero_batch = \<lparr>bi_TenantID = [], bi_UserID = [], bi_SessionID = [], bi_BatchSize = 0, bi_LastMessageID = []\<rparr>"

definition syntax_error :: err where
  "syntax_error = Err ''invalid character in JSON''"

definition type_error :: err where
  "type_error = Err ''json: cannot unmarshal''"

definition unmarshal :: "'s field list \<Rightarrow> 's \<Rightarrow> json option \<Rightarrow> 's res" where
  "unmarshal fs zero j =
     (case j of
        None \<Rightarrow> Inl syntax_error
      | Some v \<Rightarrow> (case unmarshal_struct fs zero v of (True, _) \<Rightarrow> Inl type_error | (False, s) \<Rightarrow> Inr s))"

definition dec_array ::
  "(json list \<Rightarrow> bool \<times> 'a list) \<Rightarrow> ('a list \<Rightarrow> 's \<Rightarrow> 's) \<Rightarrow> json \<Rightarrow> 's \<Rightarrow> 's step" where
  "dec_array dec upd j s =
     (case j of
        JArr js \<Rightarrow> (case dec js of (True, _) \<Rightarrow> TypeMismatch | (False, xs) \<Rightarrow> Set (upd xs s))
      | JNull \<Rightarrow> Set (upd [] s)
      | _ \<Rightarrow> TypeMismatch)"

definition parse_batch :: "bulk \<Rightarrow> batch_info res" where
  "parse_batch payload = unmarshal batch_fields zero_batch (bulk_json payload)"

text \<open>The payload the API server and the flusher publish is read back as it was written.\<close>

lemma batch_keys:
  "fold_key ''batch_size'' = [66, 65, 84, 67, 72, 95, 83, 73, 90, 69]"
  "fold_key ''last_message_id'' = [76, 65, 83, 84, 95, 77, 69, 83, 83, 65, 71, 69, 95, 73, 68]"
  by (code_simp)+

lemma parse_batch_payload:
  assumes "valid_utf8 t" "valid_utf8 u" "valid_utf8 s" "valid_utf8 m" "int64 n"
  shows "parse_batch (Json (batch_payload t u s n m)) =
    Inr \<lparr>bi_TenantID = t, bi_UserID = u, bi_SessionID = s, bi_BatchSize = n, bi_LastMessageID = m\<rparr>"
  using assms
  by (simp add: parse_batch_def unmarshal_def batch_payload_def batch_fields_def zero_batch_def unmarshal_struct_def
      text_simps batch_keys)

text \<open>The messages of a batch: the cached window up to the anchor, else the database's.\<close>

definition fetch_window ::
  "'r redis \<Rightarrow> codec \<Rightarrow> batch_info \<Rightarrow> int \<Rightarrow> 'r world \<Rightarrow> message list res \<times> 'r world" where
  "fetch_window R cod b n w =
     (case GetRawMessagesUntil R cod (bi_TenantID b) (bi_SessionID b) (bi_LastMessageID b) n w of
        (Inr (m # ms), w1) \<Rightarrow> (Inr (m # ms), w1)
      | (Inl (Panic p), w1) \<Rightarrow> (Inl (Panic p), w1)
      | (_, w1) \<Rightarrow> on_db (GetRecentMessagesUntil cod (bi_TenantID b) (bi_UserID b) (bi_SessionID b) (bi_LastMessageID b) n) w1)"

text \<open>Fetching changes no table.\<close>

lemma on_db_tables: "on_db f w = (r, w') \<Longrightarrow> f (w_db w) = (r, w_db w')"
  by (auto simp: on_db_def split: prod.splits)

lemma GetRawMessages_tables:
  "GetRawMessages R cod t s n w = (r, w') \<Longrightarrow> same_tables (w_db w) (w_db w')"
  by (auto simp: GetRawMessages_def Let_def GetSessionHistory_def split: prod.splits sum.splits if_splits
      dest!: on_db_tables redis_do_db pool_query_tables)

lemma GetRawMessagesUntil_tables:
  "GetRawMessagesUntil R cod t s a n w = (r, w') \<Longrightarrow> same_tables (w_db w) (w_db w')"
  by (auto simp: GetRawMessagesUntil_def Let_def split: prod.splits sum.splits if_splits option.splits
      dest!: GetRawMessages_tables redis_do_db)

lemma GetRecentMessagesUntil_tables:
  "GetRecentMessagesUntil cod t u s a n d = (r, d') \<Longrightarrow> same_tables d d'"
  by (auto simp: GetRecentMessagesUntil_def GetRecentMessages_def anchor_time_def
      split: prod.splits sum.splits if_splits dest!: pool_query_tables intro: same_tables_trans)

lemma fetch_window_tables:
  assumes "fetch_window R cod b n w = (r, w')"
  shows "same_tables (w_db w) (w_db w')"
proof -
  obtain q w1 where one: "GetRawMessagesUntil R cod (bi_TenantID b) (bi_SessionID b) (bi_LastMessageID b) n w = (q, w1)"
    by fastforce
  note first = GetRawMessagesUntil_tables [OF one]
  have "same_tables (w_db w1) (w_db w')" if "w' \<noteq> w1"
    using assms one that by (auto simp: fetch_window_def split: sum.splits list.splits err.splits
        dest!: on_db_tables GetRecentMessagesUntil_tables)
  with first show ?thesis by (metis same_tables_trans)
qed

end
