(* ===== verification/Cognitive.thy ===== *)
theory Cognitive
  imports Worker "HOL-Library.List_Lexorder" "HOL-Library.Char_ord"
begin

text \<open>
  The cognitive worker's processing of one batch event: \<^verbatim>\<open>processBatchPayload\<close> of
  \<^verbatim>\<open>internal/worker/cognitive.go\<close>, from the payload over the transcript, the model's answer and its
  validation to the rows of facts, events and persona traits. The consumption of the stream around
  it is in \<^verbatim>\<open>Streams.thy\<close>.
\<close>

section \<open>The environment of a run\<close>

text \<open>
  The worker's collaborators and the choices the run time makes: the random nonces (\<open>None\<close> when the
  source fails), the two iteration orders of the map of facts, the clock and the identifier of the
  usage record.
\<close>

record cog_env =
  ce_cod :: codec
  ce_crypto_lib :: crypto_lib
  ce_crypto :: crypto
  ce_master_key :: string
  ce_tab :: "nat \<Rightarrow> nat"
  ce_pg_json :: pg_json
  ce_llm :: llm_client
  ce_prompt :: string
  ce_now_text :: string
  ce_now :: time
  ce_usage_id :: uuid
  ce_nonce :: "nat \<Rightarrow> string option"
  ce_order1 :: "extracted_fact list \<Rightarrow> extracted_fact list"
  ce_order2 :: "extracted_fact list \<Rightarrow> extracted_fact list"

text \<open>Iterating over a map visits every entry once, in some order.\<close>

definition map_orders :: "cog_env \<Rightarrow> bool" where
  "map_orders E \<longleftrightarrow> (\<forall>fs. mset (ce_order1 E fs) = mset fs \<and> mset (ce_order2 E fs) = mset fs)"

section \<open>The prompt\<close>

definition transcript :: "message list \<Rightarrow> string" where
  "transcript msgs =
     concat (map (\<lambda>m. ''['' @ msg_Role m @ '']: '' @ msg_Content m @ [chr 10]) (rev msgs))"

definition buildBatchPrompt :: "cog_env \<Rightarrow> string \<Rightarrow> string \<Rightarrow> string \<Rightarrow> db \<Rightarrow> string \<times> db" where
  "buildBatchPrompt E tenantID userID tr d =
     (let (known, d1) = GetTopEntityNames (ce_cod E) tenantID userID 20 d;
          (profile, d2) = Get (ce_tab E) (ce_cod E) (ce_crypto_lib E) (ce_master_key E) tenantID userID d1
      in (replacer
            [(''{{CURRENT_TIME}}'', ce_now_text E), (''{{USER_NAME}}'', up_CanonicalName profile),
             (''{{USER_ALIASES}}'', join '', '' (up_Aliases profile)),
             (''{{KNOWN_CONTACTS}}'', join '', '' (ok_or [] known)), (''{{MESSAGE}}'', tr)] (ce_prompt E), d2))"

section \<open>The answer\<close>

record extraction =
  ex_Facts :: "extracted_fact list"
  ex_Events :: "(string \<times> string) list list"
  ex_PersonaUpdates :: "string list"

text \<open>A \<^verbatim>\<open>map[string]string\<close> as an association list; a later entry of a key replaces the earlier one.\<close>

fun decode_text_map :: "(string \<times> json) list \<Rightarrow> (string \<times> string) list \<Rightarrow> bool \<times> (string \<times> string) list" where
  "decode_text_map [] m = (False, m)"
| "decode_text_map ((k, v) # kvs) m =
     (case v of
        JStr t \<Rightarrow> decode_text_map kvs (AList.update k t m)
      | JNull \<Rightarrow> decode_text_map kvs (AList.update k [] m)
      | _ \<Rightarrow> (True, m))"

definition unmarshal_text_map :: "json \<Rightarrow> bool \<times> (string \<times> string) list" where
  "unmarshal_text_map j = (case j of JObj kvs \<Rightarrow> decode_text_map kvs [] | JNull \<Rightarrow> (False, []) | _ \<Rightarrow> (True, []))"

definition extraction_fields :: "extraction field list" where
  "extraction_fields =
     [(''facts'', dec_array (decode_structs unmarshal_extracted_fact) (\<lambda>xs r. r\<lparr>ex_Facts := xs\<rparr>)),
      (''events'', dec_array (decode_structs unmarshal_text_map) (\<lambda>xs r. r\<lparr>ex_Events := xs\<rparr>)),
      (''persona_updates'', dec_array decode_strings (\<lambda>xs r. r\<lparr>ex_PersonaUpdates := xs\<rparr>))]"

definition zero_extraction :: extraction where
  "zero_extraction = \<lparr>ex_Facts = [], ex_Events = [], ex_PersonaUpdates = []\<rparr>"

definition parse_extraction :: "string \<Rightarrow> extraction res" where
  "parse_extraction resp = unmarshal extraction_fields zero_extraction (parse_json (extractCognitiveJSON resp))"

section \<open>Facts\<close>

definition fact_map_key :: "extracted_fact \<Rightarrow> string" where
  "fact_map_key f = xf_EntityName f @ ''|'' @ xf_Attribute f"

definition put_fact :: "extracted_fact \<Rightarrow> (string \<times> extracted_fact) list \<Rightarrow> (string \<times> extracted_fact) list" where
  "put_fact f m = (if ValidateExtractedFact f = None then AList.update (fact_map_key f) f m else m)"

text \<open>The map of the valid facts, the last one of each key.\<close>

definition unique_facts :: "extracted_fact list \<Rightarrow> extracted_fact list" where
  "unique_facts fs = map snd (fold put_fact fs [])"

fun encrypt_facts ::
  "cog_env \<Rightarrow> string \<Rightarrow> nat \<Rightarrow> extracted_fact list \<Rightarrow> (extracted_fact \<times> string \<times> string) list" where
  "encrypt_facts E tenantID i [] = []"
| "encrypt_facts E tenantID i (f # fs) =
     (case EncryptValue (ce_crypto_lib E) (ce_crypto E) (ce_nonce E i) (xf_Value f) tenantID of
        Inl _ \<Rightarrow> encrypt_facts E tenantID (Suc i) fs
      | Inr encVal \<Rightarrow> (f, encVal, ValueHash (ce_crypto_lib E) (xf_Value f)) # encrypt_facts E tenantID (Suc i) fs)"

definition fact_text :: "extracted_fact \<Rightarrow> string" where
  "fact_text f = xf_EntityName f @ '' '' @ xf_Attribute f @ '' '' @ xf_Value f"

definition store_facts :: "cog_env \<Rightarrow> message_payload \<Rightarrow> extracted_fact list \<Rightarrow> db \<Rightarrow> err option \<times> db" where
  "store_facts E mp facts d =
     (let tenantID = uuid_String (ce_cod E) (mp_TenantID mp);
          items = encrypt_facts E tenantID 0 (ce_order1 E facts);
          batchFacts = map fst items
      in if items = [] then (None, d)
         else (let d1 = snd (UpsertFactBatch mp batchFacts (map (fst \<circ> snd) items) (map (snd \<circ> snd) items) d) in
           case EmbedBatch (ce_llm E) (map fact_text batchFacts) of
             Inl e \<Rightarrow> (if is_panic e then Some e else None, d1)
           | Inr embeddings \<Rightarrow>
               (None, snd (UpdateFactEmbeddingsBatch (ce_cod E) tenantID (uuid_String (ce_cod E) (mp_UserID mp))
                             batchFacts embeddings d1))))"

section \<open>Events\<close>

definition event_json :: "(string \<times> string) list \<Rightarrow> json" where
  "event_json m = JObj (map (\<lambda>(k, v). (coerce_utf8 k, jstr v)) (sort_key fst m))"

text \<open>The Vietnamese words, as UTF-8.\<close>

definition nhat :: string where
  "nhat = ''nh'' @ map chr [225, 186, 173] @ ''t''"

definition ngay_sinh :: string where
  "ngay_sinh = ''ng'' @ map chr [195, 160] @ ''y sinh''"

definition cua_toi :: string where
  "cua_toi = ''c'' @ map chr [225, 187, 167] @ ''a t'' @ map chr [195, 180] @ ''i''"

definition birthday_attributes :: "string list" where
  "birthday_attributes =
     [''birthday'', ''anniversary'', ''sinh '' @ nhat, ngay_sinh, ngay_sinh @ '' '' @ nhat]"

text \<open>\<^verbatim>\<open>strings.EqualFold\<close> with an ASCII text.\<close>

definition equal_fold :: "string \<Rightarrow> string \<Rightarrow> bool" where
  "equal_fold s t \<longleftrightarrow> fold_key s = fold_key t"

definition birthday_event :: "cog_env \<Rightarrow> extracted_fact \<Rightarrow> json list" where
  "birthday_event E f =
     (if ToLower (ce_tab E) (xf_Attribute f) \<in> set birthday_attributes
      then [event_json
              [(''event_name'', if equal_fold (xf_EntityType f) ''self'' \<or> equal_fold (xf_EntityName f) ''user''
                                then ''Sinh '' @ nhat @ '' '' @ cua_toi else ''Sinh '' @ nhat @ '' '' @ xf_EntityName f),
               (''date'', xf_Value f)]]
      else [])"

definition event_payloads :: "cog_env \<Rightarrow> (string \<times> string) list list \<Rightarrow> extracted_fact list \<Rightarrow> json list" where
  "event_payloads E events facts =
     map event_json (filter (\<lambda>m. map_of m ''event_name'' \<notin> {None, Some []}) events) @
     concat (map (birthday_event E) (ce_order2 E facts))"

definition store_events :: "cog_env \<Rightarrow> message_payload \<Rightarrow> json list \<Rightarrow> db \<Rightarrow> db" where
  "store_events E mp payloads d =
     (if payloads = [] then d
      else snd (UpsertEventBatch (ce_cod E) (ce_pg_json E) (uuid_String (ce_cod E) (mp_TenantID mp))
                  (uuid_String (ce_cod E) (mp_UserID mp)) (uuid_String (ce_cod E) (mp_SessionID mp)) payloads d))"

section \<open>Persona\<close>

text \<open>
  The traits that are embedded: the first non-blank ones, as many as were inserted. They are not
  the inserted ones when a duplicate comes before a new trait.
\<close>

definition inserted_traits :: "nat \<Rightarrow> string list \<Rightarrow> string list" where
  "inserted_traits n updates = take n (filter (\<lambda>t. t \<noteq> []) (map TrimSpace updates))"

definition store_persona :: "cog_env \<Rightarrow> message_payload \<Rightarrow> string list \<Rightarrow> db \<Rightarrow> err option \<times> db" where
  "store_persona E mp updates d =
     (let cod = ce_cod E; t = uuid_String cod (mp_TenantID mp); u = uuid_String cod (mp_UserID mp);
          s = uuid_String cod (mp_SessionID mp)
      in if updates = [] then (None, d)
         else (case UpsertPersona cod (ce_pg_json E) t u s updates d of
             (Inl _, d1) \<Rightarrow> (None, d1)
           | (Inr ids, d1) \<Rightarrow>
               if ids = [] then (None, d1)
               else (case EmbedBatch (ce_llm E) (inserted_traits (length ids) updates) of
                   Inl e \<Rightarrow> (if is_panic e then Some e else None, d1)
                 | Inr embeddings \<Rightarrow> (None, snd (UpdatePersonaEmbeddingsBatch cod t ids embeddings d1)))))"

section \<open>The batch\<close>

definition cognitive_usage :: "cog_env \<Rightarrow> message_payload \<Rightarrow> int \<Rightarrow> llm_usage" where
  "cognitive_usage E mp tokens =
     \<lparr>lu_ID = 0, lu_TenantID = mp_TenantID mp, lu_UserID = mp_UserID mp, lu_SessionID = mp_SessionID mp,
      lu_Feature = ''cognitive_extraction'', lu_Model = ModelName (ce_llm E), lu_TotalTokens = tokens,
      lu_CreatedAt = ce_now E\<rparr>"

definition store_extraction :: "cog_env \<Rightarrow> message_payload \<Rightarrow> extraction \<Rightarrow> db \<Rightarrow> err option \<times> db" where
  "store_extraction E mp x d =
     (let facts = unique_facts (ex_Facts x) in
      case store_facts E mp facts d of
        (Some e, d1) \<Rightarrow> (Some e, d1)
      | (None, d1) \<Rightarrow>
          store_persona E mp (ex_PersonaUpdates x) (store_events E mp (event_payloads E (ex_Events x) facts) d1))"

definition process_messages :: "cog_env \<Rightarrow> message list \<Rightarrow> message_payload \<Rightarrow> db \<Rightarrow> err option \<times> db" where
  "process_messages E msgs mp d =
     (let (prompt, d1) = buildBatchPrompt E (uuid_String (ce_cod E) (mp_TenantID mp))
                           (uuid_String (ce_cod E) (mp_UserID mp)) (transcript msgs) d
      in case Generate (ce_llm E) (BuildLLMRequest ''You are a cognitive data extractor'' prompt) of
           Inl e \<Rightarrow> (Some e, d1)
         | Inr (resp, tokens) \<Rightarrow>
             (let d2 = snd (Record (ce_usage_id E) (cognitive_usage E mp tokens) d1) in
              case parse_extraction resp of
                Inl e \<Rightarrow> (Some (Unrecoverable e), d2)
              | Inr x \<Rightarrow> store_extraction E mp x d2))"

definition batch_message_payload :: "message \<Rightarrow> message_payload" where
  "batch_message_payload m =
     \<lparr>mp_MessageID = msg_ID m, mp_UserID = msg_UserID m, mp_TenantID = msg_TenantID m, mp_SessionID = msg_SessionID m\<rparr>"

definition processBatchPayload ::
  "cog_env \<Rightarrow> 'r redis \<Rightarrow> bulk \<Rightarrow> 'r world \<Rightarrow> err option \<times> 'r world" where
  "processBatchPayload E R payload w =
     (case parse_batch payload of
        Inl e \<Rightarrow> (Some (Unrecoverable e), w)
      | Inr b \<Rightarrow>
          (case fetch_window R (ce_cod E) b (bi_BatchSize b) w of
             (Inl e, w1) \<Rightarrow> (Some e, w1)
           | (Inr [], w1) \<Rightarrow> (Some (Err ''no messages to process''), w1)
           | (Inr (m # ms), w1) \<Rightarrow> on_db (process_messages E (m # ms) (batch_message_payload m)) w1))"


section \<open>The map of facts\<close>

definition fact_map_ok :: "extracted_fact list \<Rightarrow> (string \<times> extracted_fact) list \<Rightarrow> bool" where
  "fact_map_ok fs m \<longleftrightarrow> distinct (map fst m) \<and>
     list_all (\<lambda>(k, f). k = fact_map_key f \<and> acceptable f \<and> f \<in> set fs) m"

lemma put_fact_ok:
  assumes "fact_map_ok fs m" "f \<in> set fs"
  shows "fact_map_ok fs (put_fact f m)"
proof -
  have sub: "set (AList.update k f m) \<subseteq> insert (k, f) (set m)" for k
    by (induction m) auto
  have "list_all P (AList.update k f m)" if "list_all P m" "P (k, f)" for P k
    using that sub [of k] by (auto simp: list_all_iff)
  with assms show ?thesis
    by (auto simp: fact_map_ok_def put_fact_def validate_iff distinct_update)
qed

lemma unique_facts_map: "fact_map_ok fs (fold put_fact fs [])"
proof -
  have "fact_map_ok fs (fold put_fact gs m)" if "fact_map_ok fs m" "set gs \<subseteq> set fs" for gs m
    using that by (induction gs arbitrary: m) (auto intro: put_fact_ok)
  then show ?thesis by (simp add: fact_map_ok_def)
qed

text \<open>The separator of the key is no attribute's character, so valid facts with one key name one attribute.\<close>

lemma fact_map_key_inject:
  assumes "acceptable f" "acceptable g" "fact_map_key f = fact_map_key g"
  shows "xf_EntityName f = xf_EntityName g \<and> xf_Attribute f = xf_Attribute g"
proof -
  have free: "CHR ''|'' \<notin> set a" if "a \<in> set allowedAttributes" for a
    using that by (auto simp: allowedAttributes_def)
  then have attributes: "CHR ''|'' \<notin> set (xf_Attribute f)" "CHR ''|'' \<notin> set (xf_Attribute g)"
    using assms(1,2) by (auto simp: acceptable_def)
  have split: "p = p' \<and> q = q'"
    if e: "p @ CHR ''|'' # q = p' @ CHR ''|'' # q'" and n: "CHR ''|'' \<notin> set q" "CHR ''|'' \<notin> set q'" for p q p' q'
  proof -
    have last: "takeWhile (\<lambda>c. c \<noteq> CHR ''|'') (rev (a @ CHR ''|'' # b)) = rev b" if "CHR ''|'' \<notin> set b" for a b
      using that by (simp, subst takeWhile_append2) auto
    have "rev q = takeWhile (\<lambda>c. c \<noteq> CHR ''|'') (rev (p @ CHR ''|'' # q))" by (rule last [OF n(1), symmetric])
    also have "\<dots> = takeWhile (\<lambda>c. c \<noteq> CHR ''|'') (rev (p' @ CHR ''|'' # q'))" by (simp only: e)
    also have "\<dots> = rev q'" by (rule last [OF n(2)])
    finally have "q = q'" by simp
    with e show ?thesis by simp
  qed
  show ?thesis by (rule split [OF _ attributes]) (use assms(3) in \<open>simp add: fact_map_key_def\<close>)
qed

lemma unique_facts_acceptable: "f \<in> set (unique_facts fs) \<Longrightarrow> acceptable f \<and> f \<in> set fs"
  using unique_facts_map [of fs] by (auto simp: unique_facts_def fact_map_ok_def list_all_iff)

lemma unique_facts_distinct: "distinct (map (\<lambda>f. (xf_EntityName f, xf_Attribute f)) (unique_facts fs))"
proof -
  let ?m = "fold put_fact fs []"
  have m: "fact_map_ok fs ?m" by (rule unique_facts_map)
  then have inj: "inj_on fst (set ?m)" "distinct ?m" by (simp_all add: fact_map_ok_def distinct_map)
  have key: "fst p = fact_map_key (snd p)" if "p \<in> set ?m" for p
    using m that by (auto simp: fact_map_ok_def list_all_iff)
  have "inj_on (\<lambda>p. (xf_EntityName (snd p), xf_Attribute (snd p))) (set ?m)"
  proof (rule inj_onI)
    fix p q
    assume p: "p \<in> set ?m" and q: "q \<in> set ?m"
      and "(xf_EntityName (snd p), xf_Attribute (snd p)) = (xf_EntityName (snd q), xf_Attribute (snd q))"
    then have "fst p = fst q" by (simp add: key fact_map_key_def)
    then show "p = q" using inj_onD [OF inj(1)] p q by blast
  qed
  with inj(2)
  have "distinct (map (\<lambda>p. (xf_EntityName (snd p), xf_Attribute (snd p))) ?m)"
    by (simp add: distinct_map)
  then show ?thesis by (simp add: unique_facts_def comp_def)
qed

text \<open>Each key of a valid fact is there, with the last fact that has it.\<close>

lemma unique_facts_last:
  "map_of (fold put_fact fs m) k =
     (case List.find (\<lambda>f. acceptable f \<and> fact_map_key f = k) (rev fs) of Some f \<Rightarrow> Some f | None \<Rightarrow> map_of m k)"
  by (induction fs arbitrary: m)
    (auto simp: put_fact_def validate_iff update_conv' find_snoc split: option.splits)

section \<open>Only vetted facts are stored\<close>

definition row_content :: "entity_row \<Rightarrow> uuid \<times> uuid \<times> uuid \<times> uuid \<times> uuid \<times> string \<times> string \<times> string \<times> string \<times> string \<times> string" where
  "row_content r = (em_id r, em_tenant_id r, em_user_id r, em_session_id r, em_message_id r, em_entity_name r,
     em_entity_type r, em_attribute r, em_value_encrypted r, em_value_hash r, em_source_quote r)"

text \<open>A row of a fact the validator accepts, with its value encrypted for the tenant.\<close>

definition vetted_row :: "cog_env \<Rightarrow> message_payload \<Rightarrow> entity_row \<Rightarrow> bool" where
  "vetted_row E mp r \<longleftrightarrow> em_tenant_id r = mp_TenantID mp \<and> em_user_id r = mp_UserID mp \<and>
     em_session_id r = mp_SessionID mp \<and> em_message_id r = mp_MessageID mp \<and>
     (\<exists>f nonce. acceptable f \<and> em_entity_name r = xf_EntityName f \<and> em_entity_type r = xf_EntityType f \<and>
        em_attribute r = xf_Attribute f \<and> em_source_quote r = xf_SourceQuote f \<and>
        em_value_hash r = ValueHash (ce_crypto_lib E) (xf_Value f) \<and>
        EncryptValue (ce_crypto_lib E) (ce_crypto E) nonce (xf_Value f) (uuid_String (ce_cod E) (mp_TenantID mp)) =
          Inr (em_value_encrypted r))"

definition vetted :: "cog_env \<Rightarrow> message_payload \<Rightarrow> entity_row list \<Rightarrow> db \<Rightarrow> bool" where
  "vetted E mp old d \<longleftrightarrow>
     list_all (\<lambda>r. row_content r \<in> row_content ` set old \<or> vetted_row E mp r) (db_entities d)"

text \<open>The stored items of \<^verbatim>\<open>store_facts\<close>, as the batch sees them.\<close>

lemma zip_items: "zip (map fst xs) (zip (map (fst \<circ> snd) xs) (map (snd \<circ> snd) xs)) = xs"
  by (induction xs) auto

definition fact_items :: "cog_env \<Rightarrow> message_payload \<Rightarrow> extracted_fact list \<Rightarrow> (extracted_fact \<times> string \<times> string) list" where
  "fact_items E mp fs = encrypt_facts E (uuid_String (ce_cod E) (mp_TenantID mp)) 0 (ce_order1 E fs)"

lemma store_facts_steps:
  assumes "store_facts E mp fs d = (r, d')"
  obtains (none) "fact_items E mp fs = []" "d' = d"
  | (stored) d1 vs where "send_batch (upsert_items mp (fact_items E mp fs)) d = (vs, d1)"
      "d' = d1 \<or> (\<exists>embs. d' = snd (UpdateFactEmbeddingsBatch (ce_cod E) (uuid_String (ce_cod E) (mp_TenantID mp))
         (uuid_String (ce_cod E) (mp_UserID mp)) (map fst (fact_items E mp fs)) embs d1))"
proof -
  have len: "length (map fst xs) \<le> length (map g xs)" for g :: "'x \<times> 'y \<Rightarrow> 'z" and xs by simp
  have batch: "snd (UpsertFactBatch mp (map fst (fact_items E mp fs)) (map (fst \<circ> snd) (fact_items E mp fs))
      (map (snd \<circ> snd) (fact_items E mp fs)) d) = snd (send_batch (upsert_items mp (fact_items E mp fs)) d)"
    by (simp add: UpsertFactBatch_items zip_items)
  show thesis
    using assms none stored [OF prod.collapse [symmetric]]
    by (auto simp: store_facts_def Let_def fact_items_def [symmetric] batch split: if_splits sum.splits)
qed

text \<open>An invariant that does not look at the memory records and the usage: statements on those tables keep it.\<close>

locale outside_memories =
  fixes inv :: "db \<Rightarrow> bool"
  assumes unread: "db_sessions d' = db_sessions d \<Longrightarrow> db_messages d' = db_messages d \<Longrightarrow>
    db_entities d' = db_entities d \<Longrightarrow> db_experiences d' = db_experiences d \<Longrightarrow> inv d \<Longrightarrow> inv d'"

sublocale outside_memories \<subseteq> table_invariant inv
  by unfold_locales (auto simp: same_tables_def intro: unread)

context outside_memories
begin

lemma other_tables: "inv d \<Longrightarrow> inv (d\<lparr>db_usage := us\<rparr>)" "inv d \<Longrightarrow> inv (d\<lparr>db_memories := ms\<rparr>)"
  by (rule unread [of _ d], simp_all)+

lemma Record_keeps: "Record i u d = (r, d') \<Longrightarrow> inv d \<Longrightarrow> inv d'"
  by (auto simp: Record_def apfst_def map_prod_def split: prod.splits if_splits
      elim!: exec_keeps [rotated] intro: other_tables)

lemma GetTopEntityNames_keeps: "GetTopEntityNames cod t u n d = (r, d') \<Longrightarrow> inv d \<Longrightarrow> inv d'"
  unfolding GetTopEntityNames_def by (rule query_keeps)

lemma Get_keeps: "Get tab cod L mk t u d = (p, d') \<Longrightarrow> inv d \<Longrightarrow> inv d'"
  by (auto simp: Get_def Let_def split: sum.splits prod.splits intro: query_keeps)

lemma buildBatchPrompt_keeps: "buildBatchPrompt E t u tr d = (p, d') \<Longrightarrow> inv d \<Longrightarrow> inv d'"
  by (auto simp: buildBatchPrompt_def Let_def split: prod.splits dest!: GetTopEntityNames_keeps Get_keeps)

lemma insert_memory_row_keeps: "insert_memory_row t u s ty p im d = (r, d') \<Longrightarrow> inv d \<Longrightarrow> inv d'"
  by (rule unread) (auto simp: insert_memory_row_def gen_uuid_def split: if_splits)

lemma insert_event_keeps: "insert_event_once cod J t u s p d = (r, d') \<Longrightarrow> inv d \<Longrightarrow> inv d'"
  unfolding insert_event_eval
  by (elim exec_uuid_keeps [where P = inv, rotated -2])
    (auto split: if_splits prod.splits sum.splits dest!: insert_memory_row_keeps)

lemma UpsertEventBatch_keeps:
  assumes "UpsertEventBatch cod J t u s ps d = (r, d')" "inv d"
  shows "inv d'"
proof -
  obtain q d1 where one: "send_batch (map (insert_event_once cod J t u s) ps) d = (q, d1)" by fastforce
  have "inv d1" by (rule batch_keeps [OF _ one assms(2)]) (auto intro: insert_event_keeps)
  with assms one show ?thesis by (simp add: UpsertEventBatch_def)
qed

lemma store_events_keeps: "inv d \<Longrightarrow> inv (store_events E mp ps d)"
  by (auto simp: store_events_def split: if_splits intro: UpsertEventBatch_keeps [OF prod.collapse [symmetric]])

lemma insert_trait_keeps: "insert_trait cod J t u s tr d = (r, d') \<Longrightarrow> inv d \<Longrightarrow> inv d'"
  unfolding insert_trait_eval
  by (elim exec_uuid_keeps [where P = inv, rotated -2]) (auto split: if_splits dest: insert_memory_row_keeps)

lemma upsert_traits_keeps: "upsert_traits cod J t u s trs d = (ids, d') \<Longrightarrow> inv d \<Longrightarrow> inv d'"
proof (induction trs arbitrary: d ids)
  case (Cons tr trs)
  show ?case
  proof (cases "TrimSpace tr = []")
    case False
    obtain q d1 where one: "pool_exec (insert_trait cod J t u s (TrimSpace tr)) d = (q, d1)" by fastforce
    have "inv d1" by (rule exec_keeps [OF _ one Cons.prems(2)]) (rule insert_trait_keeps)
    with Cons False one show ?thesis by (auto simp: Let_def split: sum.splits prod.splits)
  qed (use Cons in simp)
qed simp

lemma UpdatePersonaEmbeddingsBatch_keeps:
  assumes "UpdatePersonaEmbeddingsBatch cod t ids vs d = (r, d')" "inv d"
  shows "inv d'"
proof (cases "zip ids vs = []")
  case False
  let ?qs = "map (\<lambda>(i, v). exec_uuid cod i (\<lambda>iu. exec_uuid cod t (\<lambda>t d.
     (Inr (), d\<lparr>db_memories := update_where (\<lambda>r. me_id r = iu \<and> me_tenant_id r = t)
        (\<lambda>r. r\<lparr>me_embedding := Some v\<rparr>) (db_memories d)\<rparr>)))) (zip ids vs)"
  obtain q d1 where one: "send_batch ?qs d = (q, d1)" by fastforce
  have "inv d1"
    by (rule batch_keeps [OF _ one assms(2)]) (auto simp: exec_uuid_def split: option.splits intro: other_tables)
  with assms False one show ?thesis by (simp add: UpdatePersonaEmbeddingsBatch_def)
qed (use assms in \<open>simp add: UpdatePersonaEmbeddingsBatch_def\<close>)

lemma store_persona_keeps: "store_persona E mp us d = (r, d') \<Longrightarrow> inv d \<Longrightarrow> inv d'"
  by (auto simp: store_persona_def UpsertPersona_def Let_def apfst_def map_prod_def
      split: prod.splits if_splits sum.splits
      dest!: upsert_traits_keeps intro: UpdatePersonaEmbeddingsBatch_keeps [OF prod.collapse [symmetric]])

text \<open>So a run keeps it when the storing of the facts does.\<close>

lemma process_messages_keeps:
  assumes "process_messages E msgs mp d = (r, d')" "inv d"
    and facts: "\<And>fs a q b. set fs \<subseteq> {f. acceptable f} \<Longrightarrow> store_facts E mp fs a = (q, b) \<Longrightarrow> inv a \<Longrightarrow> inv b"
  shows "inv d'"
proof -
  have acc: "set (unique_facts fs) \<subseteq> {f. acceptable f}" for fs
    using unique_facts_acceptable by blast
  have x: "store_extraction E mp x a = (q, b) \<Longrightarrow> inv a \<Longrightarrow> inv b" for x a q b
    by (auto simp: store_extraction_def Let_def split: prod.splits option.splits
        dest!: facts [OF acc] intro: store_persona_keeps store_events_keeps)
  show ?thesis
    using assms(1,2)
    by (auto simp: process_messages_def Let_def split: prod.splits sum.splits
        dest!: buildBatchPrompt_keeps
        intro: x Record_keeps [OF prod.collapse [symmetric]])
qed

end

text \<open>The storing of the facts keeps an invariant when the upserts and the embedding updates do.\<close>

context table_invariant
begin

lemma store_facts_keeps:
  assumes "store_facts E mp fs d = (r, d')" "inv d"
    and up: "\<And>f e h a q b. (f, e, h) \<in> set (fact_items E mp fs) \<Longrightarrow> upsertFactCTE mp f e h a = (q, b) \<Longrightarrow> inv a \<Longrightarrow> inv b"
    and emb: "\<And>f v a q b. update_embedding_stmt (ce_cod E) (uuid_String (ce_cod E) (mp_TenantID mp))
           (uuid_String (ce_cod E) (mp_UserID mp)) f v a = (q, b) \<Longrightarrow> inv a \<Longrightarrow> inv b"
  shows "inv d'"
  using assms(1)
proof (cases rule: store_facts_steps)
  case none
  with assms(2) show ?thesis by simp
next
  case (stored d1 vs)
  have one: "inv d1"
    by (rule batch_keeps [OF _ stored(1) assms(2)]) (auto simp: upsert_items_def intro: up)
  have "inv (snd (UpdateFactEmbeddingsBatch (ce_cod E) (uuid_String (ce_cod E) (mp_TenantID mp))
         (uuid_String (ce_cod E) (mp_UserID mp)) facts embs d1))" for facts embs
  proof (cases "facts = []")
    case False
    have "inv (snd (send_batch (map (\<lambda>(f, v). update_embedding_stmt (ce_cod E) (uuid_String (ce_cod E) (mp_TenantID mp))
         (uuid_String (ce_cod E) (mp_UserID mp)) f v) (filter (\<lambda>(f, v). v \<noteq> []) (zip facts embs))) d1))"
      by (rule batch_keeps [OF _ prod.collapse [symmetric] one]) (auto intro: emb)
    with False show ?thesis by (simp add: UpdateFactEmbeddingsBatch_def)
  qed (use one in \<open>simp add: UpdateFactEmbeddingsBatch_def\<close>)
  with stored(2) one show ?thesis by auto
qed

end

interpretation vetted: outside_memories "vetted E mp old" for E mp old
  by unfold_locales (simp add: vetted_def)

interpretation current_facts: outside_memories single_current
  by unfold_locales (simp add: single_current_def)

lemma encrypt_facts_items:
  "(f, e, h) \<in> set (encrypt_facts E tenantID i fs) \<Longrightarrow>
     f \<in> set fs \<and> h = ValueHash (ce_crypto_lib E) (xf_Value f) \<and>
     (\<exists>nonce. EncryptValue (ce_crypto_lib E) (ce_crypto E) nonce (xf_Value f) tenantID = Inr e)"
  by (induction fs arbitrary: i) (auto split: sum.splits)

lemma row_content_simps [simp]:
  "row_content (r\<lparr>em_valid_until := t\<rparr>) = row_content r" "row_content (r\<lparr>em_embedding := v\<rparr>) = row_content r"
  "vetted_row E mp (r\<lparr>em_valid_until := t\<rparr>) = vetted_row E mp r"
  "vetted_row E mp (r\<lparr>em_embedding := v\<rparr>) = vetted_row E mp r"
  by (simp_all add: row_content_def vetted_row_def)

lemma vetted_update_where:
  "(\<And>r. row_content (g r) = row_content r) \<Longrightarrow> (\<And>r. vetted_row E mp (g r) = vetted_row E mp r) \<Longrightarrow>
     list_all (\<lambda>r. row_content r \<in> C \<or> vetted_row E mp r) (update_where p g rs) =
     list_all (\<lambda>r. row_content r \<in> C \<or> vetted_row E mp r) rs"
  by (induction rs) simp_all

lemma upsert_vetted:
  assumes "upsertFactCTE mp f e h d = (r, d')" "vetted E mp old d"
    and "acceptable f" "h = ValueHash (ce_crypto_lib E) (xf_Value f)"
    and "EncryptValue (ce_crypto_lib E) (ce_crypto E) nonce (xf_Value f) (uuid_String (ce_cod E) (mp_TenantID mp)) = Inr e"
  shows "vetted E mp old d'"
proof -
  have new: "vetted_row E mp (inserted_row mp f e h s i now)" for s i now
    using assms(3-5) by (auto simp: vetted_row_def inserted_row_def)
  show ?thesis
    using assms(1)
  proof (cases rule: upsert_cases)
    case (failed x)
    with assms(2) vetted.tables_only show ?thesis by blast
  next
    case (same x)
    with assms(2) show ?thesis by simp
  next
    case (fresh i)
    with assms(2) new show ?thesis by (simp add: vetted_def)
  next
    case (replaced x i)
    with assms(2) new show ?thesis by (simp add: vetted_def invalidate_def vetted_update_where)
  qed
qed

lemma update_embedding_vetted:
  "update_embedding_stmt cod t u f v d = (r, d') \<Longrightarrow> vetted E mp old d \<Longrightarrow> vetted E mp old d'"
  by (auto simp: update_embedding_stmt_def exec_uuid_def vetted_def vetted_update_where split: option.splits)

lemma fact_items_good:
  assumes "map_orders E" "set fs \<subseteq> {f. acceptable f}" "(f, e, h) \<in> set (fact_items E mp fs)"
  shows "acceptable f \<and> h = ValueHash (ce_crypto_lib E) (xf_Value f) \<and>
    (\<exists>nonce. EncryptValue (ce_crypto_lib E) (ce_crypto E) nonce (xf_Value f) (uuid_String (ce_cod E) (mp_TenantID mp)) = Inr e)"
proof -
  have "set (ce_order1 E fs) = set fs" using assms(1) by (metis map_orders_def mset_eq_setD)
  with encrypt_facts_items [of f e h] assms(2,3) show ?thesis unfolding fact_items_def by blast
qed

lemma store_facts_vetted:
  assumes "map_orders E" "set fs \<subseteq> {f. acceptable f}" "store_facts E mp fs d = (r, d')" "vetted E mp old d"
  shows "vetted E mp old d'"
proof (rule vetted.store_facts_keeps [OF assms(3,4)])
  fix f e h a q b
  assume "(f, e, h) \<in> set (fact_items E mp fs)" "upsertFactCTE mp f e h a = (q, b)" "vetted E mp old a"
  with fact_items_good [OF assms(1,2)] upsert_vetted show "vetted E mp old b" by blast
qed (rule update_embedding_vetted)

lemma store_facts_single:
  assumes "store_facts E mp fs d = (r, d')" "single_current d"
  shows "single_current d'"
  by (rule single.store_facts_keeps [OF assms]) (auto intro: upsert_single update_embedding_single)


section \<open>What a run leaves in the tables\<close>

text \<open>A run is a fetch, which changes no table, and the processing of the messages found.\<close>

lemma batch_run_cases:
  assumes "processBatchPayload E R payload w = (r, w')"
  obtains (malformed) e where "parse_batch payload = Inl e" "r = Some (Unrecoverable e)" "w' = w"
  | (unfetched) e where "r = Some e" "same_tables (w_db w) (w_db w')"
  | (run) b m ms w1 where "parse_batch payload = Inr b" "fetch_window R (ce_cod E) b (bi_BatchSize b) w = (Inr (m # ms), w1)"
      "same_tables (w_db w) (w_db w1)" "w_redis w' = w_redis w1"
      "process_messages E (m # ms) (batch_message_payload m) (w_db w1) = (r, w_db w')"
proof -
  have "parse_batch payload = Inl e \<Longrightarrow> thesis" for e
    using assms malformed [of e] by (simp add: processBatchPayload_def)
  moreover have thesis if b: "parse_batch payload = Inr b" for b
  proof -
    obtain f w1 where f: "fetch_window R (ce_cod E) b (bi_BatchSize b) w = (f, w1)" by fastforce
    note same = fetch_window_tables [OF f]
    show thesis
    proof (cases "f = Inr [] \<or> (\<exists>e. f = Inl e)")
      case True
      then obtain e where "r = Some e" "w' = w1" using assms b f by (auto simp: processBatchPayload_def)
      with same show ?thesis by (intro unfetched) auto
    next
      case False
      then obtain m ms where g: "f = Inr (m # ms)" by (cases f; cases "projr f") auto
      with assms b f have "on_db (process_messages E (m # ms) (batch_message_payload m)) w1 = (r, w')"
        by (simp add: processBatchPayload_def)
      then have "w_redis w' = w_redis w1" "process_messages E (m # ms) (batch_message_payload m) (w_db w1) = (r, w_db w')"
        by (auto dest: on_db_tables on_db_redis)
      with b f [unfolded g] same show ?thesis by (rule run)
    qed
  qed
  ultimately show thesis by (cases "parse_batch payload") auto
qed

context outside_memories
begin

lemma batch_run_keeps:
  assumes "processBatchPayload E R payload w = (r, w')" "inv (w_db w)"
    and facts: "\<And>mp fs a q b. set fs \<subseteq> {f. acceptable f} \<Longrightarrow> store_facts E mp fs a = (q, b) \<Longrightarrow> inv a \<Longrightarrow> inv b"
  shows "inv (w_db w')"
  using assms(1)
proof (cases rule: batch_run_cases)
  case (run b m ms w1)
  with assms(2) show ?thesis by (intro process_messages_keeps [OF run(5)]) (auto intro: tables_only facts)
qed (use assms(2) in \<open>auto intro: tables_only\<close>)

end

lemma single_current_run:
  "processBatchPayload E R payload w = (r, w') \<Longrightarrow> single_current (w_db w) \<Longrightarrow> single_current (w_db w')"
  by (erule (1) current_facts.batch_run_keeps) (rule store_facts_single)

lemma vetted_run:
  assumes "map_orders E" "processBatchPayload E R payload w = (r, w')" "e \<in> set (db_entities (w_db w'))"
    and new: "row_content e \<notin> row_content ` set (db_entities (w_db w))"
  shows "\<exists>b m ms. parse_batch payload = Inr b \<and>
    fst (fetch_window R (ce_cod E) b (bi_BatchSize b) w) = Inr (m # ms) \<and> vetted_row E (batch_message_payload m) e"
  using assms(2)
proof (cases rule: batch_run_cases)
  case (run b m ms w1)
  let ?mp = "batch_message_payload m"
  have "vetted E ?mp (db_entities (w_db w)) (w_db w)" by (simp add: vetted_def list_all_iff)
  then have "vetted E ?mp (db_entities (w_db w)) (w_db w1)" using run(3) vetted.tables_only by blast
  then have "vetted E ?mp (db_entities (w_db w)) (w_db w')"
    by (rule vetted.process_messages_keeps [OF run(5)]) (rule store_facts_vetted [OF assms(1)])
  with assms(3) new have "vetted_row E ?mp e" by (auto simp: vetted_def list_all_iff)
  with run(1,2) show ?thesis by auto
qed (use assms(3) new in \<open>auto simp: same_tables_def\<close>)

section \<open>Errors\<close>

text \<open>A run that ends with an error has stored nothing: at most the usage record was written.\<close>

definition same_knowledge :: "db \<Rightarrow> db \<Rightarrow> bool" where
  "same_knowledge d d' \<longleftrightarrow> db_entities d' = db_entities d \<and> db_memories d' = db_memories d \<and>
     db_messages d' = db_messages d \<and> db_sessions d' = db_sessions d"

lemma same_knowledge_intros:
  "same_tables d d' \<Longrightarrow> same_knowledge d d'" "same_knowledge a b \<Longrightarrow> same_knowledge b c \<Longrightarrow> same_knowledge a c"
  by (simp_all add: same_tables_def same_knowledge_def)

interpretation knowledge: table_invariant "same_knowledge old" for old
  by unfold_locales (simp add: same_tables_def same_knowledge_def)

lemma usage_knowledge: "same_knowledge old d \<Longrightarrow> same_knowledge old (d\<lparr>db_usage := us\<rparr>)"
  by (simp add: same_knowledge_def)

lemma Record_knowledge: "Record i u d = (r, d') \<Longrightarrow> same_knowledge old d \<Longrightarrow> same_knowledge old d'"
  by (auto simp: Record_def apfst_def map_prod_def split: prod.splits if_splits
      elim!: knowledge.exec_keeps [rotated] intro: usage_knowledge)

lemma buildBatchPrompt_tables:
  "buildBatchPrompt E t u tr d = (p, d') \<Longrightarrow> same_tables d d'"
  by (auto simp: buildBatchPrompt_def GetTopEntityNames_def Get_def Let_def split: prod.splits sum.splits
      dest!: pool_query_tables intro: same_tables_trans)

lemma store_facts_error: "store_facts E mp fs d = (Some e, d') \<Longrightarrow> is_panic e"
  by (auto simp: store_facts_def Let_def split: if_splits sum.splits)

lemma store_persona_error: "store_persona E mp us d = (Some e, d') \<Longrightarrow> is_panic e"
  by (auto simp: store_persona_def Let_def split: if_splits sum.splits prod.splits)

lemma process_messages_error:
  assumes "process_messages E msgs mp d = (Some e, d')" "\<not> is_panic e"
  shows "same_knowledge d d'"
proof -
  have "same_knowledge d d" by (simp add: same_knowledge_def)
  with assms show ?thesis
    by (auto simp: process_messages_def store_extraction_def Let_def split: prod.splits sum.splits option.splits
        dest!: buildBatchPrompt_tables store_facts_error store_persona_error
        intro: same_knowledge_intros(1) Record_knowledge [OF prod.collapse [symmetric]])
qed

lemma run_error:
  assumes "processBatchPayload E R payload w = (Some e, w')" "\<not> is_panic e"
  shows "same_knowledge (w_db w) (w_db w')"
  using assms(1)
proof (cases rule: batch_run_cases)
  case (run b m ms w1)
  with assms(2) show ?thesis by (metis process_messages_error same_knowledge_intros)
qed (auto intro: same_knowledge_intros(1))

text \<open>An answer that cannot be parsed is not worth a retry; a failed call is the caller's error.\<close>

lemma unparsed_answer:
  assumes "Generate (ce_llm E) (BuildLLMRequest ''You are a cognitive data extractor''
      (fst (buildBatchPrompt E (uuid_String (ce_cod E) (mp_TenantID mp)) (uuid_String (ce_cod E) (mp_UserID mp))
         (transcript msgs) d))) = Inr (resp, tokens)"
    and "parse_extraction resp = Inl e"
  shows "fst (process_messages E msgs mp d) = Some (Unrecoverable e)"
  using assms by (simp add: process_messages_def split_beta Let_def)

section \<open>Redelivery\<close>

text \<open>
  An event whose processing was interrupted is delivered again. Facts that are already current are
  not written again, whatever the order of the map and the nonces of the second run.
\<close>

definition same_history :: "entity_row list \<Rightarrow> db \<Rightarrow> bool" where
  "same_history old d \<longleftrightarrow>
     map (\<lambda>r. r\<lparr>em_embedding := None\<rparr>) (db_entities d) = map (\<lambda>r. r\<lparr>em_embedding := None\<rparr>) old"

interpretation same_history: outside_memories "same_history old" for old
  by unfold_locales (simp add: same_history_def)

lemma find_forget:
  assumes "map g rs = map g qs" "\<And>r. p (g r) = p r"
  shows "map_option g (List.find p rs) = map_option g (List.find p qs)"
proof -
  have "map_option g (List.find p xs) = List.find p (map g xs)" for xs
    by (induction xs) (simp_all add: assms(2))
  with assms(1) show ?thesis by simp
qed

lemma same_history_hash:
  assumes "same_history old d" "same_history old d'"
  shows "current_hash d' = current_hash d"
proof
  fix k
  let ?g = "\<lambda>r :: entity_row. r\<lparr>em_embedding := None\<rparr>" and ?p = "\<lambda>r. fact_of r = k \<and> current r"
  have "map_option ?g (List.find ?p (db_entities d')) = map_option ?g (List.find ?p (db_entities d))"
    using assms by (intro find_forget) (auto simp: same_history_def fact_of_def current_def)
  then have "map_option em_value_hash (map_option ?g (List.find ?p (db_entities d'))) =
      map_option em_value_hash (map_option ?g (List.find ?p (db_entities d)))" by simp
  then show "current_hash d' k = current_hash d k"
    by (simp add: current_hash_def option.map_comp comp_def)
qed

lemma upsert_current_value: "current_hash d (upsert_key mp f) = Some h \<Longrightarrow> upsertFactCTE mp f e h d = (Inr (), d)"
proof -
  have "update_where (\<lambda>r. False) g rs = rs" for g and rs :: "entity_row list"
    by (rule update_where_none) simp
  then show "current_hash d (upsert_key mp f) = Some h \<Longrightarrow> upsertFactCTE mp f e h d = (Inr (), d)"
    by (auto simp: current_hash_def upsertFactCTE_eval)
qed

lemma same_history_embedding:
  "update_embedding_stmt cod t u f v d = (r, d') \<Longrightarrow> same_history old d \<Longrightarrow> same_history old d'"
proof -
  have "map (\<lambda>r. r\<lparr>em_embedding := None\<rparr>) (update_where p (\<lambda>r. r\<lparr>em_embedding := Some v\<rparr>) rs) =
      map (\<lambda>r. r\<lparr>em_embedding := None\<rparr>) rs" for p and rs :: "entity_row list"
    by (induction rs) simp_all
  then show "update_embedding_stmt cod t u f v d = (r, d') \<Longrightarrow> same_history old d \<Longrightarrow> same_history old d'"
    by (auto simp: update_embedding_stmt_def exec_uuid_def same_history_def split: option.splits)
qed

lemma store_facts_again:
  assumes "list_all (\<lambda>(f, e, h). current_hash d (upsert_key mp f) = Some h) (fact_items E mp fs)"
    and "store_facts E mp fs d = (r, d')"
  shows "same_history (db_entities d) d'"
proof (rule same_history.store_facts_keeps [OF assms(2)])
  show "same_history (db_entities d) d" by (simp add: same_history_def)
  fix f e h a q b
  assume "(f, e, h) \<in> set (fact_items E mp fs)" "upsertFactCTE mp f e h a = (q, b)" "same_history (db_entities d) a"
  moreover from this have "current_hash a (upsert_key mp f) = Some h"
    using assms(1) same_history_hash [of "db_entities d" d a] by (auto simp: list_all_iff same_history_def)
  ultimately show "same_history (db_entities d) b" by (simp add: upsert_current_value)
qed (rule same_history_embedding)

text \<open>The keys of one batch are distinct, so each of its facts is current when it was committed.\<close>

lemma upserted_other: "k \<notin> set (map (upsert_key mp \<circ> fst) zs) \<Longrightarrow> upserted mp zs m k = m k"
  by (induction mp zs m rule: upserted.induct) auto

lemma upserted_distinct:
  "distinct (map (upsert_key mp \<circ> fst) zs) \<Longrightarrow> (f, e, h) \<in> set zs \<Longrightarrow> upserted mp zs m (upsert_key mp f) = Some h"
  by (induction mp zs m rule: upserted.induct) (auto simp: upserted_other)

lemma encrypt_facts_distinct:
  "distinct (map k fs) \<Longrightarrow> distinct (map (k \<circ> fst) (encrypt_facts E t i fs))"
  by (induction fs arbitrary: i) (force split: sum.splits dest: encrypt_facts_items)+

lemma fact_items_distinct:
  assumes "map_orders E"
  shows "distinct (map (upsert_key mp \<circ> fst) (fact_items E mp (unique_facts fs)))"
proof -
  let ?k = "\<lambda>f. (xf_EntityName f, xf_Attribute f)"
  have "mset (ce_order1 E (unique_facts fs)) = mset (unique_facts fs)" using assms by (simp add: map_orders_def)
  then have "distinct (map ?k (ce_order1 E (unique_facts fs)))"
    using unique_facts_distinct [of fs] by (metis mset_eq_imp_distinct_iff mset_map)
  then have "distinct (map (upsert_key mp) (ce_order1 E (unique_facts fs)))"
    by (auto simp: distinct_map inj_on_def upsert_key_def)
  then show ?thesis unfolding fact_items_def by (rule encrypt_facts_distinct)
qed

text \<open>So a committed batch that is delivered again changes no fact, if all its facts were encrypted.\<close>

lemma fact_items_current:
  assumes "map_orders E" "map_orders E'" "ce_crypto_lib E' = ce_crypto_lib E"
    and "length (fact_items E mp (unique_facts fs)) = length (unique_facts fs)"
    and "run_statements (upsert_items mp (fact_items E mp (unique_facts fs))) d = (Inr (), d')" "single_current d"
  shows "list_all (\<lambda>(f, e, h). current_hash d' (upsert_key mp f) = Some h) (fact_items E' mp (unique_facts fs))"
proof -
  let ?zs = "fact_items E mp (unique_facts fs)"
  have acc: "set (unique_facts fs) \<subseteq> {f. acceptable f}" using unique_facts_acceptable by blast
  have now: "current_hash d' (upsert_key mp f) = Some h" if "(f, e, h) \<in> set ?zs" for f e h
    using run_upserts [OF assms(5,6)] upserted_distinct [OF fact_items_distinct [OF assms(1)] that] by simp
  have "set (map fst ?zs) = set (unique_facts fs)"
  proof (rule card_subset_eq)
    show "set (map fst ?zs) \<subseteq> set (unique_facts fs)"
      using assms(1) encrypt_facts_items unfolding fact_items_def
      by (fastforce simp: map_orders_def dest: mset_eq_setD)
    have "distinct (unique_facts fs)" using unique_facts_distinct [of fs] by (simp add: distinct_map)
    moreover have "distinct (map fst ?zs)"
      using fact_items_distinct [OF assms(1), of mp fs] by (auto simp: distinct_map inj_on_def)
    ultimately show "card (set (map fst ?zs)) = card (set (unique_facts fs))"
      using assms(4) by (simp only: distinct_card length_map)
  qed simp
  then have all: "\<exists>e h. (f, e, h) \<in> set ?zs" if "f \<in> set (unique_facts fs)" for f
    using that by force
  have "current_hash d' (upsert_key mp f) = Some h" if z: "(f, e, h) \<in> set (fact_items E' mp (unique_facts fs))" for f e h
  proof -
    have "f \<in> set (unique_facts fs)"
      using z assms(2) encrypt_facts_items unfolding fact_items_def
      by (fastforce simp: map_orders_def dest: mset_eq_setD)
    with all obtain e1 h1 where one: "(f, e1, h1) \<in> set ?zs" by blast
    have "h1 = h" using fact_items_good [OF assms(1) acc one] fact_items_good [OF assms(2) acc z] assms(3) by simp
    with now [OF one] show ?thesis by simp
  qed
  then show ?thesis by (auto simp: list_all_iff)
qed


lemma send_batch_committed:
  "send_batch qs d = (Inr u, d') \<Longrightarrow> \<exists>d1. same_tables d d1 \<and> run_statements qs d1 = (Inr (), d')"
  by (auto simp: send_batch_def pool_exec_def split: prod.splits option.splits sum.splits dest!: pool_call_tables)

lemma embeddings_history:
  assumes "same_history old d1"
  shows "same_history old (snd (UpdateFactEmbeddingsBatch cod t u facts embs d1))"
proof (cases "facts = []")
  case False
  have "same_history old (snd (send_batch (map (\<lambda>(f, v). update_embedding_stmt cod t u f v)
      (filter (\<lambda>(f, v). v \<noteq> []) (zip facts embs))) d1))"
    by (rule same_history.batch_keeps [OF _ prod.collapse [symmetric] assms]) (auto intro: same_history_embedding)
  with False show ?thesis by (simp add: UpdateFactEmbeddingsBatch_def)
qed (use assms in \<open>simp add: UpdateFactEmbeddingsBatch_def\<close>)

lemma redelivered:
  assumes orders: "map_orders E" "map_orders E'" and lib: "ce_crypto_lib E' = ce_crypto_lib E"
    and all: "length (fact_items E mp (unique_facts fs)) = length (unique_facts fs)"
    and committed: "fst (send_batch (upsert_items mp (fact_items E mp (unique_facts fs))) d) = Inr ()"
    and single: "single_current d"
    and one: "store_facts E mp (unique_facts fs) d = (r1, d1)"
    and two: "store_facts E' mp (unique_facts fs) d1 = (r2, d2)"
  shows "same_history (db_entities d1) d2"
proof (rule store_facts_again [OF _ two])
  show "list_all (\<lambda>(f, e, h). current_hash d1 (upsert_key mp f) = Some h) (fact_items E' mp (unique_facts fs))"
    using one
  proof (cases rule: store_facts_steps)
    case none
    then have "unique_facts fs = []" using all by simp
    moreover have "mset (ce_order1 E' []) = {#}" using orders(2) by (simp add: map_orders_def)
    then have "ce_order1 E' [] = []" by simp
    ultimately show ?thesis by (simp add: fact_items_def)
  next
    case (stored d3 vs)
    with committed obtain d0 where d0: "same_tables d d0"
      "run_statements (upsert_items mp (fact_items E mp (unique_facts fs))) d0 = (Inr (), d3)"
      by (metis fst_conv send_batch_committed)
    have "same_history (db_entities d3) d3" by (simp add: same_history_def)
    then have "same_history (db_entities d3) d1" using stored(2) embeddings_history by auto
    then have "current_hash d1 = current_hash d3" by (intro same_history_hash) (auto simp: same_history_def)
    then show ?thesis
      using fact_items_current [OF orders lib all d0(2) single_current_tables [OF d0(1) single]] by simp
  qed
qed

end
