(* ===== verification/ValidTexts.thy ===== *)
theory ValidTexts
  imports GoJsonText Cognitive
begin

text \<open>
  Every text that comes out of the JSON decoder is valid UTF-8, and trimming keeps it so: what the
  model answers as a persona trait reaches the database as it was compared
  (\<^verbatim>\<open>internal/worker/cognitive.go\<close>, \<^verbatim>\<open>internal/repository/memory.go\<close>).
\<close>

section \<open>Encoded texts\<close>

lemma utf8_valid_runes: "\<exists>qs. list_all valid_rune qs \<and> utf8 rs = utf8 qs"
proof (intro exI conjI)
  let ?qs = "map (\<lambda>r. if valid_rune r then r else RuneError) rs"
  have ok: "valid_rune RuneError" by (simp add: valid_rune_def RuneError_def)
  then show "list_all valid_rune ?qs" by (auto simp: list_all_iff)
  have "encode_rune (if valid_rune r then r else RuneError) = encode_rune r" for r
    using ok by (simp add: encode_rune_def)
  then show "utf8 rs = utf8 ?qs" unfolding utf8_def map_map comp_def by simp
qed

lemma valid_utf8_utf8 [simp]: "valid_utf8 (utf8 rs)"
  using utf8_valid_runes [of rs] valid_utf8_encoded by auto

lemma valid_utf8_coerce [simp]: "valid_utf8 (coerce_utf8 s)"
  by (simp add: coerce_utf8_def)

text \<open>The segments of an encoded text are its runes with their encodings.\<close>

lemma segments_utf8: "list_all valid_rune rs \<Longrightarrow> segments (utf8 rs) = map (\<lambda>r. (r, encode_rune r)) rs"
  by (induction rs) (simp_all add: encode_rune_def segments_encode_valid)

lemma valid_utf8_runes:
  assumes "valid_utf8 s"
  obtains rs where "list_all valid_rune rs" "s = utf8 rs"
  using assms utf8_valid_runes [of "runes s"] that by (auto simp: valid_utf8_def coerce_utf8_def)

lemma TrimSpace_valid [simp]:
  assumes "valid_utf8 s"
  shows "valid_utf8 (TrimSpace s)"
proof -
  obtain rs where rs: "list_all valid_rune rs" "s = utf8 rs" by (rule valid_utf8_runes [OF assms])
  let ?enc = "\<lambda>r. (r, encode_rune r)"
  have "TrimSpace s = utf8 (rev (dropWhile IsSpace (rev (dropWhile IsSpace rs))))"
    unfolding TrimSpace_def rs(2) segments_utf8 [OF rs(1)]
    by (simp add: dropWhile_map rev_map comp_def utf8_def)
  then show ?thesis by simp
qed

section \<open>The decoder\<close>

fun json_valid :: "json \<Rightarrow> bool" where
  "json_valid (JStr s) \<longleftrightarrow> valid_utf8 s"
| "json_valid (JArr js) \<longleftrightarrow> (\<forall>j \<in> set js. json_valid j)"
| "json_valid (JObj kvs) \<longleftrightarrow> (\<forall>kv \<in> set kvs. json_valid (snd kv))"
| "json_valid _ \<longleftrightarrow> True"

lemma literal_value: "literal w j s = Some (j', r) \<Longrightarrow> j' = j"
  by (auto simp: literal_def split: if_splits)

lemma parsed_valid:
  "parse_value n d s = Some (j, r) \<Longrightarrow> json_valid j"
  "parse_elems n d s = Some (js, r) \<Longrightarrow> \<forall>j \<in> set js. json_valid j"
  "parse_members n d s = Some (kvs, r) \<Longrightarrow> \<forall>kv \<in> set kvs. json_valid (snd kv)"
proof (induction n d s and n d s and n d s arbitrary: j r and js r and kvs r rule: parse_value_parse_elems_parse_members.induct)
  case (2 n d s)
  from "2.prems" show ?case
    by (auto dest!: literal_value dest: "2.IH" split: list.splits if_splits)
next
  case (4 n d s)
  obtain j1 r1 where one: "parse_value n d s = Some (j1, r1)"
    using "4.prems" by (auto split: option.splits)
  have "json_valid j1" by (rule "4.IH"(1) [OF one])
  with one "4.prems" "4.IH"(2) [OF one refl] show ?case
    by (auto split: list.splits if_splits)
next
  case (6 n d s)
  obtain q ks k r0 c vs j1 r1 where one: "skip_ws s = q # ks" "\<not> q \<noteq> chr 34" "scan_string ks = Some (k, r0)"
    "skip_ws r0 = c # vs" "\<not> c \<noteq> CHR '':''" "parse_value n d vs = Some (j1, r1)"
    using "6.prems" by (auto split: option.splits list.splits if_splits prod.splits)
  have "json_valid j1" by (rule "6.IH"(1) [OF one(1-3) refl one(4-6)])
  with one "6.prems" "6.IH"(2) [OF one(1-3) refl one(4-6) refl] show ?case
    by (fastforce split: list.splits if_splits)
qed simp_all

lemma parse_json_valid: "parse_json s = Some j \<Longrightarrow> json_valid j"
  by (auto simp: parse_json_def simp del: parse_value.simps dest: parsed_valid(1) split: option.splits prod.splits if_splits)

text \<open>A property of the struct that every field keeps holds of what was decoded.\<close>

lemma decode_fields_keeps:
  assumes "\<And>n d v s s'. (n, d) \<in> set fs \<Longrightarrow> json_valid v \<Longrightarrow> P s \<Longrightarrow> d v s = Set s' \<Longrightarrow> P s'"
    and "\<forall>kv \<in> set kvs. json_valid (snd kv)" "P s"
  shows "P (snd (decode_fields fs kvs bad s))"
proof -
  have find: "find_field fs k = Some d \<Longrightarrow> \<exists>n. (n, d) \<in> set fs" for fs :: "'a field list" and k d
    by (induction fs k rule: find_field.induct) (auto split: if_splits)
  have "find_field fs k = Some d \<Longrightarrow> d v s = Set s' \<Longrightarrow> json_valid v \<Longrightarrow> P s \<Longrightarrow> P s'" for k d v s s'
    using find assms(1) by blast
  with assms(2,3) show ?thesis
    by (induction kvs arbitrary: bad s) (auto split: option.splits step.splits)
qed

section \<open>The traits of an answer\<close>

lemma decode_strings_valid:
  "\<forall>j \<in> set js. json_valid j \<Longrightarrow> list_all valid_utf8 (snd (decode_strings js))"
  by (induction js rule: decode_strings.induct)
    (auto simp: valid_utf8_ascii split: prod.splits json.splits)

lemma parse_extraction_valid:
  assumes "parse_extraction resp = Inr x"
  shows "list_all valid_utf8 (ex_PersonaUpdates x)"
proof -
  let ?P = "\<lambda>x. list_all valid_utf8 (ex_PersonaUpdates x)"
  obtain j where j: "json_valid j" "x = snd (unmarshal_struct extraction_fields zero_extraction j)"
    using assms by (auto simp: parse_extraction_def unmarshal_def dest: parse_json_valid split: option.splits prod.splits bool.splits)
  have "?P (snd (decode_fields extraction_fields kvs False zero_extraction))" if "json_valid (JObj kvs)" for kvs
  proof (rule decode_fields_keeps)
    fix n d v and s s' :: extraction
    assume "(n, d) \<in> set extraction_fields" "json_valid v" "?P s" "d v s = Set s'"
    then show "?P s'"
      using decode_strings_valid
      by (force simp: extraction_fields_def dec_array_def split: json.splits prod.splits bool.splits)
  qed (use that in \<open>simp_all add: zero_extraction_def\<close>)
  with j show ?thesis by (cases j) (auto simp: unmarshal_struct_def zero_extraction_def)
qed

end
