(* ===== verification/Streams.thy ===== *)
theory Streams
  imports Redis "HOL-Library.Sublist" "HOL-Library.AList"
begin

text \<open>
  Reading Redis streams through a consumer group, as both workers do it (\<^verbatim>\<open>internal/worker/cognitive.go\<close>,
  \<^verbatim>\<open>internal/worker/experience.go\<close>): discovery of the tenants' streams, the delivery of new entries,
  goroutines limited by a semaphore, and the loop that claims entries left unacknowledged. The
  server's side is an argument, under the laws of the locale \<open>group_store\<close>; what a worker does with an
  entry is the handler of its policy.
\<close>

section \<open>Commands and replies\<close>

type_synonym entry = "(string \<times> bulk) list"

datatype group_cmd =
    SCAN "64 word" string int                         \<comment> \<open>cursor, pattern, count\<close>
  | XGROUP_CREATE string string string                \<comment> \<open>stream, group, start; makes the stream\<close>
  | XREADGROUP string string "string list" int        \<comment> \<open>group, consumer, streams (each with \<^verbatim>\<open>>\<close>), count\<close>
  | XACK string string "string list"
  | XPENDING string string time int                   \<comment> \<open>stream, group, idle, count\<close>
  | XCLAIM string string string time "string list"    \<comment> \<open>stream, group, consumer, idle, ids\<close>

datatype group_reply =
    GStatus
  | GScan "string list" "64 word"
  | GStreams "(string \<times> (string \<times> entry) list) list"
  | GAcked int
  | GPending "(string \<times> int) list"                   \<comment> \<open>id, number of deliveries\<close>
  | GClaimed "(string \<times> entry) list"

type_synonym 'r groups = "group_cmd \<Rightarrow> 'r \<Rightarrow> group_reply res \<times> 'r"

definition group_do :: "'r groups \<Rightarrow> group_cmd \<Rightarrow> 'r world \<Rightarrow> group_reply res \<times> 'r world" where
  "group_do G c w = (let (r, st) = G c (w_redis w) in (r, w\<lparr>w_redis := st\<rparr>))"

text \<open>\<^verbatim>\<open>msg.Values["payload"].(string)\<close>; an entry without it gives the empty text.\<close>

definition payload_of :: "entry \<Rightarrow> bulk" where
  "payload_of e = (case map_of e ''payload'' of Some v \<Rightarrow> v | None \<Rightarrow> Text [])"

section \<open>Discovery\<close>

definition cognitiveStreamSuffix :: string where
  "cognitiveStreamSuffix = '':stream:cognitive''"

definition cognitiveDLQSuffix :: string where
  "cognitiveDLQSuffix = '':stream:cognitive:dlq''"

definition cognitiveMaxStreamsPerTick :: nat where
  "cognitiveMaxStreamsPerTick = 100"

partial_function (option) scan_loop ::
  "'r groups \<Rightarrow> 64 word \<Rightarrow> string list \<Rightarrow> 'r world \<Rightarrow> ((string list \<times> 64 word) res \<times> 'r world) option" where
  "scan_loop G cursor streams w =
     (let (r, w1) = group_do G (SCAN cursor (''*'' @ cognitiveStreamSuffix) 100) w in
      case r of
        Inl e \<Rightarrow> Some (Inl e, w1)
      | Inr g \<Rightarrow>
          (case g of
             GScan keys nextCursor \<Rightarrow>
               (if nextCursor = 0 \<or> length (streams @ keys) \<ge> cognitiveMaxStreamsPerTick
                then Some (Inr (streams @ keys, nextCursor), w1)
                else scan_loop G nextCursor (streams @ keys) w1)
           | _ \<Rightarrow> Some (Inl (Err ''redis: unexpected reply''), w1)))"

text \<open>
  \<^verbatim>\<open>discoverStreams\<close>: the streams, the cursor to keep and the world; \<open>None\<close> when the scan never
  ends. The cursor is kept only when the scan succeeded.
\<close>

definition discoverStreams ::
  "'r groups \<Rightarrow> 64 word \<Rightarrow> 'r world \<Rightarrow> (string list res \<times> 64 word \<times> 'r world) option" where
  "discoverStreams G cursor w =
     map_option (\<lambda>(r, w1). case r of
         Inl e \<Rightarrow> (Inl e, cursor, w1)
       | Inr (streams, c) \<Rightarrow> (Inr (take cognitiveMaxStreamsPerTick streams), c, w1))
       (scan_loop G cursor [] w)"

section \<open>A worker\<close>

text \<open>
  What a handler did with an entry: acknowledged it, put it into the dead-letter queue and
  acknowledged it, acknowledged it although the dead-letter queue refused it, left it pending, or brought
  the process down.
\<close>

datatype outcome = Acked | Dead | Dropped | Failed | Crashed

text \<open>
  What the two workers do differently: their settings, and their handler of an entry (stream, id,
  payload, retries). The handler is a relation because the clock, random numbers and other inputs of
  a run are not part of the state.
\<close>

type_synonym 'r handler = "string \<Rightarrow> string \<Rightarrow> bulk \<Rightarrow> int \<Rightarrow> 'r world \<Rightarrow> outcome \<times> 'r world \<Rightarrow> bool"

record policy =
  pl_group :: string
  pl_consumer :: string
  pl_idle :: time
  pl_keep_cursor :: bool                \<comment> \<open>the scan goes on where the last one ended\<close>
  pl_guard :: bool                      \<comment> \<open>entries in \<^verbatim>\<open>inFlight\<close> are passed over\<close>
  pl_skip :: "int \<Rightarrow> bool"              \<comment> \<open>numbers of deliveries at which an entry is given up\<close>

text \<open>A goroutine of one entry. The number of its delivery is a history variable.\<close>

record task =
  tk_stream :: string
  tk_id :: string
  tk_payload :: bulk
  tk_retries :: int
  tk_delivery :: nat

text \<open>Where the reclaim loop is; each constructor carries what is left to do.\<close>

datatype reclaim_pc =
    RIdle
  | RStreams "string list"
  | RPend string "(string \<times> int) list" "string list"
  | RClaim string string int "(string \<times> int) list" "string list"
  | RSem task string "(string \<times> int) list" "string list"

text \<open>
  The worker. The log of handled entries (stream, id, delivery, outcome) and the list of entries
  given up are history variables.
\<close>

record 'r stream_worker =
  sw_world :: "'r world"
  sw_cursor :: "64 word"
  sw_inFlight :: "string set"
  sw_waiting :: "task list"
  sw_running :: "task list"
  sw_reclaim :: reclaim_pc
  sw_log :: "(string \<times> string \<times> nat \<times> outcome) list"
  sw_skipped :: "(string \<times> string) list"

definition started :: "'r world \<Rightarrow> 'r stream_worker" where
  "started w = \<lparr>sw_world = w, sw_cursor = 0, sw_inFlight = {}, sw_waiting = [], sw_running = [],
     sw_reclaim = RIdle, sw_log = [], sw_skipped = []\<rparr>"

text \<open>A new process in place of one that died: the history goes on.\<close>

definition restarted :: "'r world \<Rightarrow> 'r stream_worker \<Rightarrow> 'r stream_worker" where
  "restarted w s = (started w)\<lparr>sw_log := sw_log s, sw_skipped := sw_skipped s\<rparr>"

subsection \<open>The main loop\<close>

definition accept :: "policy \<Rightarrow> string \<Rightarrow> string \<times> entry \<Rightarrow> 'r stream_worker \<Rightarrow> 'r stream_worker" where
  "accept P stream m s =
     (if pl_guard P \<and> fst m \<in> sw_inFlight s then s
      else s\<lparr>sw_inFlight := (if pl_guard P then insert (fst m) (sw_inFlight s) else sw_inFlight s),
             sw_waiting := sw_waiting s @
               [\<lparr>tk_stream = stream, tk_id = fst m, tk_payload = payload_of (snd m), tk_retries = 0, tk_delivery = 1\<rparr>]\<rparr>)"

definition accept_all ::
  "policy \<Rightarrow> (string \<times> (string \<times> entry) list) list \<Rightarrow> 'r stream_worker \<Rightarrow> 'r stream_worker" where
  "accept_all P results = fold (\<lambda>(stream, ms). fold (accept P stream) ms) results"

definition ensureConsumerGroup :: "'r groups \<Rightarrow> string \<Rightarrow> string \<Rightarrow> 'r world \<Rightarrow> 'r world" where
  "ensureConsumerGroup G grp stream w = snd (group_do G (XGROUP_CREATE stream grp ''0'') w)"

definition discover ::
  "policy \<Rightarrow> 'r groups \<Rightarrow> 'r stream_worker \<Rightarrow> (string list \<times> 'r stream_worker) option" where
  "discover P G s =
     map_option (\<lambda>(r, c, w). (ok_or [] r, s\<lparr>sw_world := w, sw_cursor := (if pl_keep_cursor P then c else 0)\<rparr>))
       (discoverStreams G (sw_cursor s) (sw_world s))"

definition poll :: "policy \<Rightarrow> 'r groups \<Rightarrow> 'r stream_worker \<Rightarrow> 'r stream_worker option" where
  "poll P G s =
     (case discover P G s of
        None \<Rightarrow> None
      | Some ([], s1) \<Rightarrow> Some s1
      | Some (streams, s1) \<Rightarrow>
          (let w2 = fold (ensureConsumerGroup G (pl_group P)) streams (sw_world s1);
               (r, w3) = group_do G (XREADGROUP (pl_group P) (pl_consumer P) streams 10) w2;
               s3 = s1\<lparr>sw_world := w3\<rparr>
           in case r of Inr (GStreams results) \<Rightarrow> Some (accept_all P results s3) | _ \<Rightarrow> Some s3))"

subsection \<open>The reclaim loop\<close>

definition reclaim_task :: "string \<Rightarrow> string \<Rightarrow> entry \<Rightarrow> int \<Rightarrow> task" where
  "reclaim_task stream i e c =
     \<lparr>tk_stream = stream, tk_id = i, tk_payload = payload_of e, tk_retries = c - 1, tk_delivery = Suc (nat c)\<rparr>"

definition reclaim ::
  "policy \<Rightarrow> 'r groups \<Rightarrow> nat \<Rightarrow> 'r stream_worker \<Rightarrow> 'r stream_worker option" where
  "reclaim P G conc s =
     (case sw_reclaim s of
        RIdle \<Rightarrow> map_option (\<lambda>(streams, s1). s1\<lparr>sw_reclaim := RStreams streams\<rparr>) (discover P G s)
      | RStreams [] \<Rightarrow> Some (s\<lparr>sw_reclaim := RIdle\<rparr>)
      | RStreams (stream # ss) \<Rightarrow>
          (let (r, w1) = group_do G (XPENDING stream (pl_group P) (pl_idle P) 10) (sw_world s) in
           case r of
             Inr (GPending ps) \<Rightarrow> Some (s\<lparr>sw_world := w1, sw_reclaim := RPend stream ps ss\<rparr>)
           | _ \<Rightarrow> Some (s\<lparr>sw_world := w1, sw_reclaim := RStreams ss\<rparr>))
      | RPend stream [] ss \<Rightarrow> Some (s\<lparr>sw_reclaim := RStreams ss\<rparr>)
      | RPend stream ((i, c) # ps) ss \<Rightarrow>
          (if pl_guard P \<and> i \<in> sw_inFlight s then Some (s\<lparr>sw_reclaim := RPend stream ps ss\<rparr>)
           else if pl_skip P c
           then Some (s\<lparr>sw_world := snd (group_do G (XACK stream (pl_group P) [i]) (sw_world s)),
                        sw_reclaim := RPend stream ps ss, sw_skipped := sw_skipped s @ [(stream, i)]\<rparr>)
           else Some (s\<lparr>sw_reclaim := RClaim stream i c ps ss\<rparr>))
      | RClaim stream i c ps ss \<Rightarrow>
          (let (r, w1) = group_do G (XCLAIM stream (pl_group P) (pl_consumer P) (pl_idle P) [i]) (sw_world s) in
           case r of
             Inr (GClaimed ((_, e) # _)) \<Rightarrow>
               Some (s\<lparr>sw_world := w1, sw_inFlight := (if pl_guard P then insert i (sw_inFlight s) else sw_inFlight s),
                       sw_reclaim := RSem (reclaim_task stream i e c) stream ps ss\<rparr>)
           | _ \<Rightarrow> Some (s\<lparr>sw_world := w1, sw_reclaim := RPend stream ps ss\<rparr>))
      | RSem t stream ps ss \<Rightarrow>
          (if length (sw_running s) < conc
           then Some (s\<lparr>sw_running := sw_running s @ [t], sw_reclaim := RPend stream ps ss\<rparr>)
           else None))"

subsection \<open>Steps\<close>

text \<open>
  One round of the main loop, one action of the reclaim loop, a waiting goroutine getting a semaphore
  slot, a running one handling its entry, the death of the process, and what others do to the
  database and the server. The read and the loop over its results are one step: nothing in that loop
  blocks.
\<close>

definition drop_task :: "task \<Rightarrow> 'r world \<Rightarrow> outcome \<Rightarrow> 'r stream_worker \<Rightarrow> 'r stream_worker" where
  "drop_task t w r s =
     s\<lparr>sw_world := w, sw_running := remove1 t (sw_running s), sw_inFlight := sw_inFlight s - {tk_id t},
       sw_log := sw_log s @ [(tk_stream t, tk_id t, tk_delivery t, r)]\<rparr>"

inductive worker_step ::
  "policy \<Rightarrow> 'r handler \<Rightarrow> 'r groups \<Rightarrow> ('r \<Rightarrow> 'r \<Rightarrow> bool) \<Rightarrow> nat \<Rightarrow> 'r stream_worker \<Rightarrow> 'r stream_worker \<Rightarrow> bool"
  for P :: policy and H :: "'r handler" and G :: "'r groups" and others :: "'r \<Rightarrow> 'r \<Rightarrow> bool" and conc :: nat where
  poll: "poll P G s = Some s' \<Longrightarrow> worker_step P H G others conc s s'"
| reclaim: "reclaim P G conc s = Some s' \<Longrightarrow> worker_step P H G others conc s s'"
| start: "t \<in> set (sw_waiting s) \<Longrightarrow> length (sw_running s) < conc \<Longrightarrow>
    worker_step P H G others conc s
      (s\<lparr>sw_waiting := remove1 t (sw_waiting s), sw_running := sw_running s @ [t]\<rparr>)"
| finish: "t \<in> set (sw_running s) \<Longrightarrow>
    H (tk_stream t) (tk_id t) (tk_payload t) (tk_retries t) (sw_world s) (r, w) \<Longrightarrow> r \<noteq> Crashed \<Longrightarrow>
    worker_step P H G others conc s (drop_task t w r s)"
| panic: "t \<in> set (sw_running s) \<Longrightarrow>
    H (tk_stream t) (tk_id t) (tk_payload t) (tk_retries t) (sw_world s) (Crashed, w) \<Longrightarrow>
    worker_step P H G others conc s (restarted w (drop_task t w Crashed s))"
| crash: "worker_step P H G others conc s (restarted (sw_world s) s)"
| outside: "others (w_redis (sw_world s)) (w_redis w) \<Longrightarrow> worker_step P H G others conc s (s\<lparr>sw_world := w\<rparr>)"

definition reachable ::
  "policy \<Rightarrow> 'r handler \<Rightarrow> 'r groups \<Rightarrow> ('r \<Rightarrow> 'r \<Rightarrow> bool) \<Rightarrow> nat \<Rightarrow> 'r world \<Rightarrow> 'r stream_worker \<Rightarrow> bool" where
  "reachable P H G others conc w s \<longleftrightarrow> (worker_step P H G others conc)\<^sup>*\<^sup>* (started w) s"

section \<open>The server\<close>

text \<open>
  What a group knows: the deliveries of each pending entry, the entries it was ever given, and the
  entries a stream holds.
\<close>

record 'r group_observers =
  obs_pel :: "'r \<Rightarrow> string \<Rightarrow> string \<Rightarrow> string \<Rightarrow> nat option"     \<comment> \<open>stream, group, id\<close>
  obs_seen :: "'r \<Rightarrow> string \<Rightarrow> string \<Rightarrow> string set"
  obs_entry :: "'r \<Rightarrow> string \<Rightarrow> string \<Rightarrow> entry option"

text \<open>Nothing happened to the groups; entries may be added, or trimmed for good.\<close>

definition quiet :: "('r, 'z) group_observers_scheme \<Rightarrow> 'r \<Rightarrow> 'r \<Rightarrow> bool" where
  "quiet ob st st' \<longleftrightarrow> obs_pel ob st' = obs_pel ob st \<and> obs_seen ob st' = obs_seen ob st \<and>
     (\<forall>s g i. i \<in> obs_seen ob st s g \<and> obs_entry ob st s i = None \<longrightarrow> obs_entry ob st' s i = None)"

text \<open>At most the given entries of the group were acknowledged.\<close>

definition settled :: "('r, 'z) group_observers_scheme \<Rightarrow> string \<Rightarrow> string \<Rightarrow> string set \<Rightarrow> 'r \<Rightarrow> 'r \<Rightarrow> bool" where
  "settled ob s g A st st' \<longleftrightarrow> obs_seen ob st' = obs_seen ob st \<and>
     (\<forall>s' g' i. obs_pel ob st' s' g' i = obs_pel ob st s' g' i \<or>
        (s' = s \<and> g' = g \<and> i \<in> A \<and> obs_pel ob st' s' g' i = None)) \<and>
     (\<forall>s g i. i \<in> obs_seen ob st s g \<and> obs_entry ob st s i = None \<longrightarrow> obs_entry ob st' s i = None)"

text \<open>The entries of a read, with their streams.\<close>

definition read_ids :: "(string \<times> (string \<times> entry) list) list \<Rightarrow> (string \<times> string) list" where
  "read_ids results = concat (map (\<lambda>(s, ms). map (\<lambda>m. (s, fst m)) ms) results)"

text \<open>
  A read delivers entries the group has not been given; each becomes pending with one delivery. A
  claim counts one more delivery; an entry that is no longer in the stream is dropped from the
  pending ones. A command that fails may have taken effect all the same.
\<close>

definition delivered :: "('r, 'z) group_observers_scheme \<Rightarrow> string \<Rightarrow> (string \<times> string) set \<Rightarrow> 'r \<Rightarrow> 'r \<Rightarrow> bool" where
  "delivered ob g D st st' \<longleftrightarrow> (\<forall>(s, i) \<in> D. i \<notin> obs_seen ob st s g) \<and>
     (\<forall>s g' i. obs_pel ob st' s g' i = (if g' = g \<and> (s, i) \<in> D then Some 1 else obs_pel ob st s g' i)) \<and>
     (\<forall>s g' i. i \<in> obs_seen ob st' s g' \<longleftrightarrow> i \<in> obs_seen ob st s g' \<or> (g' = g \<and> (s, i) \<in> D)) \<and>
     (\<forall>s i. obs_entry ob st' s i = obs_entry ob st s i)"

definition claimed ::
  "('r, 'z) group_observers_scheme \<Rightarrow> string \<Rightarrow> string \<Rightarrow> string set \<Rightarrow> string set \<Rightarrow> 'r \<Rightarrow> 'r \<Rightarrow> bool" where
  "claimed ob s g C ids st st' \<longleftrightarrow> C \<subseteq> ids \<and> C \<subseteq> dom (obs_pel ob st s g) \<and> obs_seen ob st' = obs_seen ob st \<and>
     obs_entry ob st' = obs_entry ob st \<and>
     (\<forall>s' g' i. if s' = s \<and> g' = g \<and> i \<in> C then obs_pel ob st' s' g' i = map_option Suc (obs_pel ob st s' g' i)
        else obs_pel ob st' s' g' i = obs_pel ob st s' g' i \<or>
          (s' = s \<and> g' = g \<and> i \<in> ids \<and> obs_pel ob st' s' g' i = None \<and> obs_entry ob st s' i = None))"

locale group_store =
  fixes G :: "'r groups" and ob :: "'r group_observers"
  assumes scan_ok: "G (SCAN cur p n) st = (r, st') \<Longrightarrow> quiet ob st st'"
    and create_ok: "G (XGROUP_CREATE s g ''0'') st = (r, st') \<Longrightarrow> quiet ob st st'"
    and read_ok: "G (XREADGROUP g c ss n) st = (r, st') \<Longrightarrow> \<exists>D. delivered ob g D st st' \<and>
      (\<forall>results. r = Inr (GStreams results) \<longrightarrow> distinct (read_ids results) \<and> set (read_ids results) = D)"
    and ack_ok: "G (XACK s g ids) st = (r, st') \<Longrightarrow> settled ob s g (set ids) st st'"
    and pending_ok: "G (XPENDING s g idle n) st = (r, st') \<Longrightarrow> quiet ob st st' \<and>
      (\<forall>ps. r = Inr (GPending ps) \<longrightarrow> distinct (map fst ps) \<and>
         (\<forall>(i, c) \<in> set ps. i \<in> obs_seen ob st s g \<and> 0 < c \<and> obs_pel ob st s g i = Some (nat c)))"
    and claim_ok: "G (XCLAIM s g c idle ids) st = (r, st') \<Longrightarrow> \<exists>C. claimed ob s g C (set ids) st st' \<and>
      (\<forall>ms. r = Inr (GClaimed ms) \<longrightarrow> set (map fst ms) = C)"

section \<open>Invariants\<close>

definition tasks_of :: "'r stream_worker \<Rightarrow> task list" where
  "tasks_of s = sw_waiting s @ sw_running s @ (case sw_reclaim s of RSem t _ _ _ \<Rightarrow> [t] | _ \<Rightarrow> [])"

definition task_key :: "task \<Rightarrow> string \<times> string \<times> nat" where
  "task_key t = (tk_stream t, tk_id t, tk_delivery t)"

definition log_key :: "string \<times> string \<times> nat \<times> outcome \<Rightarrow> string \<times> string \<times> nat" where
  "log_key e = (case e of (s, i, d, r) \<Rightarrow> (s, i, d))"

text \<open>All deliveries that were or are being handled.\<close>

definition history :: "'r stream_worker \<Rightarrow> (string \<times> string \<times> nat) list" where
  "history s = map log_key (sw_log s) @ map task_key (tasks_of s)"

text \<open>No delivery is handled twice, and none is beyond the server's count.\<close>

definition history_ok ::
  "('r, 'z) group_observers_scheme \<Rightarrow> string \<Rightarrow> 'r \<Rightarrow> (string \<times> string \<times> nat) list \<Rightarrow> bool" where
  "history_ok ob g st h \<longleftrightarrow> distinct h \<and>
     (\<forall>(s, i, d) \<in> set h. i \<in> obs_seen ob st s g \<and> 1 \<le> d \<and> (\<forall>c. obs_pel ob st s g i = Some c \<longrightarrow> d \<le> c))"

definition task_ok :: "policy \<Rightarrow> task \<Rightarrow> bool" where
  "task_ok P t \<longleftrightarrow> tk_delivery t = 1 \<and> tk_retries t = 0 \<or>
     0 \<le> tk_retries t \<and> int (tk_delivery t) = tk_retries t + 2 \<and> \<not> pl_skip P (tk_retries t + 1)"

text \<open>The counts the reclaim loop read are still those of the entries that are pending.\<close>

definition listed_ok ::
  "('r, 'z) group_observers_scheme \<Rightarrow> string \<Rightarrow> 'r \<Rightarrow> string \<Rightarrow> (string \<times> int) list \<Rightarrow> bool" where
  "listed_ok ob g st s ps \<longleftrightarrow> distinct (map fst ps) \<and>
     (\<forall>(i, c) \<in> set ps. 0 < c \<and> i \<in> obs_seen ob st s g \<and> (\<forall>c'. obs_pel ob st s g i = Some c' \<longrightarrow> c = int c'))"

definition reclaim_ok :: "('r, 'z) group_observers_scheme \<Rightarrow> policy \<Rightarrow> 'r \<Rightarrow> reclaim_pc \<Rightarrow> bool" where
  "reclaim_ok ob P st pc \<longleftrightarrow>
     (case pc of
        RPend s ps _ \<Rightarrow> listed_ok ob (pl_group P) st s ps
      | RClaim s i c ps _ \<Rightarrow> listed_ok ob (pl_group P) st s ((i, c) # ps) \<and> \<not> pl_skip P c
      | RSem _ s ps _ \<Rightarrow> listed_ok ob (pl_group P) st s ps
      | _ \<Rightarrow> True)"

text \<open>No entry is lost: one that was delivered is pending, or trimmed, or its handling ended with an acknowledgement.\<close>

definition none_lost ::
  "('r, 'z) group_observers_scheme \<Rightarrow> string \<Rightarrow> 'r \<Rightarrow> (string \<times> string \<times> nat \<times> outcome) list \<Rightarrow> (string \<times> string) list \<Rightarrow> bool" where
  "none_lost ob g st lg sk \<longleftrightarrow>
     (\<forall>s i. i \<in> obs_seen ob st s g \<longrightarrow>
        obs_pel ob st s g i \<noteq> None \<or> obs_entry ob st s i = None \<or>
        (\<exists>d. \<exists>oc \<in> {Acked, Dead, Dropped}. (s, i, d, oc) \<in> set lg) \<or> (s, i) \<in> set sk)"

definition worker_inv ::
  "('r, 'z) group_observers_scheme \<Rightarrow> policy \<Rightarrow> nat \<Rightarrow> (outcome \<Rightarrow> bool) \<Rightarrow> nat \<Rightarrow> 'r stream_worker \<Rightarrow> bool" where
  "worker_inv ob P conc ltd bound s \<longleftrightarrow>
     length (sw_running s) \<le> conc \<and>
     history_ok ob (pl_group P) (w_redis (sw_world s)) (history s) \<and>
     (\<forall>t \<in> set (tasks_of s). task_ok P t) \<and>
     reclaim_ok ob P (w_redis (sw_world s)) (sw_reclaim s) \<and>
     (\<forall>(_, _, d, r) \<in> set (sw_log s). ltd r \<longrightarrow> d \<le> bound) \<and>
     none_lost ob (pl_group P) (w_redis (sw_world s)) (sw_log s) (sw_skipped s)"

text \<open>What the effects on the server do to the parts of the invariant.\<close>

lemma quiet_refl [simp]: "quiet ob st st"
  by (simp add: quiet_def)

lemma quiet_trans: "quiet ob a b \<Longrightarrow> quiet ob b c \<Longrightarrow> quiet ob a c"
  by (simp add: quiet_def) metis

lemma quiet_settled: "quiet ob st st' \<Longrightarrow> settled ob s g A st st'"
  by (simp add: quiet_def settled_def) blast

text \<open>Nothing happened to one group; the others may have moved.\<close>

definition quiet_in :: "('r, 'z) group_observers_scheme \<Rightarrow> string \<Rightarrow> 'r \<Rightarrow> 'r \<Rightarrow> bool" where
  "quiet_in ob g st st' \<longleftrightarrow> (\<forall>s i. obs_pel ob st' s g i = obs_pel ob st s g i) \<and>
     (\<forall>s. obs_seen ob st' s g = obs_seen ob st s g) \<and>
     (\<forall>s i. i \<in> obs_seen ob st s g \<and> obs_entry ob st s i = None \<longrightarrow> obs_entry ob st' s i = None)"

lemma quiet_in_refl [simp]: "quiet_in ob g st st"
  by (simp add: quiet_in_def)

lemma quiet_in_trans: "quiet_in ob g a b \<Longrightarrow> quiet_in ob g b c \<Longrightarrow> quiet_in ob g a c"
  by (simp add: quiet_in_def)

lemma quiet_in_intros:
  "quiet ob st st' \<Longrightarrow> quiet_in ob g st st'"
  "settled ob s h A st st' \<Longrightarrow> h \<noteq> g \<Longrightarrow> quiet_in ob g st st'"
  "delivered ob h D st st' \<Longrightarrow> h \<noteq> g \<Longrightarrow> quiet_in ob g st st'"
  "claimed ob s h C ids st st' \<Longrightarrow> h \<noteq> g \<Longrightarrow> quiet_in ob g st st'"
  subgoal by (auto simp: quiet_def quiet_in_def)
  subgoal unfolding settled_def quiet_in_def by metis
  subgoal unfolding delivered_def quiet_in_def by auto
  subgoal unfolding claimed_def quiet_in_def by metis
  done

lemma settled_quiet: "settled ob s g A a b \<Longrightarrow> quiet ob b c \<Longrightarrow> settled ob s g A a c"
  "quiet ob a b \<Longrightarrow> settled ob s g A b c \<Longrightarrow> settled ob s g A a c"
  by (simp_all add: quiet_def settled_def) (metis, metis)

lemma settled_cases:
  assumes "settled ob s g A st st'"
  shows "obs_pel ob st' s' g' i = obs_pel ob st s' g' i \<or> s' = s \<and> g' = g \<and> i \<in> A \<and> obs_pel ob st' s' g' i = None"
proof -
  have "\<forall>s' g' i. obs_pel ob st' s' g' i = obs_pel ob st s' g' i \<or>
        (s' = s \<and> g' = g \<and> i \<in> A \<and> obs_pel ob st' s' g' i = None)"
    using assms [unfolded settled_def, THEN conjunct2, THEN conjunct1] .
  then show ?thesis by (elim allE)
qed

lemma settled_pel:
  "settled ob s g A st st' \<Longrightarrow> obs_pel ob st' s' g' i = Some c \<Longrightarrow> obs_pel ob st s' g' i = Some c"
  using settled_cases [of ob s g A st st' s' g' i] by simp

lemma settled_seen: "settled ob s g A st st' \<Longrightarrow> obs_seen ob st' = obs_seen ob st"
  by (simp only: settled_def)

lemma delivered_pel:
  "delivered ob g D st st' \<Longrightarrow> i \<in> obs_seen ob st s g \<Longrightarrow> obs_pel ob st' s g i = obs_pel ob st s g i"
  unfolding delivered_def by (metis (no_types, lifting) case_prodD)

lemma claimed_pel:
  assumes "claimed ob s g C ids st st'" "obs_pel ob st' s' g j = Some k"
  shows "\<exists>k' \<le> k. obs_pel ob st s' g j = Some k'"
proof -
  have "obs_pel ob st' s' g j = map_option Suc (obs_pel ob st s' g j) \<or> obs_pel ob st' s' g j = obs_pel ob st s' g j \<or>
      obs_pel ob st' s' g j = None"
    using assms(1) unfolding claimed_def by meson
  with assms(2) show ?thesis by (cases "obs_pel ob st s' g j") auto
qed

text \<open>The server moved on: entries stay seen, and counts only grow or end.\<close>

definition later :: "('r, 'z) group_observers_scheme \<Rightarrow> string \<Rightarrow> 'r \<Rightarrow> 'r \<Rightarrow> bool" where
  "later ob g st st' \<longleftrightarrow> (\<forall>s i. i \<in> obs_seen ob st s g \<longrightarrow> i \<in> obs_seen ob st' s g \<and>
     (\<forall>k. obs_pel ob st' s g i = Some k \<longrightarrow> (\<exists>k' \<le> k. obs_pel ob st s g i = Some k')))"

lemma effects_later:
  "settled ob s g A st st' \<Longrightarrow> later ob g' st st'"
  "delivered ob g' D st st' \<Longrightarrow> later ob g' st st'"
  "claimed ob s g' C ids st st' \<Longrightarrow> later ob g' st st'"
  subgoal using settled_pel [of ob s g A st st'] by (auto simp: later_def settled_seen)
  subgoal using delivered_pel [of ob g' D st st'] by (auto simp: later_def delivered_def)
  subgoal using claimed_pel [of ob s g' C ids st st'] by (auto simp: later_def claimed_def)
  done

lemma quiet_in_later: "quiet_in ob g st st' \<Longrightarrow> later ob g st st'"
  by (auto simp: quiet_in_def later_def)

lemma later_history:
  assumes "later ob g st st'" "history_ok ob g st h"
  shows "history_ok ob g st' h"
proof -
  have "i \<in> obs_seen ob st' s g \<and> 1 \<le> d \<and> (\<forall>c. obs_pel ob st' s g i = Some c \<longrightarrow> d \<le> c)"
    if "(s, i, d) \<in> set h" for s i d
  proof -
    have old: "i \<in> obs_seen ob st s g" "1 \<le> d" "obs_pel ob st s g i = Some c \<Longrightarrow> d \<le> c" for c
      using assms(2) that unfolding history_ok_def by auto
    have "d \<le> c" if "obs_pel ob st' s g i = Some c" for c
      using assms(1) old that unfolding later_def by (meson order_trans)
    with old assms(1) show ?thesis unfolding later_def by blast
  qed
  with assms(2) show ?thesis by (auto simp: history_ok_def)
qed

lemma listed_same:
  assumes "listed_ok ob g st s ps" "\<And>i. i \<in> fst ` set ps \<Longrightarrow> i \<in> obs_seen ob st s g \<Longrightarrow> i \<in> obs_seen ob st' s g"
    and "\<And>i k. i \<in> fst ` set ps \<Longrightarrow> i \<in> obs_seen ob st s g \<Longrightarrow> obs_pel ob st' s g i = Some k \<Longrightarrow> obs_pel ob st s g i = Some k"
  shows "listed_ok ob g st' s ps"
proof -
  have "0 < c \<and> i \<in> obs_seen ob st' s g \<and> (\<forall>c'. obs_pel ob st' s g i = Some c' \<longrightarrow> c = int c')"
    if ic: "(i, c) \<in> set ps" for i c
  proof -
    have old: "0 < c" "i \<in> obs_seen ob st s g" "obs_pel ob st s g i = Some c' \<Longrightarrow> c = int c'" for c'
      using assms(1) ic unfolding listed_ok_def by auto
    have "i \<in> fst ` set ps" using ic by force
    with old assms(2,3) show ?thesis by blast
  qed
  with assms(1) show ?thesis by (auto simp: listed_ok_def)
qed

lemma settled_listed: "settled ob s g A st st' \<Longrightarrow> listed_ok ob g' st s' ps \<Longrightarrow> listed_ok ob g' st' s' ps"
  by (erule listed_same) (auto simp: settled_seen dest: settled_pel)

lemma quiet_in_listed: "quiet_in ob g st st' \<Longrightarrow> listed_ok ob g st s ps \<Longrightarrow> listed_ok ob g st' s ps"
  by (erule listed_same) (auto simp: quiet_in_def)

lemma quiet_in_none_lost: "quiet_in ob g st st' \<Longrightarrow> none_lost ob g st lg sk \<Longrightarrow> none_lost ob g st' lg sk"
  unfolding quiet_in_def none_lost_def by metis

lemma delivered_listed: "delivered ob g D st st' \<Longrightarrow> listed_ok ob g st s ps \<Longrightarrow> listed_ok ob g st' s ps"
  by (erule listed_same) (auto simp: delivered_pel, simp add: delivered_def)

lemma claimed_listed:
  assumes "claimed ob s g C {i} st st'" "listed_ok ob g st s ((i, c) # ps)"
  shows "listed_ok ob g st' s ps"
proof (rule listed_same)
  show "listed_ok ob g st s ps" using assms(2) by (simp add: listed_ok_def)
  fix j assume j: "j \<in> fst ` set ps"
  show "j \<in> obs_seen ob st s g \<Longrightarrow> j \<in> obs_seen ob st' s g" using assms(1) by (simp add: claimed_def)
  have "j \<noteq> i" using assms(2) j by (auto simp: listed_ok_def)
  then have "obs_pel ob st' s g j = obs_pel ob st s g j"
    using assms(1) unfolding claimed_def by (metis singletonD subsetD)
  then show "obs_pel ob st' s g j = Some k \<Longrightarrow> obs_pel ob st s g j = Some k" for k by simp
qed

lemma settled_none_lost:
  assumes "settled ob s g A st st'" "none_lost ob g st lg sk"
    and "\<And>i. i \<in> A \<Longrightarrow> (\<exists>d. \<exists>oc \<in> {Acked, Dead, Dropped}. (s, i, d, oc) \<in> set lg') \<or> (s, i) \<in> set sk'"
    and "set lg \<subseteq> set lg'" "set sk \<subseteq> set sk'"
  shows "none_lost ob g st' lg' sk'"
  unfolding none_lost_def
proof (intro allI impI)
  fix s' i
  assume "i \<in> obs_seen ob st' s' g"
  then have seen: "i \<in> obs_seen ob st s' g" using assms(1) by (simp add: settled_def)
  with assms(2) consider "obs_pel ob st s' g i \<noteq> None" | "obs_entry ob st s' i = None"
    | "(\<exists>d. \<exists>oc \<in> {Acked, Dead, Dropped}. (s', i, d, oc) \<in> set lg) \<or> (s', i) \<in> set sk"
    unfolding none_lost_def by metis
  then show "obs_pel ob st' s' g i \<noteq> None \<or> obs_entry ob st' s' i = None \<or>
      (\<exists>d. \<exists>oc \<in> {Acked, Dead, Dropped}. (s', i, d, oc) \<in> set lg') \<or> (s', i) \<in> set sk'"
  proof cases
    case 1
    then have "obs_pel ob st' s' g i \<noteq> None \<or> s' = s \<and> i \<in> A" using settled_cases [OF assms(1), of s' g i] by auto
    with assms(3) show ?thesis by blast
  next
    case 2
    with seen assms(1) show ?thesis by (auto simp: settled_def)
  next
    case 3
    with assms(4,5) show ?thesis by blast
  qed
qed

lemma delivered_history:
  assumes "delivered ob g D st st'" "history_ok ob g st h" "distinct es" "set es \<subseteq> D"
  shows "history_ok ob g st' (h @ map (\<lambda>(s, i). (s, i, 1)) es)"
proof -
  have new: "(s, i, d) \<notin> set h" if "(s, i) \<in> D" for s i d
  proof
    assume "(s, i, d) \<in> set h"
    then have "i \<in> obs_seen ob st s g" using assms(2) unfolding history_ok_def by auto
    with that assms(1) show False unfolding delivered_def by blast
  qed
  have h: "history_ok ob g st' h" by (rule later_history [OF effects_later(2) [OF assms(1)] assms(2)])
  have "distinct (map (\<lambda>(s, i). (s, i, 1 :: nat)) es)"
    using assms(3) by (auto simp: distinct_map inj_on_def)
  moreover have "set h \<inter> set (map (\<lambda>(s, i). (s, i, 1 :: nat)) es) = {}"
    using new assms(4) by auto
  moreover have "i \<in> obs_seen ob st' s g" "obs_pel ob st' s g i = Some 1" if "(s, i) \<in> set es" for s i
    using assms(1,4) that unfolding delivered_def by auto
  ultimately show ?thesis using h by (auto simp: history_ok_def)
qed

lemma delivered_none_lost:
  assumes "delivered ob g D st st'" "none_lost ob g st lg sk"
  shows "none_lost ob g st' lg sk"
  unfolding none_lost_def
proof (intro allI impI)
  fix s i
  assume i: "i \<in> obs_seen ob st' s g"
  show "obs_pel ob st' s g i \<noteq> None \<or> obs_entry ob st' s i = None \<or>
      (\<exists>d. \<exists>oc \<in> {Acked, Dead, Dropped}. (s, i, d, oc) \<in> set lg) \<or> (s, i) \<in> set sk"
  proof (cases "(s, i) \<in> D")
    case True
    then have "obs_pel ob st' s g i = Some 1" using assms(1) by (simp add: delivered_def)
    then show ?thesis by simp
  next
    case False
    with i assms(1) have "i \<in> obs_seen ob st s g" by (simp add: delivered_def)
    moreover have "obs_entry ob st' s i = obs_entry ob st s i" using assms(1) by (simp add: delivered_def)
    ultimately show ?thesis using assms(2) delivered_pel [OF assms(1)] unfolding none_lost_def by metis
  qed
qed

lemma claimed_history:
  assumes "claimed ob s g C {i} st st'" "history_ok ob g st h" "listed_ok ob g st s ((i, c) # ps)" "i \<in> C"
  shows "history_ok ob g st' (h @ [(s, i, Suc (nat c))])"
proof -
  obtain k where k: "obs_pel ob st s g i = Some k" using assms(1,4) unfolding claimed_def by blast
  then have c: "c = int k" "i \<in> obs_seen ob st s g" using assms(3) by (auto simp: listed_ok_def)
  have k': "obs_pel ob st' s g i = Some (Suc k)" using assms(1,4) k unfolding claimed_def by (metis option.map(2))
  have "(s, i, Suc k) \<notin> set h"
  proof
    assume "(s, i, Suc k) \<in> set h"
    then have "Suc k \<le> k" using assms(2) k unfolding history_ok_def by auto
    then show False by simp
  qed
  moreover have "obs_seen ob st' = obs_seen ob st" using assms(1) by (simp add: claimed_def)
  ultimately show ?thesis
    using later_history [OF effects_later(3) [OF assms(1)] assms(2)] c k' by (simp add: history_ok_def)
qed

lemma claimed_none_lost:
  assumes "claimed ob s g C ids st st'" "none_lost ob g st lg sk"
  shows "none_lost ob g st' lg sk"
  unfolding none_lost_def
proof (intro allI impI)
  fix s' i
  assume "i \<in> obs_seen ob st' s' g"
  then have i: "i \<in> obs_seen ob st s' g" using assms(1) by (simp add: claimed_def)
  have "obs_entry ob st' = obs_entry ob st" using assms(1) by (simp add: claimed_def)
  moreover have "obs_pel ob st' s' g i = map_option Suc (obs_pel ob st s' g i) \<or>
      obs_pel ob st' s' g i = obs_pel ob st s' g i \<or> obs_entry ob st s' i = None"
    using assms(1) unfolding claimed_def by meson
  ultimately show "obs_pel ob st' s' g i \<noteq> None \<or> obs_entry ob st' s' i = None \<or>
      (\<exists>d. \<exists>oc \<in> {Acked, Dead, Dropped}. (s', i, d, oc) \<in> set lg) \<or> (s', i) \<in> set sk"
    using assms(2) i unfolding none_lost_def by (metis option.map_disc_iff)
qed

section \<open>Every step keeps the invariant\<close>

lemma group_do_redis: "group_do G c w = (r, w') \<Longrightarrow> G c (w_redis w) = (r, w_redis w')"
  by (auto simp: group_do_def split: prod.splits)

lemma mset_tasks:
  assumes "t \<in> set ts"
  shows "mset (map f ts) = add_mset (f t) (mset (map f (remove1 t ts)))"
proof -
  have "mset ts = add_mset t (mset (remove1 t ts))" using assms by simp
  then have "image_mset f (mset ts) = image_mset f (add_mset t (mset (remove1 t ts)))" by (rule arg_cong)
  then show ?thesis by (simp only: mset_map image_mset_add_mset)
qed

context group_store
begin

lemma do_scan: "group_do G (SCAN cur p n) w = (r, w') \<Longrightarrow> quiet ob (w_redis w) (w_redis w')"
  by (drule group_do_redis) (rule scan_ok)

lemma do_create: "group_do G (XGROUP_CREATE s g ''0'') w = (r, w') \<Longrightarrow> quiet ob (w_redis w) (w_redis w')"
  by (drule group_do_redis) (rule create_ok)

lemma do_read: "group_do G (XREADGROUP g c ss n) w = (r, w') \<Longrightarrow> \<exists>D. delivered ob g D (w_redis w) (w_redis w') \<and>
    (\<forall>results. r = Inr (GStreams results) \<longrightarrow> distinct (read_ids results) \<and> set (read_ids results) = D)"
  by (drule group_do_redis) (rule read_ok)

lemma do_ack: "group_do G (XACK s g ids) w = (r, w') \<Longrightarrow> settled ob s g (set ids) (w_redis w) (w_redis w')"
  by (drule group_do_redis) (rule ack_ok)

lemma do_pending: "group_do G (XPENDING s g idle n) w = (r, w') \<Longrightarrow> quiet ob (w_redis w) (w_redis w') \<and>
    (\<forall>ps. r = Inr (GPending ps) \<longrightarrow> distinct (map fst ps) \<and>
       (\<forall>(i, c) \<in> set ps. i \<in> obs_seen ob (w_redis w) s g \<and> 0 < c \<and> obs_pel ob (w_redis w) s g i = Some (nat c)))"
  by (drule group_do_redis) (rule pending_ok)

lemma do_claim: "group_do G (XCLAIM s g c idle ids) w = (r, w') \<Longrightarrow>
    \<exists>C. claimed ob s g C (set ids) (w_redis w) (w_redis w') \<and>
      (\<forall>ms. r = Inr (GClaimed ms) \<longrightarrow> set (map fst ms) = C)"
  by (drule group_do_redis) (rule claim_ok)

lemma scan_quiet: "scan_loop G c ss w = Some (r, w') \<Longrightarrow> quiet ob (w_redis w) (w_redis w')"
proof -
  have "case y of (r, w') \<Rightarrow> quiet ob (w_redis w) (w_redis w')" if "scan_loop G c ss w = Some y" for y
  proof (rule scan_loop.raw_induct [OF _ that, where P = "\<lambda>H c ss w y. H = G \<longrightarrow>
      (case y of (r, w') \<Rightarrow> quiet ob (w_redis w) (w_redis w'))", rule_format], goal_cases)
    case (1 scan H c ss w y)
    obtain r w1 where one: "group_do G (SCAN c (''*'' @ cognitiveStreamSuffix) 100) w = (r, w1)" by fastforce
    then have q: "quiet ob (w_redis w) (w_redis w1)" by (rule do_scan)
    show ?case
    proof (cases y)
      case (Pair r' w')
      with 1 one q show ?thesis
        by (auto simp: Let_def split: sum.splits group_reply.splits if_splits intro: quiet_trans)
    qed
  qed simp
  then show "scan_loop G c ss w = Some (r, w') \<Longrightarrow> quiet ob (w_redis w) (w_redis w')" by auto
qed

lemma discover_quiet:
  assumes "discover P G s = Some (ss, s')"
  shows "quiet ob (w_redis (sw_world s)) (w_redis (sw_world s')) \<and>
    s' = s\<lparr>sw_world := sw_world s', sw_cursor := sw_cursor s'\<rparr>"
proof -
  obtain r c w where d: "discoverStreams G (sw_cursor s) (sw_world s) = Some (r, c, w)"
    and s': "s' = s\<lparr>sw_world := w, sw_cursor := (if pl_keep_cursor P then c else 0)\<rparr>"
    using assms by (auto simp: discover_def)
  from d obtain q where q: "scan_loop G (sw_cursor s) [] (sw_world s) = Some q" by (auto simp: discoverStreams_def)
  with d have "snd q = w" by (cases q; cases "fst q") (auto simp: discoverStreams_def)
  with q have "quiet ob (w_redis (sw_world s)) (w_redis w)" using scan_quiet [of "sw_cursor s" "[]" "sw_world s" "fst q" w] by auto
  with s' show ?thesis by simp
qed

lemma ensure_quiet: "quiet ob (w_redis w) (w_redis (fold (ensureConsumerGroup G g) ss w))"
proof (induction ss arbitrary: w)
  case (Cons s ss)
  have "quiet ob (w_redis w) (w_redis (ensureConsumerGroup G g s w))"
    unfolding ensureConsumerGroup_def by (rule do_create [OF prod.collapse [symmetric]])
  with Cons.IH show ?case by (auto intro: quiet_trans)
qed simp

end

text \<open>The main loop starts a goroutine for some of the entries it read.\<close>

definition first_delivery :: "string \<times> string \<Rightarrow> string \<times> string \<times> nat" where
  "first_delivery = (\<lambda>(s, i). (s, i, 1))"

definition accepted :: "(string \<times> string) list \<Rightarrow> 'r stream_worker \<Rightarrow> 'r stream_worker \<Rightarrow> bool" where
  "accepted es s s' \<longleftrightarrow> (\<exists>ts F xs. s' = s\<lparr>sw_inFlight := F, sw_waiting := sw_waiting s @ ts\<rparr> \<and>
     map task_key ts = map first_delivery xs \<and> subseq xs es \<and>
     list_all (\<lambda>t. tk_delivery t = 1 \<and> tk_retries t = 0) ts)"

lemma accepted_Nil: "accepted [] s s"
  unfolding accepted_def by (intro exI [of _ "[]"] exI [of _ "sw_inFlight s"]) simp

lemma accepted_append: "accepted as s s1 \<Longrightarrow> accepted bs s1 s2 \<Longrightarrow> accepted (as @ bs) s s2"
proof -
  assume a: "accepted as s s1" and b: "accepted bs s1 s2"
  from a obtain ts F xs where 1: "s1 = s\<lparr>sw_inFlight := F, sw_waiting := sw_waiting s @ ts\<rparr>"
    "map task_key ts = map first_delivery xs" "subseq xs as" "list_all (\<lambda>t. tk_delivery t = 1 \<and> tk_retries t = 0) ts"
    unfolding accepted_def by blast
  from b obtain ts' F' xs' where 2: "s2 = s1\<lparr>sw_inFlight := F', sw_waiting := sw_waiting s1 @ ts'\<rparr>"
    "map task_key ts' = map first_delivery xs'" "subseq xs' bs" "list_all (\<lambda>t. tk_delivery t = 1 \<and> tk_retries t = 0) ts'"
    unfolding accepted_def by blast
  have "s2 = s\<lparr>sw_inFlight := F', sw_waiting := sw_waiting s @ (ts @ ts')\<rparr>" using 1(1) 2(1) by simp
  moreover have "map task_key (ts @ ts') = map first_delivery (xs @ xs')" using 1(2) 2(2) by simp
  moreover have "subseq (xs @ xs') (as @ bs)" using 1(3) 2(3) by (rule list_emb_append_mono)
  moreover have "list_all (\<lambda>t. tk_delivery t = 1 \<and> tk_retries t = 0) (ts @ ts')" using 1(4) 2(4) by simp
  ultimately show ?thesis unfolding accepted_def by blast
qed

lemma accept_accepted: "accepted [(stream, fst m)] s (accept P stream m s)"
proof (cases "pl_guard P \<and> fst m \<in> sw_inFlight s")
  case True
  then show ?thesis unfolding accepted_def
    by (intro exI [of _ "[]"] exI [of _ "sw_inFlight s"]) (simp add: accept_def)
next
  case False
  let ?t = "\<lparr>tk_stream = stream, tk_id = fst m, tk_payload = payload_of (snd m), tk_retries = 0, tk_delivery = 1\<rparr>"
  show ?thesis unfolding accepted_def
    by (intro exI [of _ "[?t]"] exI [of _ "if pl_guard P then insert (fst m) (sw_inFlight s) else sw_inFlight s"]
        exI [of _ "[(stream, fst m)]"])
      (use False in \<open>simp add: accept_def task_key_def first_delivery_def\<close>)
qed

lemma accept_all_accepted: "accepted (read_ids results) s (accept_all P results s)"
proof -
  have one: "accepted (map (\<lambda>m. (stream, fst m)) ms) s (fold (accept P stream) ms s)" for stream ms s
  proof (induction ms arbitrary: s)
    case (Cons m ms)
    show ?case using accepted_append [OF accept_accepted [of stream m s P] Cons.IH] by simp
  qed (simp add: accepted_Nil)
  show ?thesis
  proof (induction results arbitrary: s)
    case (Cons r results)
    obtain stream ms where r: "r = (stream, ms)" by (cases r)
    show ?case
      using accepted_append [OF one [of stream ms s] Cons.IH [of "fold (accept P stream) ms s"]]
      by (simp add: r accept_all_def read_ids_def)
  qed (simp add: accepted_Nil accept_all_def read_ids_def)
qed

section \<open>Steps with fewer neighbours, and entries never given up\<close>

lemma worker_step_mono:
  "worker_step P H G others conc s s' \<Longrightarrow> (\<And>a b. others a b \<Longrightarrow> others' a b) \<Longrightarrow> worker_step P H G others' conc s s'"
  by (induction rule: worker_step.induct) (auto intro: worker_step.intros)

lemma discover_history: "discover P G s = Some (ss, s') \<Longrightarrow> sw_skipped s' = sw_skipped s \<and> sw_log s' = sw_log s"
  by (auto simp: discover_def)

lemma accept_all_history [simp]:
  "sw_skipped (accept_all P results s) = sw_skipped s" "sw_log (accept_all P results s) = sw_log s"
  for s :: "'r stream_worker"
  using accept_all_accepted [of results s P] by (auto simp: accepted_def)

lemma poll_history: "poll P G s = Some s' \<Longrightarrow> sw_skipped s' = sw_skipped s \<and> sw_log s' = sw_log s"
  by (auto simp: poll_def Let_def split: option.splits list.splits prod.splits sum.splits group_reply.splits
      dest!: discover_history)

lemma reclaim_history:
  assumes "reclaim P G conc s = Some s'"
  shows "sw_log s' = sw_log s"
    and "sw_skipped s' = sw_skipped s \<or>
      (\<exists>k i c ps ss. sw_reclaim s = RPend k ((i, c) # ps) ss \<and> pl_skip P c \<and> sw_skipped s' = sw_skipped s @ [(k, i)])"
  using assms
  by (auto simp: reclaim_def Let_def dest!: discover_history
      split: reclaim_pc.splits list.splits prod.splits sum.splits group_reply.splits if_splits)

text \<open>
  The history is what happened: a step adds to the log the entry that a running goroutine has just
  handled, and to the entries given up one that the reclaim loop found with too many deliveries.
\<close>

lemma step_log:
  assumes "worker_step P H G others conc s s'"
  shows "sw_log s' = sw_log s \<or>
    (\<exists>t r w. t \<in> set (sw_running s) \<and> H (tk_stream t) (tk_id t) (tk_payload t) (tk_retries t) (sw_world s) (r, w) \<and>
       sw_log s' = sw_log s @ [(tk_stream t, tk_id t, tk_delivery t, r)])"
  using assms
proof cases
  case (finish t r w)
  then show ?thesis by (intro disjI2 exI [of _ t] exI [of _ r] exI [of _ w]) (simp add: drop_task_def)
next
  case (panic t w)
  then show ?thesis
    by (intro disjI2 exI [of _ t] exI [of _ Crashed] exI [of _ w]) (simp add: drop_task_def restarted_def started_def)
qed (auto simp: restarted_def started_def dest: poll_history reclaim_history)

lemma step_gives_up:
  assumes "worker_step P H G others conc s s'"
  shows "sw_skipped s' = sw_skipped s \<or>
    (\<exists>k i c ps ss. sw_reclaim s = RPend k ((i, c) # ps) ss \<and> pl_skip P c \<and> sw_skipped s' = sw_skipped s @ [(k, i)])"
  using assms
proof cases
  case reclaim
  then show ?thesis by (rule reclaim_history(2))
qed (auto simp: drop_task_def restarted_def started_def dest: poll_history)

lemma step_skipped:
  assumes "worker_step P H G others conc s s'" "\<And>c. \<not> pl_skip P c"
  shows "sw_skipped s' = sw_skipped s"
  using step_gives_up [OF assms(1)] assms(2) by blast

text \<open>
  What a worker relies on: the server, a handler that acknowledges its own entry at most, and a
  bound on the deliveries whose handling may end with certain outcomes.
\<close>

locale stream_worker = group_store G ob for G :: "'r groups" and ob :: "'r group_observers" +
  fixes P :: policy and H :: "'r handler" and conc :: nat
    and ltd :: "outcome \<Rightarrow> bool" and bound :: nat and others :: "'r \<Rightarrow> 'r \<Rightarrow> bool"
  assumes handle_ok: "H s i p r w (oc, w') \<Longrightarrow>
      if oc \<in> {Acked, Dead, Dropped} then settled ob s (pl_group P) {i} (w_redis w) (w_redis w')
      else quiet ob (w_redis w) (w_redis w')"
    and limit: "H s i p r w (oc, w') \<Longrightarrow> ltd oc \<Longrightarrow> 0 \<le> r \<Longrightarrow> \<not> pl_skip P (r + 1) \<Longrightarrow> r + 2 \<le> int bound"
    and bound_pos: "1 \<le> bound"
    and others_ok: "others st st' \<Longrightarrow> quiet_in ob (pl_group P) st st'"
begin

abbreviation inv :: "'r stream_worker \<Rightarrow> bool" where
  "inv \<equiv> worker_inv ob P conc ltd bound"

lemma history_mset:
  assumes "mset h = mset h'"
  shows "history_ok ob g st h = history_ok ob g st h'"
  using mset_eq_imp_distinct_iff [OF assms] mset_eq_setD [OF assms] by (simp add: history_ok_def)

text \<open>Effects on the server that leave the worker's own state.\<close>

lemma later_inv:
  assumes "inv s" "later ob (pl_group P) (w_redis (sw_world s)) (w_redis w)"
    and "reclaim_ok ob P (w_redis w) pc" "none_lost ob (pl_group P) (w_redis w) (sw_log s) sk"
    and "\<And>t a b c. pc \<noteq> RSem t a b c"  "\<And>t a b c. sw_reclaim s \<noteq> RSem t a b c"
  shows "inv (s\<lparr>sw_world := w, sw_cursor := c, sw_reclaim := pc, sw_skipped := sk\<rparr>)"
proof -
  have t: "tasks_of (s\<lparr>sw_world := w, sw_cursor := c, sw_reclaim := pc, sw_skipped := sk\<rparr>) = tasks_of s"
    using assms(5,6) by (auto simp: tasks_of_def split: reclaim_pc.splits)
  then show ?thesis
    using assms later_history [OF assms(2)] by (simp add: worker_inv_def history_def)
qed

lemma quiet_later: "quiet ob st st' \<Longrightarrow> later ob g st st'"
  by (rule effects_later(1) [OF quiet_settled])

lemma reclaim_settled: "settled ob s g A st st' \<Longrightarrow> reclaim_ok ob P st pc \<Longrightarrow> reclaim_ok ob P st' pc"
  by (auto simp: reclaim_ok_def settled_listed split: reclaim_pc.splits)

lemma reclaim_delivered: "delivered ob (pl_group P) D st st' \<Longrightarrow> reclaim_ok ob P st pc \<Longrightarrow> reclaim_ok ob P st' pc"
  by (auto simp: reclaim_ok_def delivered_listed split: reclaim_pc.splits)

lemma quiet_none_lost: "quiet ob st st' \<Longrightarrow> none_lost ob g st lg sk \<Longrightarrow> none_lost ob g st' lg sk"
  by (rule settled_none_lost [where A = "{}" and s = "[]"]) (auto intro: quiet_settled)

lemma invD:
  assumes "inv s"
  shows "length (sw_running s) \<le> conc" "history_ok ob (pl_group P) (w_redis (sw_world s)) (history s)"
    "\<forall>t \<in> set (tasks_of s). task_ok P t" "reclaim_ok ob P (w_redis (sw_world s)) (sw_reclaim s)"
    "\<forall>(_, _, d, r) \<in> set (sw_log s). ltd r \<longrightarrow> d \<le> bound"
    "none_lost ob (pl_group P) (w_redis (sw_world s)) (sw_log s) (sw_skipped s)"
  using assms unfolding worker_inv_def by - (elim conjE, assumption)+

lemma invI:
  "length (sw_running s) \<le> conc \<Longrightarrow> history_ok ob (pl_group P) (w_redis (sw_world s)) (history s) \<Longrightarrow>
   \<forall>t \<in> set (tasks_of s). task_ok P t \<Longrightarrow> reclaim_ok ob P (w_redis (sw_world s)) (sw_reclaim s) \<Longrightarrow>
   \<forall>(_, _, d, r) \<in> set (sw_log s). ltd r \<longrightarrow> d \<le> bound \<Longrightarrow>
   none_lost ob (pl_group P) (w_redis (sw_world s)) (sw_log s) (sw_skipped s) \<Longrightarrow> inv s"
  unfolding worker_inv_def by (intro conjI)

lemma quiet_inv:
  assumes "inv s" "quiet ob (w_redis (sw_world s)) (w_redis w)"
  shows "inv (s\<lparr>sw_world := w, sw_cursor := c\<rparr>)"
  using assms quiet_later [OF assms(2)]
  by (auto simp: worker_inv_def history_def tasks_of_def intro: later_history reclaim_settled [OF quiet_settled] quiet_none_lost)

text \<open>What others do to other groups does not matter.\<close>

lemma quiet_in_inv:
  assumes "inv s" "quiet_in ob (pl_group P) (w_redis (sw_world s)) (w_redis w)"
  shows "inv (s\<lparr>sw_world := w\<rparr>)"
proof -
  have "reclaim_ok ob P (w_redis w) (sw_reclaim s)"
    using invD(4) [OF assms(1)] quiet_in_listed [OF assms(2)]
    by (auto simp: reclaim_ok_def split: reclaim_pc.splits)
  with assms show ?thesis
    by (auto simp: worker_inv_def history_def tasks_of_def intro: later_history quiet_in_later quiet_in_none_lost)
qed

lemma delivered_inv:
  assumes "inv s" "delivered ob (pl_group P) D (w_redis (sw_world s)) (w_redis w)"
    and "distinct es" "set es \<subseteq> D" "accepted es (s\<lparr>sw_world := w\<rparr>) s'"
  shows "inv s'"
proof -
  from assms(5) obtain ts F xs where s': "s' = s\<lparr>sw_world := w, sw_inFlight := F, sw_waiting := sw_waiting s @ ts\<rparr>"
    and keys: "map task_key ts = map first_delivery xs" and sub: "subseq xs es"
    and first: "list_all (\<lambda>t. tk_delivery t = 1 \<and> tk_retries t = 0) ts"
    unfolding accepted_def by auto
  obtain I where I: "xs = nths es I" using sub by (auto simp: subseq_conv_nths)
  then have xs: "distinct xs" "set xs \<subseteq> D"
    using assms(3,4) set_nths_subset [of es I] by (auto intro: distinct_nthsI)
  have "history_ok ob (pl_group P) (w_redis w) (history s @ map (\<lambda>(s, i). (s, i, 1)) xs)"
    by (rule delivered_history [OF assms(2) _ xs]) (use assms(1) in \<open>simp add: worker_inv_def\<close>)
  moreover have "mset (history s') = mset (history s @ map (\<lambda>(s, i). (s, i, 1)) xs)"
    using keys by (simp add: s' history_def tasks_of_def first_delivery_def)
  ultimately have "history_ok ob (pl_group P) (w_redis w) (history s')"
    by (rule history_mset [THEN iffD2, rotated])
  moreover have "\<forall>t \<in> set (tasks_of s'). task_ok P t"
  proof -
    have "set (tasks_of s') = set (tasks_of s) \<union> set ts" by (auto simp: s' tasks_of_def)
    moreover have "\<forall>t \<in> set ts. task_ok P t" using first by (simp add: list_all_iff task_ok_def)
    moreover have "\<forall>t \<in> set (tasks_of s). task_ok P t" using assms(1) by (rule invD)
    ultimately show ?thesis by blast
  qed
  ultimately show ?thesis
    using assms(1,2) by (simp add: s' worker_inv_def reclaim_delivered delivered_none_lost)
qed

lemma poll_inv: "poll P G s = Some s' \<Longrightarrow> inv s \<Longrightarrow> inv s'"
proof -
  assume p: "poll P G s = Some s'" and i: "inv s"
  from p obtain ss s1 where d: "discover P G s = Some (ss, s1)" by (auto simp: poll_def split: option.splits)
  have i1: "inv s1" using quiet_inv [OF i, of "sw_world s1" "sw_cursor s1"] discover_quiet [OF d] by metis
  show "inv s'"
  proof (cases "ss = []")
    case True
    with p d i1 show ?thesis by (simp add: poll_def)
  next
    case False
    let ?w2 = "fold (ensureConsumerGroup G (pl_group P)) ss (sw_world s1)"
    obtain r w3 where r: "group_do G (XREADGROUP (pl_group P) (pl_consumer P) ss 10) ?w2 = (r, w3)" by fastforce
    have i2: "inv (s1\<lparr>sw_world := ?w2\<rparr>)"
      using quiet_inv [OF i1 ensure_quiet [of "sw_world s1" "pl_group P" ss], of "sw_cursor s1"] by simp
    obtain D where D: "delivered ob (pl_group P) D (w_redis ?w2) (w_redis w3)"
      "\<And>results. r = Inr (GStreams results) \<Longrightarrow> distinct (read_ids results) \<and> set (read_ids results) = D"
      using do_read [OF r] by blast
    show ?thesis
    proof (cases "\<exists>results. r = Inr (GStreams results)")
      case True
      then obtain results where R: "r = Inr (GStreams results)" by blast
      with p d False r have s': "s' = accept_all P results (s1\<lparr>sw_world := w3\<rparr>)"
        by (auto simp: poll_def Let_def split: list.splits)
      show ?thesis
        by (rule delivered_inv [OF i2, where w = w3 and D = D and es = "read_ids results"])
          (use D R accept_all_accepted s' in auto)
    next
      case no: False
      with p d False r have s': "s' = s1\<lparr>sw_world := w3\<rparr>"
        by (auto simp: poll_def Let_def split: list.splits sum.splits group_reply.splits)
      show ?thesis
        by (rule delivered_inv [OF i2, where w = w3 and D = D and es = "[]"]) (use D accepted_Nil s' in auto)
    qed
  qed
qed

lemma history_prefix: "history_ok ob g st (h @ h') \<Longrightarrow> history_ok ob g st h"
  by (auto simp: history_ok_def)

lemma RStreams_ok: "reclaim_ok ob P st (RStreams ss)" "reclaim_ok ob P st RIdle"
  by (simp_all add: reclaim_ok_def)

lemma reclaim_move:
  assumes "inv s" "later ob (pl_group P) (w_redis (sw_world s)) (w_redis w)" "reclaim_ok ob P (w_redis w) pc"
    and "none_lost ob (pl_group P) (w_redis w) (sw_log s) sk"
    and "\<And>t a b c. pc \<noteq> RSem t a b c" "\<And>t a b c. sw_reclaim s \<noteq> RSem t a b c"
  shows "inv (s\<lparr>sw_world := w, sw_reclaim := pc, sw_skipped := sk\<rparr>)"
  using later_inv [OF assms, of "sw_cursor s"] by simp

lemma reclaim_stay:
  assumes "inv s" "quiet ob (w_redis (sw_world s)) (w_redis w)" "reclaim_ok ob P (w_redis w) pc"
    and "\<And>t a b c. pc \<noteq> RSem t a b c" "\<And>t a b c. sw_reclaim s \<noteq> RSem t a b c"
  shows "inv (s\<lparr>sw_world := w, sw_reclaim := pc\<rparr>)"
  using reclaim_move [OF assms(1) quiet_later [OF assms(2)] assms(3) quiet_none_lost [OF assms(2) invD(6) [OF assms(1)]] assms(4,5)]
  by simp

lemma reclaim_here:
  assumes "inv s" "reclaim_ok ob P (w_redis (sw_world s)) pc"
    and "\<And>t a b c. pc \<noteq> RSem t a b c" "\<And>t a b c. sw_reclaim s \<noteq> RSem t a b c"
  shows "inv (s\<lparr>sw_reclaim := pc\<rparr>)"
  using reclaim_stay [OF assms(1), of "sw_world s"] assms by simp

lemma reclaim_discover_inv:
  assumes "reclaim P G conc s = Some s'" "inv s" "sw_reclaim s = RIdle"
  shows "inv s'"
proof -
  obtain ss s1 where d: "discover P G s = Some (ss, s1)" and s': "s' = s1\<lparr>sw_reclaim := RStreams ss\<rparr>"
    using assms(1,3) by (auto simp: reclaim_def)
  from discover_quiet [OF d] obtain w c where q: "quiet ob (w_redis (sw_world s)) (w_redis w)"
    and s1: "s1 = s\<lparr>sw_world := w, sw_cursor := c\<rparr>" by blast
  have "inv (s\<lparr>sw_world := w, sw_cursor := c, sw_reclaim := RStreams ss, sw_skipped := sw_skipped s\<rparr>)"
    by (rule later_inv [OF assms(2) quiet_later [OF q] RStreams_ok(1) quiet_none_lost [OF q invD(6) [OF assms(2)]]])
      (simp_all add: assms(3))
  then show ?thesis by (simp add: s' s1)
qed

lemma reclaim_list_inv:
  assumes r: "reclaim P G conc s = Some s'" and i: "inv s" and pc: "sw_reclaim s = RStreams ss"
  shows "inv s'"
proof (cases ss)
  case Nil
  with pc r show ?thesis using reclaim_here [OF i, of RIdle] by (simp add: reclaim_def RStreams_ok)
next
  case (Cons stream rest)
  obtain x w1 where x: "group_do G (XPENDING stream (pl_group P) (pl_idle P) 10) (sw_world s) = (x, w1)" by fastforce
  note p = do_pending [OF x]
  show ?thesis
  proof (cases "\<exists>ps. x = Inr (GPending ps)")
    case True
    then obtain ps where ps: "x = Inr (GPending ps)" by blast
    have "listed_ok ob (pl_group P) (w_redis w1) stream ps"
      using p ps by (auto simp: listed_ok_def quiet_def)
    then have "reclaim_ok ob P (w_redis w1) (RPend stream ps rest)" by (simp add: reclaim_ok_def)
    with reclaim_stay [OF i, of w1 "RPend stream ps rest"] p pc Cons r x ps show ?thesis by (simp add: reclaim_def)
  next
    case False
    with pc Cons r x have "s' = s\<lparr>sw_world := w1, sw_reclaim := RStreams rest\<rparr>"
      by (auto simp: reclaim_def split: sum.splits group_reply.splits)
    with reclaim_stay [OF i, of w1 "RStreams rest"] p pc show ?thesis by (simp add: RStreams_ok)
  qed
qed

lemma reclaim_pending_inv:
  assumes r: "reclaim P G conc s = Some s'" and i: "inv s" and pc: "sw_reclaim s = RPend stream ps ss"
  shows "inv s'"
proof (cases ps)
  case Nil
  with pc r show ?thesis using reclaim_here [OF i, of "RStreams ss"] by (simp add: reclaim_def RStreams_ok)
next
  case (Cons a rest)
  note parts = i [unfolded worker_inv_def]
  obtain j c where a: "a = (j, c)" by (cases a)
  have l: "listed_ok ob (pl_group P) (w_redis (sw_world s)) stream ((j, c) # rest)"
    using parts pc Cons a by (simp add: reclaim_ok_def)
  then have l': "listed_ok ob (pl_group P) (w_redis (sw_world s)) stream rest" by (simp add: listed_ok_def)
  let ?ack = "group_do G (XACK stream (pl_group P) [j]) (sw_world s)"
  have ack: "settled ob stream (pl_group P) {j} (w_redis (sw_world s)) (w_redis (snd ?ack))"
    using do_ack [of stream "pl_group P" "[j]" "sw_world s", OF prod.collapse [symmetric]] by simp
  consider (guarded) "s' = s\<lparr>sw_reclaim := RPend stream rest ss\<rparr>"
    | (skipped) "s' = s\<lparr>sw_world := snd ?ack, sw_reclaim := RPend stream rest ss, sw_skipped := sw_skipped s @ [(stream, j)]\<rparr>"
    | (claim) "\<not> pl_skip P c" "s' = s\<lparr>sw_reclaim := RClaim stream j c rest ss\<rparr>"
    using r pc Cons a by (auto simp: reclaim_def split: if_splits)
  then show ?thesis
  proof cases
    case guarded
    with reclaim_here [OF i, of "RPend stream rest ss"] l' pc show ?thesis by (simp add: reclaim_ok_def)
  next
    case skipped
    have "none_lost ob (pl_group P) (w_redis (snd ?ack)) (sw_log s) (sw_skipped s @ [(stream, j)])"
      by (rule settled_none_lost [OF ack]) (use parts in auto)
    with skipped reclaim_move [OF i effects_later(1) [OF ack], of "RPend stream rest ss" "sw_skipped s @ [(stream, j)]"]
      settled_listed [OF ack l'] pc show ?thesis by (simp add: reclaim_ok_def)
  next
    case claim
    with reclaim_here [OF i, of "RClaim stream j c rest ss"] l pc show ?thesis by (simp add: reclaim_ok_def)
  qed
qed

lemma reclaim_claim_inv:
  assumes r: "reclaim P G conc s = Some s'" and i: "inv s" and pc: "sw_reclaim s = RClaim stream j c ps ss"
  shows "inv s'"
proof -
  note parts = i [unfolded worker_inv_def]
  obtain x w1 where x: "group_do G (XCLAIM stream (pl_group P) (pl_consumer P) (pl_idle P) [j]) (sw_world s) = (x, w1)"
    by fastforce
  have l: "listed_ok ob (pl_group P) (w_redis (sw_world s)) stream ((j, c) # ps)" "\<not> pl_skip P c"
    using parts pc by (simp_all add: reclaim_ok_def)
  obtain C where C: "claimed ob stream (pl_group P) C {j} (w_redis (sw_world s)) (w_redis w1)"
    "\<And>ms. x = Inr (GClaimed ms) \<Longrightarrow> set (map fst ms) = C"
    using do_claim [OF x] by auto
  note l' = claimed_listed [OF C(1) l(1)]
  have lost: "none_lost ob (pl_group P) (w_redis w1) (sw_log s) (sw_skipped s)"
    using claimed_none_lost [OF C(1)] parts by blast
  show ?thesis
  proof (cases "\<exists>k e ms. x = Inr (GClaimed ((k, e) # ms))")
    case True
    then obtain k e ms where m: "x = Inr (GClaimed ((k, e) # ms))" by blast
    then have "j \<in> C" using C by (auto simp: claimed_def)
    let ?t = "reclaim_task stream j e c"
    let ?F = "if pl_guard P then insert j (sw_inFlight s) else sw_inFlight s"
    have s': "s' = s\<lparr>sw_world := w1, sw_inFlight := ?F, sw_reclaim := RSem ?t stream ps ss\<rparr>"
      using r pc x m by (simp add: reclaim_def)
    have "history_ok ob (pl_group P) (w_redis w1) (history s @ [(stream, j, Suc (nat c))])"
      by (rule claimed_history [OF C(1) _ l(1) \<open>j \<in> C\<close>]) (use parts in blast)
    moreover have "history s' = history s @ [(stream, j, Suc (nat c))]"
      using pc by (simp add: s' history_def tasks_of_def task_key_def reclaim_task_def)
    moreover have "task_ok P ?t"
      using l by (simp add: task_ok_def reclaim_task_def listed_ok_def)
    ultimately show ?thesis
      using parts pc l' lost by (auto simp: s' worker_inv_def tasks_of_def reclaim_ok_def)
  next
    case False
    then have "s' = s\<lparr>sw_world := w1, sw_reclaim := RPend stream ps ss\<rparr>"
      using r pc x by (auto simp: reclaim_def split: sum.splits group_reply.splits list.splits)
    with reclaim_move [OF i effects_later(3) [OF C(1)], of "RPend stream ps ss" "sw_skipped s"] l' lost pc
    show ?thesis by (simp add: reclaim_ok_def)
  qed
qed

lemma reclaim_start_inv:
  assumes r: "reclaim P G conc s = Some s'" and i: "inv s" and pc: "sw_reclaim s = RSem t stream ps ss"
  shows "inv s'"
proof -
  have s': "s' = s\<lparr>sw_running := sw_running s @ [t], sw_reclaim := RPend stream ps ss\<rparr>"
    and len: "length (sw_running s) < conc" using r pc by (auto simp: reclaim_def split: if_splits)
  have "history s' = history s" using pc by (simp add: s' history_def tasks_of_def)
  with i [unfolded worker_inv_def] pc len show ?thesis by (simp add: s' worker_inv_def tasks_of_def reclaim_ok_def)
qed

lemma reclaim_inv: "reclaim P G conc s = Some s' \<Longrightarrow> inv s \<Longrightarrow> inv s'"
  by (cases "sw_reclaim s")
    (auto dest: reclaim_discover_inv reclaim_list_inv reclaim_pending_inv reclaim_claim_inv reclaim_start_inv)

lemma start_inv:
  assumes "inv s" "t \<in> set (sw_waiting s)" "length (sw_running s) < conc"
  shows "inv (s\<lparr>sw_waiting := remove1 t (sw_waiting s), sw_running := sw_running s @ [t]\<rparr>)" (is "inv ?s")
proof -
  have "mset (history ?s) = mset (history s)"
    using mset_tasks [OF assms(2), of task_key] by (simp add: history_def tasks_of_def)
  moreover have "set (tasks_of ?s) \<subseteq> set (tasks_of s)"
    using assms(2) set_remove1_subset [of t "sw_waiting s"] by (auto simp: tasks_of_def)
  ultimately show ?thesis
    using assms(3) invD [OF assms(1)] history_mset [of "history ?s" "history s"] by (intro invI) auto
qed

text \<open>A task that ends, whatever its outcome.\<close>

lemma drop_inv:
  assumes i: "inv s" and t: "t \<in> set (sw_running s)"
    and h: "H (tk_stream t) (tk_id t) (tk_payload t) (tk_retries t) (sw_world s) (oc, w)"
  shows "inv (drop_task t w oc s)"
proof -
  let ?s = "drop_task t w oc s"
  note parts = i [unfolded worker_inv_def]
  have eff: "if oc \<in> {Acked, Dead, Dropped} then settled ob (tk_stream t) (pl_group P) {tk_id t} (w_redis (sw_world s)) (w_redis w)
      else quiet ob (w_redis (sw_world s)) (w_redis w)"
    by (rule handle_ok [OF h])
  then have set: "settled ob (tk_stream t) (pl_group P) {tk_id t} (w_redis (sw_world s)) (w_redis w)"
    by (auto split: if_splits intro: quiet_settled)
  have same: "mset (history ?s) = mset (history s)"
    using mset_tasks [OF t, of task_key] by (simp add: drop_task_def history_def tasks_of_def log_key_def task_key_def)
  have hist: "history_ok ob (pl_group P) (w_redis w) (history ?s)"
    by (rule history_mset [OF same, THEN iffD2]) (rule later_history [OF effects_later(1) [OF set] invD(2) [OF i]])
  have tasks: "set (tasks_of ?s) \<subseteq> set (tasks_of s)"
    using set_remove1_subset [of t "sw_running s"] by (auto simp: drop_task_def tasks_of_def)
  have len: "length (sw_running ?s) \<le> conc"
    using parts by (auto simp: drop_task_def length_remove1)
  have ok: "task_ok P t" using parts t by (auto simp: tasks_of_def)
  have "tk_delivery t \<le> bound" if "ltd oc"
    using ok limit [OF h that] bound_pos unfolding task_ok_def by fastforce
  then have log: "\<forall>(_, _, d, r) \<in> set (sw_log ?s). ltd r \<longrightarrow> d \<le> bound"
    using parts by (auto simp: drop_task_def)
  have lost: "none_lost ob (pl_group P) (w_redis w) (sw_log ?s) (sw_skipped ?s)"
  proof (cases "oc \<in> {Acked, Dead, Dropped}")
    case True
    show ?thesis
      by (rule settled_none_lost [OF set invD(6) [OF i]]) (use True in \<open>auto simp: drop_task_def\<close>)
  next
    case False
    then have "quiet ob (w_redis (sw_world s)) (w_redis w)" using eff by simp
    from settled_none_lost [OF quiet_settled [OF this, where A = "{}" and s = "[]" and g = "pl_group P"] invD(6) [OF i],
        where lg' = "sw_log ?s" and sk' = "sw_skipped ?s"]
    show ?thesis by (auto simp: drop_task_def)
  qed
  have rec: "reclaim_ok ob P (w_redis w) (sw_reclaim s)" by (rule reclaim_settled [OF set invD(4) [OF i]])
  show ?thesis
    by (rule invI [OF len]) (use hist tasks log lost rec invD(3) [OF i] in \<open>auto simp: drop_task_def\<close>)
qed

lemma restart_inv: "inv s \<Longrightarrow> inv (restarted (sw_world s) s)"
  using history_prefix [of "pl_group P" "w_redis (sw_world s)" "map log_key (sw_log s)" "map task_key (tasks_of s)"]
  by (simp add: worker_inv_def restarted_def started_def history_def tasks_of_def reclaim_ok_def)

lemma step_inv: "worker_step P H G others conc s s' \<Longrightarrow> inv s \<Longrightarrow> inv s'"
proof (induction rule: worker_step.induct)
  case (panic t s w)
  then have "inv (drop_task t w Crashed s)" by (intro drop_inv)
  from restart_inv [OF this] show ?case by (simp add: drop_task_def)
next
  case (outside s w)
  then show ?case by (intro quiet_in_inv others_ok)
qed (auto intro: poll_inv reclaim_inv start_inv drop_inv restart_inv)

text \<open>A worker starts on a group that was given nothing yet.\<close>

lemma started_inv:
  assumes "\<And>s. obs_seen ob (w_redis w) s (pl_group P) = {}"
  shows "inv (started w)"
  using assms by (simp add: worker_inv_def started_def history_def tasks_of_def history_ok_def reclaim_ok_def none_lost_def)

lemma reachable_inv:
  assumes "reachable P H G others conc w s" "\<And>s. obs_seen ob (w_redis w) s (pl_group P) = {}"
  shows "inv s"
  using assms(1) unfolding reachable_def
  by (induction rule: rtranclp_induct) (auto intro: started_inv [OF assms(2)] step_inv)

section \<open>What the invariant says\<close>

lemma running_bounded: "inv s \<Longrightarrow> length (sw_running s) \<le> conc"
  by (simp add: worker_inv_def)

text \<open>An entry is handled with a limited outcome at most as often as the bound allows.\<close>

lemma handled_bounded:
  assumes "inv s"
  shows "length (filter (\<lambda>(s', i', d, r). s' = st \<and> i' = i \<and> ltd r) (sw_log s)) \<le> bound"
proof -
  let ?fs = "filter (\<lambda>(s', i', d, r). s' = st \<and> i' = i \<and> ltd r) (sw_log s)"
  let ?d = "\<lambda>e :: string \<times> string \<times> nat \<times> outcome. fst (snd (snd e))"
  have h: "distinct (map log_key (sw_log s))" "\<forall>(s, i, d) \<in> set (map log_key (sw_log s)). 1 \<le> d"
    using invD(2) [OF assms] unfolding history_ok_def history_def by (simp_all add: case_prod_unfold)
  have "distinct (map ?d ?fs)"
  proof -
    have "distinct (map log_key ?fs)" using h(1) by (rule distinct_map_filter)
    then show ?thesis
      by (auto simp: distinct_map inj_on_def log_key_def)
  qed
  then have "length ?fs = card (set (map ?d ?fs))" by (simp only: distinct_card length_map)
  also have "set (map ?d ?fs) \<subseteq> {1..bound}"
    using invD(5) [OF assms] h(2) by (fastforce simp: log_key_def)
  then have "card (set (map ?d ?fs)) \<le> card {1..bound}" by (intro card_mono) auto
  finally show ?thesis by simp
qed

lemma not_lost:
  assumes "inv s" "i \<in> obs_seen ob (w_redis (sw_world s)) st (pl_group P)"
    "obs_pel ob (w_redis (sw_world s)) st (pl_group P) i = None" "obs_entry ob (w_redis (sw_world s)) st i \<noteq> None"
  shows "(\<exists>d. \<exists>oc \<in> {Acked, Dead, Dropped}. (st, i, d, oc) \<in> set (sw_log s)) \<or> (st, i) \<in> set (sw_skipped s)"
  using invD(6) [OF assms(1), unfolded none_lost_def, rule_format, OF assms(2)] assms(3,4) by simp

section \<open>Other groups\<close>

text \<open>A step of the worker does nothing to another group, as long as the processes around it do nothing to it.\<close>

lemma poll_elsewhere:
  assumes "poll P G s = Some s'" "g \<noteq> pl_group P"
  shows "quiet_in ob g (w_redis (sw_world s)) (w_redis (sw_world s'))"
proof -
  from assms obtain ss s1 where d: "discover P G s = Some (ss, s1)" by (auto simp: poll_def split: option.splits)
  have q1: "quiet_in ob g (w_redis (sw_world s)) (w_redis (sw_world s1))"
    by (rule quiet_in_intros(1) [OF conjunct1 [OF discover_quiet [OF d]]])
  show ?thesis
  proof (cases "ss = []")
    case True
    with assms d q1 show ?thesis by (simp add: poll_def)
  next
    case False
    let ?w2 = "fold (ensureConsumerGroup G (pl_group P)) ss (sw_world s1)"
    obtain r w3 where r: "group_do G (XREADGROUP (pl_group P) (pl_consumer P) ss 10) ?w2 = (r, w3)" by fastforce
    have "quiet_in ob g (w_redis (sw_world s1)) (w_redis ?w2)" by (rule quiet_in_intros(1) [OF ensure_quiet])
    moreover have "quiet_in ob g (w_redis ?w2) (w_redis w3)"
      using do_read [OF r] by (elim exE conjE) (rule quiet_in_intros(3) [OF _ not_sym [OF assms(2)]])
    moreover have "sw_world (accept_all P results x) = sw_world x" for results and x :: "'r stream_worker"
      using accept_all_accepted [of results x P] by (auto simp: accepted_def)
    then have "sw_world s' = w3"
      using assms d False r by (auto simp: poll_def Let_def split: list.splits sum.splits group_reply.splits)
    ultimately show ?thesis by (simp only:) (rule quiet_in_trans [OF q1 quiet_in_trans])
  qed
qed

lemma reclaim_elsewhere:
  assumes r: "reclaim P G conc s = Some s'" and g: "g \<noteq> pl_group P"
  shows "quiet_in ob g (w_redis (sw_world s)) (w_redis (sw_world s'))"
proof (cases "sw_reclaim s")
  case RIdle
  with r obtain ss s1 where d: "discover P G s = Some (ss, s1)" and "s' = s1\<lparr>sw_reclaim := RStreams ss\<rparr>"
    by (auto simp: reclaim_def)
  then show ?thesis using quiet_in_intros(1) [OF conjunct1 [OF discover_quiet [OF d]]] by simp
next
  case (RStreams ss)
  then show ?thesis
    using r by (auto simp: reclaim_def split: list.splits prod.splits sum.splits group_reply.splits
        dest!: do_pending intro: quiet_in_intros(1))
next
  case (RPend stream ps ss)
  then show ?thesis
    using r g by (auto simp: reclaim_def Let_def split: list.splits prod.splits if_splits
        intro: quiet_in_intros(2) [OF do_ack [OF prod.collapse [symmetric]]])
next
  case (RClaim stream j c ps ss)
  obtain x w1 where x: "group_do G (XCLAIM stream (pl_group P) (pl_consumer P) (pl_idle P) [j]) (sw_world s) = (x, w1)"
    by fastforce
  with r RClaim have "sw_world s' = w1"
    by (auto simp: reclaim_def Let_def split: sum.splits group_reply.splits list.splits)
  then show ?thesis using do_claim [OF x] by (elim exE conjE) (simp, erule quiet_in_intros(4) [OF _ not_sym [OF g]])
next
  case (RSem t stream ps ss)
  then show ?thesis using r by (auto simp: reclaim_def split: if_splits)
qed

lemma step_elsewhere:
  assumes "worker_step P H G around conc s s'" "g \<noteq> pl_group P" "\<And>st st'. around st st' \<Longrightarrow> quiet_in ob g st st'"
  shows "quiet_in ob g (w_redis (sw_world s)) (w_redis (sw_world s'))"
  using assms(1)
proof cases
  case (finish t r w)
  with handle_ok [OF finish(3)] assms(2) show ?thesis
    by (auto simp: drop_task_def split: if_splits intro: quiet_in_intros)
next
  case (panic t w)
  with handle_ok [OF panic(3)] show ?thesis
    by (auto simp: restarted_def started_def intro: quiet_in_intros)
qed (use assms poll_elsewhere reclaim_elsewhere in \<open>auto simp: restarted_def started_def\<close>)

end

end
