(* ===== verification/StreamServer.thy ===== *)
theory StreamServer
  imports Streams
begin

text \<open>
  The server both halves of the workers talk to: its key commands and its consumer groups together
  (\<open>stream_server\<close>), and an in-memory server that satisfies the laws, for the witnesses.
\<close>

section \<open>The interface\<close>

text \<open>
  No key command but DEL touches a group; XADD gives its entry an id that no group was given before, and
  the entry is in the stream afterwards. An acknowledgement takes nothing out of a stream.
\<close>

locale stream_server = group_store G ob for G :: "'r groups" and ob :: "'r group_observers" +
  fixes R :: "'r redis"
  assumes cmd_quiet: "R c st = (r, st') \<Longrightarrow> (\<And>k. c \<noteq> DEL k) \<Longrightarrow> quiet ob st st'"
    and xadd_entry: "R (XADD k mx e) st = (Inr y, st') \<Longrightarrow> 0 < mx \<Longrightarrow>
      \<exists>i. obs_entry ob st k i = None \<and> obs_entry ob st' k i = Some e"
    and ack_entries: "G (XACK s g ids) st = (x, st') \<Longrightarrow> obs_entry ob st' = obs_entry ob st"
begin

lemma do_quiet: "redis_do R c w = (r, w') \<Longrightarrow> (\<And>k. c \<noteq> DEL k) \<Longrightarrow> quiet ob (w_redis w) (w_redis w')"
  using cmd_quiet [of c "w_redis w"] by (auto simp: redis_do_def split: prod.splits)

end

section \<open>An in-memory server\<close>

record group_mem =
  gm_mem :: mem
  gm_entries :: "((string \<times> string) \<times> entry) list"              \<comment> \<open>stream and id\<close>
  gm_seen :: "(string \<times> string \<times> string) list"                 \<comment> \<open>stream, group, id\<close>
  gm_pel :: "((string \<times> string \<times> string) \<times> nat) list"

definition empty_group_mem :: group_mem where
  "empty_group_mem = \<lparr>gm_mem = empty_mem, gm_entries = [], gm_seen = [], gm_pel = []\<rparr>"

text \<open>Longer than every id there is.\<close>

definition fresh_id :: "group_mem \<Rightarrow> string" where
  "fresh_id s =
     replicate (Suc (fold max (map (length \<circ> snd \<circ> fst) (gm_entries s) @ map (length \<circ> snd \<circ> snd) (gm_seen s)) 0)) (CHR ''1'')"

definition gm_redis :: "group_mem redis" where
  "gm_redis c s =
     (let (r, m) = mem_redis c (gm_mem s); s1 = s\<lparr>gm_mem := m\<rparr>
      in (r, case c of XADD k mx e \<Rightarrow> s1\<lparr>gm_entries := gm_entries s @ [((k, fresh_id s), e)]\<rparr> | _ \<Rightarrow> s1))"

definition new_entries :: "group_mem \<Rightarrow> string \<Rightarrow> string \<Rightarrow> (string \<times> entry) list" where
  "new_entries s g stream =
     map (\<lambda>((_, i), e). (i, e))
       (filter (\<lambda>((k, i), _). k = stream \<and> (stream, g, i) \<notin> set (gm_seen s)) (AList.clearjunk (gm_entries s)))"

definition gm_read :: "group_mem \<Rightarrow> string \<Rightarrow> string list \<Rightarrow> int \<Rightarrow> (string \<times> (string \<times> entry) list) list" where
  "gm_read s g streams n =
     filter (\<lambda>(_, ms). ms \<noteq> []) (map (\<lambda>k. (k, take (nat n) (new_entries s g k))) (remdups streams))"

definition give :: "string \<Rightarrow> string \<times> string \<Rightarrow> group_mem \<Rightarrow> group_mem" where
  "give g = (\<lambda>(k, i) s. s\<lparr>gm_seen := (k, g, i) # gm_seen s, gm_pel := AList.update (k, g, i) 1 (gm_pel s)\<rparr>)"

definition gm_pending :: "group_mem \<Rightarrow> string \<Rightarrow> string \<Rightarrow> (string \<times> int) list" where
  "gm_pending s stream g =
     map (\<lambda>((_, _, i), c). (i, int c))
       (filter (\<lambda>((k, h, i), c). k = stream \<and> h = g \<and> 0 < c \<and> (k, h, i) \<in> set (gm_seen s))
          (AList.clearjunk (gm_pel s)))"

definition claimable :: "group_mem \<Rightarrow> string \<Rightarrow> string \<Rightarrow> string list \<Rightarrow> string list" where
  "claimable s stream g ids =
     filter (\<lambda>i. map_of (gm_pel s) (stream, g, i) \<noteq> None \<and> map_of (gm_entries s) (stream, i) \<noteq> None) (remdups ids)"

definition claim_one :: "string \<Rightarrow> string \<Rightarrow> string \<Rightarrow> group_mem \<Rightarrow> group_mem" where
  "claim_one stream g i s =
     s\<lparr>gm_pel := (case map_of (gm_pel s) (stream, g, i) of
         None \<Rightarrow> gm_pel s | Some c \<Rightarrow> AList.update (stream, g, i) (Suc c) (gm_pel s))\<rparr>"

fun gm_groups :: "group_mem groups" where
  "gm_groups (SCAN c p n) s =
     (Inr (GScan (remdups (filter (\<lambda>k. has_prefix (rev k) (rev (tl p))) (map (fst \<circ> fst) (gm_entries s)))) 0), s)"
| "gm_groups (XGROUP_CREATE k g start) s = (Inr GStatus, s)"
| "gm_groups (XREADGROUP g c ss n) s =
     (let es = gm_read s g ss n in (Inr (GStreams es), fold (give g) (read_ids es) s))"
| "gm_groups (XACK k g ids) s =
     (Inr (GAcked 1), s\<lparr>gm_pel := filter (\<lambda>((k', g', i), _). \<not> (k' = k \<and> g' = g \<and> i \<in> set ids)) (gm_pel s)\<rparr>)"
| "gm_groups (XPENDING k g idle n) s = (Inr (GPending (take (nat n) (gm_pending s k g))), s)"
| "gm_groups (XCLAIM k g c idle ids) s =
     (let is = claimable s k g ids
      in (Inr (GClaimed (map (\<lambda>i. (i, the (map_of (gm_entries s) (k, i)))) is)), fold (claim_one k g) is s))"

definition gm_observers :: "group_mem group_observers" where
  "gm_observers =
     \<lparr>obs_pel = (\<lambda>s k g i. map_of (gm_pel s) (k, g, i)),
      obs_seen = (\<lambda>s k g. {i. (k, g, i) \<in> set (gm_seen s)}),
      obs_entry = (\<lambda>s k i. map_of (gm_entries s) (k, i))\<rparr>"

lemma gm_obs [simp]:
  "obs_pel gm_observers s k g i = map_of (gm_pel s) (k, g, i)"
  "i \<in> obs_seen gm_observers s k g \<longleftrightarrow> (k, g, i) \<in> set (gm_seen s)"
  "obs_entry gm_observers s k i = map_of (gm_entries s) (k, i)"
  by (simp_all add: gm_observers_def)

lemma gm_quiet:
  "quiet gm_observers s s' \<longleftrightarrow> (\<forall>k g i. map_of (gm_pel s') (k, g, i) = map_of (gm_pel s) (k, g, i)) \<and>
     set (gm_seen s') = set (gm_seen s) \<and>
     (\<forall>k g i. (k, g, i) \<in> set (gm_seen s) \<and> map_of (gm_entries s) (k, i) = None \<longrightarrow> map_of (gm_entries s') (k, i) = None)"
proof -
  have "obs_pel gm_observers s' = obs_pel gm_observers s \<longleftrightarrow>
      (\<forall>k g i. map_of (gm_pel s') (k, g, i) = map_of (gm_pel s) (k, g, i))" by (simp add: fun_eq_iff)
  moreover have "obs_seen gm_observers s' = obs_seen gm_observers s \<longleftrightarrow> set (gm_seen s') = set (gm_seen s)"
    by (simp add: fun_eq_iff set_eq_iff)
  ultimately show ?thesis unfolding quiet_def by simp
qed

lemma le_fold_max: "(x :: nat) \<in> set xs \<or> x \<le> a \<Longrightarrow> x \<le> fold max xs a"
proof (induction xs arbitrary: a)
  case (Cons y ys)
  then have "x \<in> set ys \<or> x \<le> max y a" by (auto simp: le_max_iff_disj)
  then have "x \<le> fold max ys (max y a)" by (rule Cons.IH)
  then show ?case by simp
qed simp

lemma fresh_id_new: "(k, g, i) \<in> set (gm_seen s) \<Longrightarrow> fresh_id s \<noteq> i"
proof
  assume i: "(k, g, i) \<in> set (gm_seen s)" "fresh_id s = i"
  let ?xs = "map (length \<circ> snd \<circ> fst) (gm_entries s) @ map (length \<circ> snd \<circ> snd) (gm_seen s)"
  have "length i \<in> set ?xs" using i(1) by force
  then have "length i \<le> fold max ?xs 0" by (intro le_fold_max) blast
  moreover have "length i = Suc (fold max ?xs 0)" by (simp flip: i(2) add: fresh_id_def)
  ultimately show False by simp
qed

lemma gm_give:
  "gm_seen (fold (give g) xs s) = map (\<lambda>(k, i). (k, g, i)) (rev xs) @ gm_seen s"
  "gm_entries (fold (give g) xs s) = gm_entries s"
  by (induction xs arbitrary: s) (simp_all add: give_def split: prod.splits)

lemma give_pel: "map_of (gm_pel (give g x s)) (k, h, i) = (if h = g \<and> (k, i) = x then Some 1 else map_of (gm_pel s) (k, h, i))"
  by (cases x) (auto simp: give_def update_conv')

lemma gm_give_pel:
  "map_of (gm_pel (fold (give g) xs s)) (k, h, i) =
     (if h = g \<and> (k, i) \<in> set xs then Some 1 else map_of (gm_pel s) (k, h, i))"
  by (induction xs arbitrary: s) (auto simp: give_pel)

lemma gm_claim:
  "gm_seen (fold (claim_one k g) is s) = gm_seen s"
  "gm_entries (fold (claim_one k g) is s) = gm_entries s"
  by (induction "is" arbitrary: s) (simp_all add: claim_one_def)

lemma claim_one_pel:
  "map_of (gm_pel (claim_one k g j s)) (k', h, i) =
     (if k' = k \<and> h = g \<and> i = j then map_option Suc (map_of (gm_pel s) (k', h, i)) else map_of (gm_pel s) (k', h, i))"
  by (auto simp: claim_one_def update_conv' split: option.splits)

lemma gm_claim_pel:
  "distinct is \<Longrightarrow> map_of (gm_pel (fold (claim_one k g) is s)) (k', h, i) =
     (if k' = k \<and> h = g \<and> i \<in> set is then map_option Suc (map_of (gm_pel s) (k', h, i)) else map_of (gm_pel s) (k', h, i))"
  by (induction "is" arbitrary: s) (auto simp: claim_one_pel)

text \<open>What a read gives.\<close>

lemma new_entries_ids: "distinct (map fst (new_entries s g k))"
  "i \<in> fst ` set (new_entries s g k) \<Longrightarrow> (k, g, i) \<notin> set (gm_seen s)"
proof -
  let ?xs = "filter (\<lambda>((k', i), _). k' = k \<and> (k, g, i) \<notin> set (gm_seen s)) (AList.clearjunk (gm_entries s))"
  have "distinct (map fst ?xs)" by (rule distinct_map_filter) (rule distinct_clearjunk)
  then show "distinct (map fst (new_entries s g k))"
    unfolding new_entries_def by (auto simp: distinct_map inj_on_def case_prod_unfold)
qed (auto simp: new_entries_def)

lemma read_ids_gm:
  "distinct (read_ids (gm_read s g ss n))" "(k, i) \<in> set (read_ids (gm_read s g ss n)) \<Longrightarrow> (k, g, i) \<notin> set (gm_seen s)"
proof -
  have ids: "read_ids (filter (\<lambda>(_, ms). ms \<noteq> []) rs) = read_ids rs" for rs
    by (induction rs) (auto simp: read_ids_def)
  have "distinct (read_ids (map (\<lambda>k. (k, take m (new_entries s g k))) ks))" if "distinct ks" for ks m
    using that
  proof (induction ks)
    case (Cons k ks)
    have "distinct (map fst (take m (new_entries s g k)))"
      using new_entries_ids(1) [of s g k] by (simp flip: take_map)
    then have "distinct (map (\<lambda>x. (k, fst x)) (take m (new_entries s g k)))"
      by (simp add: distinct_map inj_on_def)
    with Cons show ?case by (auto simp: read_ids_def)
  qed (simp add: read_ids_def)
  then show "distinct (read_ids (gm_read s g ss n))" by (simp add: gm_read_def ids)
  show "(k, i) \<in> set (read_ids (gm_read s g ss n)) \<Longrightarrow> (k, g, i) \<notin> set (gm_seen s)"
    by (auto simp: gm_read_def ids) (auto simp: read_ids_def dest!: in_set_takeD intro: new_entries_ids(2) [THEN notE])
qed

interpretation gm: group_store gm_groups gm_observers
proof (unfold_locales, goal_cases)
  case (3 g c ss n st r st')
  let ?es = "gm_read st g ss n"
  have st': "r = Inr (GStreams ?es)" "st' = fold (give g) (read_ids ?es) st" using 3 by (simp_all add: Let_def)
  have "delivered gm_observers g (set (read_ids ?es)) st st'"
    unfolding delivered_def using read_ids_gm(2) [of _ _ st g ss n]
    by (auto simp: st'(2) gm_give gm_give_pel)
  with read_ids_gm(1) st' show ?case by auto
next
  case (4 k g ids st r st')
  have "map_of (filter (\<lambda>((k', g', i), _). \<not> (k' = k \<and> g' = g \<and> i \<in> set ids)) xs) (k1, g1, i1) =
      (if k1 = k \<and> g1 = g \<and> i1 \<in> set ids then None else map_of xs (k1, g1, i1))"
    for xs :: "((string \<times> string \<times> string) \<times> nat) list" and k1 g1 i1
    by (induction xs) auto
  with 4 show ?case by (auto simp: settled_def fun_eq_iff set_eq_iff split: if_splits)
next
  case (5 k g idle n st r st')
  let ?ps = "gm_pending st k g"
  let ?xs = "filter (\<lambda>((k', h, i), c). k' = k \<and> h = g \<and> 0 < c \<and> (k', h, i) \<in> set (gm_seen st)) (AList.clearjunk (gm_pel st))"
  have "distinct (map fst ?xs)" by (rule distinct_map_filter) (rule distinct_clearjunk)
  then have d: "distinct (map fst ?ps)"
    unfolding gm_pending_def by (auto simp: distinct_map inj_on_def case_prod_unfold)
  have m: "(k, g, i) \<in> set (gm_seen st) \<and> 0 < c \<and> map_of (gm_pel st) (k, g, i) = Some (nat c)" if "(i, c) \<in> set ?ps" for i c
  proof -
    from that obtain m where m: "((k, g, i), m) \<in> set (AList.clearjunk (gm_pel st))" "c = int m" "0 < m"
      "(k, g, i) \<in> set (gm_seen st)" by (auto simp: gm_pending_def)
    then have "map_of (AList.clearjunk (gm_pel st)) (k, g, i) = Some m"
      by (simp add: distinct_clearjunk map_of_eq_Some_iff)
    with m show ?thesis by (simp add: map_of_clearjunk)
  qed
  from 5 have "r = Inr (GPending (take (nat n) ?ps))" "st' = st" by auto
  with d m show ?case by (auto simp flip: take_map dest!: in_set_takeD)
next
  case (6 k g c idle ids st r st')
  let ?is = "claimable st k g ids"
  have st': "st' = fold (claim_one k g) ?is st" and r: "r = Inr (GClaimed (map (\<lambda>i. (i, the (map_of (gm_entries st) (k, i)))) ?is))"
    using 6 by (simp_all add: Let_def)
  have "distinct ?is" "set ?is \<subseteq> set ids" by (auto simp: claimable_def)
  then have "claimed gm_observers k g (set ?is) (set ids) st st'"
    unfolding claimed_def by (auto simp: st' gm_claim gm_claim_pel fun_eq_iff set_eq_iff) (auto simp: claimable_def)
  with r show ?case by (auto simp: image_image)
qed simp_all

lemma fresh_id_entries: "map_of (gm_entries s) (k, fresh_id s) = None"
proof -
  have "fresh_id s \<noteq> i" if "((k, i), e) \<in> set (gm_entries s)" for i e
  proof
    let ?xs = "map (length \<circ> snd \<circ> fst) (gm_entries s) @ map (length \<circ> snd \<circ> snd) (gm_seen s)"
    assume "fresh_id s = i"
    then have "length i = Suc (fold max ?xs 0)" by (simp add: fresh_id_def flip: \<open>fresh_id s = i\<close>)
    moreover have "length i \<in> set ?xs" using that by force
    then have "length i \<le> fold max ?xs 0" by (intro le_fold_max) blast
    ultimately show False by simp
  qed
  then show ?thesis by (force simp: map_of_eq_None_iff)
qed

interpretation gms: stream_server gm_groups gm_observers gm_redis
proof (unfold_locales, goal_cases)
  case (1 c st r st')
  obtain x m where m: "mem_redis c (gm_mem st) = (x, m)" by fastforce
  have "(k, g, fresh_id st) \<notin> set (gm_seen st)" for k g using fresh_id_new by blast
  with 1 m show ?case
    by (cases c) (auto simp: gm_redis_def gm_quiet map_add_Some_iff split: option.splits)
next
  case (2 k mx e st y st')
  then have "gm_entries st' = gm_entries st @ [((k, fresh_id st), e)]"
    by (auto simp: gm_redis_def split: prod.splits)
  then show ?case
    using fresh_id_entries [of st k] by (intro exI [of _ "fresh_id st"]) (simp add: map_add_def)
next
  case (3 s g ids st r st')
  then show ?case by (auto simp: fun_eq_iff)
qed

end
