(* ===== verification/StreamFetch.thy ===== *)
theory StreamFetch
  imports Worker StreamServer
begin

text \<open>Fetching the messages of a batch leaves the consumer groups as they are.\<close>

context stream_server
begin

lemma on_db_quiet: "on_db f w = (r, w') \<Longrightarrow> quiet ob (w_redis w) (w_redis w')"
  by (drule on_db_redis) simp

lemma lrange_quiet: "redis_do R (LRANGE k a b) w = (r, w') \<Longrightarrow> quiet ob (w_redis w) (w_redis w')"
  by (erule do_quiet) simp

lemma GetRawMessages_quiet:
  assumes "GetRawMessages R cod t s n w = (r, w')"
  shows "quiet ob (w_redis w) (w_redis w')"
proof -
  obtain q w1 where one: "redis_do R (LRANGE (msgs_key t s) 0 (n - 1)) w = (q, w1)" by fastforce
  note first = lrange_quiet [OF one]
  have "w' = w1 \<or> quiet ob (w_redis w1) (w_redis w')"
    using assms one by (auto simp: GetRawMessages_def split: sum.splits if_splits dest: on_db_quiet)
  with first show ?thesis using quiet_trans by metis
qed

lemma fetch_window_quiet:
  assumes "fetch_window R cod b n w = (r, w')"
  shows "quiet ob (w_redis w) (w_redis w')"
proof -
  obtain q w1 where one: "GetRawMessagesUntil R cod (bi_TenantID b) (bi_SessionID b) (bi_LastMessageID b) n w = (q, w1)"
    by fastforce
  have first: "quiet ob (w_redis w) (w_redis w1)"
    using one by (auto simp: GetRawMessagesUntil_def Let_def split: prod.splits sum.splits if_splits option.splits
        dest: GetRawMessages_quiet lrange_quiet)
  have "w' = w1 \<or> quiet ob (w_redis w1) (w_redis w')"
    using assms one by (auto simp: fetch_window_def split: sum.splits list.splits err.splits dest: on_db_quiet)
  with first show ?thesis using quiet_trans by metis
qed

end

end
