(* ===== verification/ExperienceWorker.thy ===== *)
theory ExperienceWorker
  imports StreamFetch
begin

text \<open>
  The experience worker (\<^verbatim>\<open>internal/worker/experience.go\<close>): the keyword gate, the slice of the
  conversation that is shown to the model, the extraction and its merge into the stored experiences,
  and the worker on the cognitive streams with its own consumer group.
\<close>

section \<open>Settings\<close>

definition experienceConsumerGroup :: string where "experienceConsumerGroup = ''exp-workers''"
definition experienceConsumerName :: string where "experienceConsumerName = ''experience-worker''"
definition experienceWindowSize :: int where "experienceWindowSize = 20"
definition experienceTier1Depth :: nat where "experienceTier1Depth = 8"
definition experienceSimilarityMin :: rat where "experienceSimilarityMin = 85 / 100"
definition experienceMaxRetries :: int where "experienceMaxRetries = 3"
definition experienceRetryIdleTime :: time where "experienceRetryIdleTime = 60 * second"
definition experiencePeriodicEvery :: int where "experiencePeriodicEvery = 3"

text \<open>The keywords, the Vietnamese ones by their code points.\<close>

definition tier1Keywords :: "string list" where
  "tier1Keywords =
     [''l'' @ utf8 [7847] @ ''n sau'', ''nh'' @ utf8 [7899],
      ''lu'' @ utf8 [244] @ ''n lu'' @ utf8 [244] @ ''n'', ''lu'' @ utf8 [244] @ ''n '',
      ''kh'' @ utf8 [244] @ ''ng ph'' @ utf8 [7843] @ ''i'',
      ''thay v'' @ utf8 [224] @ ''o '' @ utf8 [273, 243], utf8 [273, 250] @ ''ng r'' @ utf8 [7891] @ ''i'',
      ''ch'' @ utf8 [237] @ ''nh x'' @ utf8 [225] @ ''c'', ''g'' @ utf8 [7847] @ ''n r'' @ utf8 [7891] @ ''i'',
      ''kh'' @ utf8 [244] @ ''ng '' @ utf8 [273, 250] @ ''ng'', ''sai r'' @ utf8 [7891] @ ''i'',
      ''c'' @ utf8 [7847] @ ''n ph'' @ utf8 [7843] @ ''i'', ''n'' @ utf8 [234] @ ''n '',
      ''thay v'' @ utf8 [236], ''t'' @ utf8 [7889] @ ''t h'' @ utf8 [417] @ ''n n'' @ utf8 [7871] @ ''u'',
      ''t'' @ utf8 [7915] @ '' nay'',
      ''t'' @ utf8 [244] @ ''i kh'' @ utf8 [244] @ ''ng bi'' @ utf8 [7871] @ ''t'',
      ''m'' @ utf8 [236] @ ''nh kh'' @ utf8 [244] @ ''ng bi'' @ utf8 [7871] @ ''t'',
      utf8 [224] @ '' ra v'' @ utf8 [7853] @ ''y'', utf8 [224] @ '' ra th'' @ utf8 [7871],
      ''t'' @ utf8 [244] @ ''i hi'' @ utf8 [7875] @ ''u'',
      ''m'' @ utf8 [236] @ ''nh hi'' @ utf8 [7875] @ ''u'', ''t'' @ utf8 [244] @ ''i h'' @ utf8 [7885] @ ''c'',
      ''m'' @ utf8 [236] @ ''nh h'' @ utf8 [7885] @ ''c'', ''hay '' @ utf8 [273, 243],
      ''c'' @ utf8 [7843] @ ''m '' @ utf8 [417] @ ''n'', ''gi'' @ utf8 [250] @ ''p t'' @ utf8 [244] @ ''i'',
      ''gi'' @ utf8 [250] @ ''p m'' @ utf8 [236] @ ''nh'', ''t'' @ utf8 [432] @ '' v'' @ utf8 [7845] @ ''n'',
      ''g'' @ utf8 [7907] @ ''i '' @ utf8 [253],
      ''n'' @ utf8 [234] @ ''n l'' @ utf8 [224] @ ''m g'' @ utf8 [236],
      ''l'' @ utf8 [224] @ ''m th'' @ utf8 [7871] @ '' n'' @ utf8 [224] @ ''o'',
      ''nh'' @ utf8 [432] @ '' th'' @ utf8 [7871] @ '' n'' @ utf8 [224] @ ''o'',
      ''c'' @ utf8 [243] @ '' c'' @ utf8 [225] @ ''ch n'' @ utf8 [224] @ ''o'',
      ''v'' @ utf8 [7845] @ ''n '' @ utf8 [273, 7873] @ '' l'' @ utf8 [224],
      ''kh'' @ utf8 [243] @ '' kh'' @ utf8 [259] @ ''n'',
      ''th'' @ utf8 [225] @ ''ch th'' @ utf8 [7913] @ ''c'', ''lo l'' @ utf8 [7855] @ ''ng'', ''next time'',
      ''always '', ''remember'', ''instead'', ''that'' @ [chr 39] @ ''s right'', ''exactly'',
      ''not like that'', ''you should'', ''please always'', ''going forward'', ''from now on'',
      ''in the future'', ''don'' @ [chr 39] @ ''t do'', ''i don'' @ [chr 39] @ ''t know'',
      ''i didn'' @ [chr 39] @ ''t know'', ''i see'', ''i understand'', ''can you help'', ''how do i'',
      ''what should'', ''any advice'', ''the problem is'', ''struggling'', ''challenge'', ''worried'',
      ''thank you'', ''thanks'', ''got it'', ''makes sense'']"

section \<open>The keyword gate\<close>

definition has_keyword :: "(nat \<Rightarrow> nat) \<Rightarrow> message \<Rightarrow> bool" where
  "has_keyword tab m = (let lower = ToLower tab (msg_Content m) in list_ex (contains lower) tier1Keywords)"

definition hasTier1Signal :: "(nat \<Rightarrow> nat) \<Rightarrow> message list \<Rightarrow> bool" where
  "hasTier1Signal tab msgs = list_ex (has_keyword tab) msgs"

text \<open>The loop runs from the last message to the first; each message with a keyword moves the boundary.\<close>

definition boundary_loop :: "(nat \<Rightarrow> nat) \<Rightarrow> message list \<Rightarrow> nat" where
  "boundary_loop tab msgs =
     fold (\<lambda>i boundaryIdx. if has_keyword tab (msgs ! i) then i else boundaryIdx) (rev [0..<length msgs]) 0"

definition findSmartSlice :: "(nat \<Rightarrow> nat) \<Rightarrow> message list \<Rightarrow> message list" where
  "findSmartSlice tab msgs = drop (boundary_loop tab msgs - 1) msgs"

definition recent_slice :: "message list \<Rightarrow> message list" where
  "recent_slice chronological = drop (length chronological - experienceTier1Depth) chronological"

section \<open>The prompt\<close>

text \<open>The role's first byte in upper case; an empty role is a slice out of range.\<close>

definition window_line :: "(nat \<Rightarrow> nat) \<Rightarrow> message \<Rightarrow> string res" where
  "window_line upper m =
     (if msg_Role m = [] then Inl (Panic ''slice bounds out of range'')
      else (let role = ToUpper upper (take 1 (msg_Role m)) @ drop 1 (msg_Role m);
                content = (if RuneCount (msg_Content m) > 300
                           then utf8 (take 300 (runes (msg_Content m))) @ utf8 [8230] else msg_Content m)
            in Inr (''['' @ role @ '']: '' @ content @ [chr 10])))"

fun buildWindowTranscript :: "(nat \<Rightarrow> nat) \<Rightarrow> message list \<Rightarrow> string res" where
  "buildWindowTranscript upper [] = Inr []"
| "buildWindowTranscript upper (m # ms) =
     (case window_line upper m of
        Inl e \<Rightarrow> Inl e
      | Inr l \<Rightarrow> (case buildWindowTranscript upper ms of Inl e \<Rightarrow> Inl e | Inr ls \<Rightarrow> Inr (l @ ls)))"

text \<open>The worker's collaborators.\<close>

record exp_env =
  xe_cod :: codec
  xe_crypto_lib :: crypto_lib
  xe_master_key :: string
  xe_lower :: "nat \<Rightarrow> nat"
  xe_upper :: "nat \<Rightarrow> nat"
  xe_search :: pg_search
  xe_llm :: llm_client
  xe_prompt :: string
  xe_now_text :: string

definition buildPrompt :: "exp_env \<Rightarrow> string \<Rightarrow> string \<Rightarrow> string \<Rightarrow> nat \<Rightarrow> db \<Rightarrow> string \<times> db" where
  "buildPrompt E tenantID userID window msgCount d =
     (let (profile, d1) = Get (xe_lower E) (xe_cod E) (xe_crypto_lib E) (xe_master_key E) tenantID userID d
      in (replacer
            [(''{{CURRENT_TIME}}'', xe_now_text E), (''{{USER_NAME}}'', up_CanonicalName profile),
             (''{{MESSAGE_COUNT}}'', Itoa (int msgCount)), (''{{CONVERSATION_WINDOW}}'', window)] (xe_prompt E), d1))"

section \<open>One batch event\<close>

record signal =
  sg_HasSignal :: bool
  sg_Description :: string
  sg_Steps :: "string list"

definition signal_fields :: "signal field list" where
  "signal_fields =
     [(''has_signal'', dec_bool (\<lambda>b s. s\<lparr>sg_HasSignal := b\<rparr>)),
      (''description'', dec_string (\<lambda>t s. s\<lparr>sg_Description := t\<rparr>)),
      (''steps'', dec_array decode_strings (\<lambda>ts s. s\<lparr>sg_Steps := ts\<rparr>))]"

definition parse_signal :: "string \<Rightarrow> signal res" where
  "parse_signal resp =
     unmarshal signal_fields \<lparr>sg_HasSignal = False, sg_Description = [], sg_Steps = []\<rparr> (parse_json (extractJSON resp))"

text \<open>The payload without its batch size.\<close>

definition exp_batch_fields :: "batch_info field list" where
  "exp_batch_fields = filter (\<lambda>f. fst f \<noteq> ''batch_size'') batch_fields"

definition parse_exp_batch :: "bulk \<Rightarrow> batch_info res" where
  "parse_exp_batch payload = unmarshal exp_batch_fields zero_batch (bulk_json payload)"

definition store_experience :: "exp_env \<Rightarrow> batch_info \<Rightarrow> uuid \<Rightarrow> signal \<Rightarrow> db \<Rightarrow> err option \<times> db" where
  "store_experience E b latestMsgID sg d =
     (case Embed (xe_llm E) (sg_Description sg) of
        Inl e \<Rightarrow> (Some (wrap ''embed description'' e), d)
      | Inr embedding \<Rightarrow>
          (let sessionID = (case uuid_Parse (xe_cod E) (bi_SessionID b) of Some s \<Rightarrow> s | None \<Rightarrow> 0);
               ((similar, _), d1) = SearchSimilar (xe_cod E) (xe_search E) (bi_TenantID b) (bi_UserID b) embedding
                                      experienceSimilarityMin d;
               (r, d2) = UpsertExperience (xe_cod E) (bi_TenantID b) (bi_UserID b) sessionID latestMsgID
                           (sg_Description sg) (sg_Steps sg) embedding (map_option exp_ID similar) d1
           in (map_option (wrap ''upsert experience'') r, d2)))"

definition extract_experience :: "exp_env \<Rightarrow> batch_info \<Rightarrow> message list \<Rightarrow> db \<Rightarrow> err option \<times> db" where
  "extract_experience E b chronological d =
     (let smartSlice = findSmartSlice (xe_lower E) chronological in
      case buildWindowTranscript (xe_upper E) smartSlice of
        Inl e \<Rightarrow> (Some e, d)
      | Inr window \<Rightarrow>
          (let (prompt, d1) = buildPrompt E (bi_TenantID b) (bi_UserID b) window (length smartSlice) d in
           case Generate (xe_llm E)
                  (BuildLLMRequest ''You are an experience extractor. Return JSON only. No markdown.'' prompt) of
             Inl e \<Rightarrow> (Some (wrap ''llm generate'' e), d1)
           | Inr (resp, _) \<Rightarrow>
               (case parse_signal resp of
                  Inl _ \<Rightarrow> (None, d1)
                | Inr sg \<Rightarrow>
                    if \<not> sg_HasSignal sg \<or> sg_Description sg = [] \<or> sg_Steps sg = [] then (None, d1)
                    else store_experience E b (msg_ID (last chronological)) sg d1)))"

text \<open>\<^verbatim>\<open>processPayload\<close>; the count of the calls that found messages is passed in and out.\<close>

definition processPayload ::
  "exp_env \<Rightarrow> 'r redis \<Rightarrow> int \<Rightarrow> bulk \<Rightarrow> 'r world \<Rightarrow> err option \<times> int \<times> 'r world" where
  "processPayload E R batchCount payload w =
     (case parse_exp_batch payload of
        Inl e \<Rightarrow> (Some (wrap ''parse payload'' e), batchCount, w)
      | Inr b \<Rightarrow>
          (case fetch_window R (xe_cod E) b experienceWindowSize w of
             (Inl e, w1) \<Rightarrow> (if is_panic e then Some e else None, batchCount, w1)
           | (Inr [], w1) \<Rightarrow> (None, batchCount, w1)
           | (Inr msgs, w1) \<Rightarrow>
               (let chronological = rev msgs; callN = batchCount + 1;
                    periodicBypass = (callN mod experiencePeriodicEvery = 0)
                in if \<not> periodicBypass \<and> \<not> hasTier1Signal (xe_lower E) (recent_slice chronological)
                   then (None, callN, w1)
                   else (let (r, w2) = on_db (extract_experience E b chronological) w1 in (r, callN, w2)))))"

section \<open>The worker on its streams\<close>

definition experience_handle ::
  "exp_env \<Rightarrow> 'r redis \<Rightarrow> 'r groups \<Rightarrow> int \<Rightarrow> string \<Rightarrow> string \<Rightarrow> bulk \<Rightarrow> 'r world \<Rightarrow> outcome \<times> int \<times> 'r world" where
  "experience_handle E R G batchCount stream msgID payload w =
     (let (r, n, w1) = processPayload E R batchCount payload w
      in case r of
           None \<Rightarrow> (Acked, n, snd (group_do G (XACK stream experienceConsumerGroup [msgID]) w1))
         | Some e \<Rightarrow> (if is_panic e then Crashed else Failed, n, w1))"

definition experience_policy :: policy where
  "experience_policy = \<lparr>pl_group = experienceConsumerGroup, pl_consumer = experienceConsumerName,
     pl_idle = experienceRetryIdleTime, pl_keep_cursor = False, pl_guard = False,
     pl_skip = (\<lambda>deliveries. deliveries > experienceMaxRetries)\<rparr>"

text \<open>Its two loops are those of the cognitive worker, with its own settings.\<close>

definition experience_poll :: "'r groups \<Rightarrow> 'r stream_worker \<Rightarrow> 'r stream_worker option" where
  "experience_poll = poll experience_policy"

definition experience_reclaim :: "'r groups \<Rightarrow> nat \<Rightarrow> 'r stream_worker \<Rightarrow> 'r stream_worker option" where
  "experience_reclaim = reclaim experience_policy"

definition experience_handler :: "'r redis \<Rightarrow> 'r groups \<Rightarrow> 'r handler" where
  "experience_handler R G stream msgID payload retries w res \<longleftrightarrow>
     (\<exists>E n n'. experience_handle E R G n stream msgID payload w = (fst res, n', snd res))"

text \<open>An entry that was delivered more than three times is acknowledged without being handled.\<close>

lemma experience_gives_up:
  assumes "sw_reclaim s = RPend stream ((i, c) # ps) ss" "experienceMaxRetries < c"
  shows "experience_reclaim G conc s = Some (s\<lparr>sw_world := snd (group_do G (XACK stream experienceConsumerGroup [i]) (sw_world s)),
    sw_reclaim := RPend stream ps ss, sw_skipped := sw_skipped s @ [(stream, i)]\<rparr>)"
  using assms by (simp add: experience_reclaim_def reclaim_def experience_policy_def)

section \<open>The slice\<close>

lemma boundary_loop_first:
  "boundary_loop tab msgs =
     (case List.find (\<lambda>i. has_keyword tab (msgs ! i)) [0..<length msgs] of Some i \<Rightarrow> i | None \<Rightarrow> 0)"
proof -
  have "fold (\<lambda>i b. if p i then i else b) (rev is) b = (case List.find p is of Some i \<Rightarrow> i | None \<Rightarrow> b)"
    for p and "is" :: "nat list" and b
    by (induction "is") auto
  then show ?thesis by (simp add: boundary_loop_def)
qed

text \<open>So the slice begins one message before the first one with a keyword, and nothing with a keyword is cut off.\<close>

lemma findSmartSlice_split:
  assumes "hasTier1Signal tab msgs"
  shows "\<exists>pre ctx m post. msgs = pre @ ctx @ m # post \<and> findSmartSlice tab msgs = ctx @ m # post \<and>
    has_keyword tab m \<and> \<not> hasTier1Signal tab (pre @ ctx) \<and> length ctx = min 1 (length (pre @ ctx))"
proof -
  obtain i where i: "List.find (\<lambda>i. has_keyword tab (msgs ! i)) [0..<length msgs] = Some i"
    using assms by (cases "List.find (\<lambda>i. has_keyword tab (msgs ! i)) [0..<length msgs]")
      (auto simp: find_None_iff hasTier1Signal_def list_ex_iff in_set_conv_nth)
  then have n: "i < length msgs" "has_keyword tab (msgs ! i)" "\<forall>j < i. \<not> has_keyword tab (msgs ! j)"
    by (auto simp: find_Some_iff)
  define pre ctx post where "pre = take (i - 1) msgs" and "ctx = drop (i - 1) (take i msgs)" and "post = drop (Suc i) msgs"
  have pre: "pre @ ctx = take i msgs"
    using append_take_drop_id [of "i - 1" "take i msgs"] by (simp add: pre_def ctx_def)
  have msgs: "msgs = pre @ ctx @ msgs ! i # post"
    using id_take_nth_drop [OF n(1)] unfolding append_assoc [symmetric] pre post_def .
  have "findSmartSlice tab msgs = drop (i - 1) msgs" by (simp add: findSmartSlice_def boundary_loop_first i)
  moreover have "length pre = i - 1" using n(1) by (simp add: pre_def)
  ultimately have slice: "findSmartSlice tab msgs = ctx @ msgs ! i # post"
    using arg_cong [OF msgs, of "drop (i - 1)"] by simp
  have "\<not> hasTier1Signal tab (pre @ ctx)"
    using n unfolding pre hasTier1Signal_def by (auto simp: list_ex_iff in_set_conv_nth)
  moreover have "length ctx = min 1 (length (pre @ ctx))" using n(1) unfolding pre by (simp add: ctx_def)
  ultimately show ?thesis using msgs slice n(2) by blast
qed

section \<open>The gate\<close>

text \<open>A batch without a keyword in its last messages never reaches the model, except every third one.\<close>

lemma gate_closed:
  assumes "parse_exp_batch payload = Inr b" "fetch_window R (xe_cod E) b experienceWindowSize w = (Inr msgs, w1)"
    and "msgs \<noteq> []" "(n + 1) mod 3 \<noteq> 0" "\<not> hasTier1Signal (xe_lower E) (rev (take 8 msgs))"
  shows "processPayload E R n payload w = (None, n + 1, w1)"
proof -
  have "recent_slice (rev msgs) = rev (take 8 msgs)"
    by (cases "length msgs \<le> 8") (simp_all add: recent_slice_def experienceTier1Depth_def drop_rev)
  with assms show ?thesis
    by (cases msgs) (simp_all add: processPayload_def experiencePeriodicEvery_def Let_def)
qed

section \<open>Stored experiences stay within their bounds\<close>

lemma store_experience_ok:
  "store_experience E b i sg d = (r, d') \<Longrightarrow> experiences_ok d \<Longrightarrow> experiences_ok d'"
  by (auto simp: store_experience_def Let_def SearchSimilar_def split: sum.splits prod.splits if_splits
      dest!: pool_query_tables intro: UpsertExperience_ok experiences_ok_tables)

lemma extract_experience_ok:
  assumes "extract_experience E b ms d = (r, d')" "experiences_ok d"
  shows "experiences_ok d'"
proof -
  have p: "buildPrompt E t u win n d = (pr, d1) \<Longrightarrow> experiences_ok d1" for t u win n pr d1
    using assms(2) by (auto simp: buildPrompt_def Get_def Let_def split: prod.splits sum.splits
        dest!: pool_query_tables intro: experiences_ok_tables)
  show ?thesis
    using assms by (auto simp: extract_experience_def Let_def split: sum.splits prod.splits if_splits
        dest: p intro: store_experience_ok)
qed

lemma processPayload_ok:
  assumes "processPayload E R n payload w = (r, n', w')" "experiences_ok (w_db w)"
  shows "experiences_ok (w_db w')"
proof -
  have "experiences_ok (w_db w')" if b: "parse_exp_batch payload = Inr b" for b
  proof -
    obtain f w1 where f: "fetch_window R (xe_cod E) b experienceWindowSize w = (f, w1)" by fastforce
    have "experiences_ok (w_db w1)" using fetch_window_tables [OF f] assms(2) experiences_ok_tables by blast
    with assms(1) b f show ?thesis
      by (auto simp: processPayload_def Let_def on_db_def split: sum.splits list.splits prod.splits if_splits
          dest: extract_experience_ok)
  qed
  with assms show ?thesis by (cases "parse_exp_batch payload") (auto simp: processPayload_def)
qed

section \<open>The handler's effect on the server\<close>

context stream_server
begin

lemma processPayload_quiet:
  assumes "processPayload E R n payload w = (r, n', w')"
  shows "quiet ob (w_redis w) (w_redis w')"
proof -
  have "quiet ob (w_redis w) (w_redis w')" if b: "parse_exp_batch payload = Inr b" for b
  proof -
    obtain f w1 where f: "fetch_window R (xe_cod E) b experienceWindowSize w = (f, w1)" by fastforce
    have "w_redis w' = w_redis w1"
      using assms b f
      by (auto simp: processPayload_def Let_def on_db_def split: sum.splits list.splits prod.splits if_splits)
    then show ?thesis using fetch_window_quiet [OF f] by simp
  qed
  with assms show ?thesis by (cases "parse_exp_batch payload") (auto simp: processPayload_def)
qed

lemma experience_handle_ok:
  assumes "experience_handler R G s i p r w (oc, w')"
  shows "if oc \<in> {Acked, Dead, Dropped} then settled ob s experienceConsumerGroup {i} (w_redis w) (w_redis w')
    else quiet ob (w_redis w) (w_redis w')"
proof -
  obtain E n n' where h: "experience_handle E R G n s i p w = (oc, n', w')" using assms by (auto simp: experience_handler_def)
  obtain x m w1 where x: "processPayload E R n p w = (x, m, w1)" by (metis prod_cases3)
  note q = processPayload_quiet [OF x]
  show ?thesis
  proof (cases x)
    case None
    have "settled ob s experienceConsumerGroup {i} (w_redis w1) (w_redis (snd (group_do G (XACK s experienceConsumerGroup [i]) w1)))"
      using do_ack [OF prod.collapse [symmetric], of s experienceConsumerGroup "[i]" w1] by simp
    with h x None q show ?thesis by (auto simp: experience_handle_def intro: settled_quiet(2))
  next
    case (Some e)
    with h x q show ?thesis by (auto simp: experience_handle_def split: if_splits)
  qed
qed

end

sublocale stream_server \<subseteq> experience:
  stream_worker G ob experience_policy "experience_handler R G" conc "\<lambda>oc. True" 4
    "quiet_in ob experienceConsumerGroup" for conc
proof
  show "if oc \<in> {Acked, Dead, Dropped} then settled ob s (pl_group experience_policy) {i} (w_redis w) (w_redis w')
      else quiet ob (w_redis w) (w_redis w')"
    if "experience_handler R G s i p r w (oc, w')" for s i p r w oc w'
    using experience_handle_ok [OF that] by (simp add: experience_policy_def)
qed (simp_all add: experience_policy_def experienceMaxRetries_def)

end
