(* ===== verification/Embedder.thy ===== *)
theory Embedder
  imports StreamFetch
begin

text \<open>
  The embedder worker (\<^verbatim>\<open>internal/worker/embedder.go\<close>): which entries of a read become a batch,
  the embedding of a batch tenant by tenant, and the acknowledgement of what was embedded. No binary
  of the repository starts this worker.
\<close>

section \<open>Settings\<close>

definition EmbedBatchMaxSize :: int where "EmbedBatchMaxSize = 32"
definition embedder_stream :: string where "embedder_stream = ''global:stream:embedder''"
definition embedder_group :: string where "embedder_group = ''embedder_group''"
definition embedder_idle :: time where "embedder_idle = 25 * second"

text \<open>The collaborators; \<open>em_order\<close> is the order in which the map of tenants is visited.\<close>

record embed_env =
  em_cod :: codec
  em_llm :: llm_client
  em_consumer :: string
  em_order :: "string list \<Rightarrow> string list"

section \<open>One tenant\<close>

text \<open>The messages asked for, as their id texts and contents.\<close>

definition message_records :: "embed_env \<Rightarrow> message_payload list \<Rightarrow> db \<Rightarrow> (string \<times> string) list res \<times> db" where
  "message_records E payloads =
     pool_query (\<lambda>d. Inr (map (\<lambda>m. (uuid_String (em_cod E) (msg_ID m), msg_Content m))
       (filter (\<lambda>m. uuid_String (em_cod E) (msg_ID m) \<in> set (map (\<lambda>p. uuid_String (em_cod E) (mp_MessageID p)) payloads))
          (db_messages d))))"

definition set_embedding :: "codec \<Rightarrow> string \<Rightarrow> vec \<Rightarrow> db \<Rightarrow> unit res \<times> db" where
  "set_embedding cod i v d =
     (Inr (), d\<lparr>db_messages := update_where (\<lambda>m. uuid_String cod (msg_ID m) = i)
        (\<lambda>m. m\<lparr>msg_embedding := Some v\<rparr>) (db_messages d)\<rparr>)"

fun publish_all :: "embed_env \<Rightarrow> 'r redis \<Rightarrow> message_payload list \<Rightarrow> 'r world \<Rightarrow> 'r world" where
  "publish_all E R [] w = w"
| "publish_all E R (p # ps) w =
     publish_all E R ps (snd (redis_do R (PUBLISH (uuid_String (em_cod E) (mp_TenantID p) @ '':events:messages'')
       (Json (message_payload_json (em_cod E) p))) w))"

definition processTenantBatch ::
  "embed_env \<Rightarrow> 'r redis \<Rightarrow> message_payload list \<Rightarrow> 'r world \<Rightarrow> err option \<times> 'r world" where
  "processTenantBatch E R payloads w =
     (case on_db (message_records E payloads) w of
        (Inl e, w1) \<Rightarrow> (Some e, w1)
      | (Inr records, w1) \<Rightarrow>
          if records = [] then (None, w1)
          else (case EmbedBatch (em_llm E) (map snd records) of
              Inl e \<Rightarrow> (Some e, w1)
            | Inr embeddings \<Rightarrow>
                if length embeddings \<noteq> length records then (Some (Err ''embedding count mismatch''), w1)
                else (let w2 = snd (on_db (send_batch (map (\<lambda>((i, _), v). set_embedding (em_cod E) i v)
                                (zip records embeddings))) w1)
                      in (None, publish_all E R payloads w2))))"

section \<open>One batch\<close>

definition by_tenant :: "embed_env \<Rightarrow> message_payload list \<Rightarrow> (string \<times> message_payload list) list" where
  "by_tenant E payloads =
     (let tid = (\<lambda>p. uuid_String (em_cod E) (mp_TenantID p))
      in map (\<lambda>t. (t, filter (\<lambda>p. tid p = t) payloads)) (em_order E (remdups (map tid payloads))))"

fun process_groups ::
  "embed_env \<Rightarrow> 'r redis \<Rightarrow> (string \<times> message_payload list) list \<Rightarrow> 'r world \<Rightarrow> err option \<times> 'r world" where
  "process_groups E R [] w = (None, w)"
| "process_groups E R ((t, ps) # gs) w =
     (case processTenantBatch E R ps w of (Some e, w1) \<Rightarrow> (Some e, w1) | (None, w1) \<Rightarrow> process_groups E R gs w1)"

definition processBatch :: "embed_env \<Rightarrow> 'r redis \<Rightarrow> message_payload list \<Rightarrow> 'r world \<Rightarrow> err option \<times> 'r world" where
  "processBatch E R payloads = process_groups E R (by_tenant E payloads)"

text \<open>The goroutine of a batch: the ids are acknowledged only after the embedding.\<close>

definition embed_task ::
  "embed_env \<Rightarrow> 'r redis \<Rightarrow> 'r groups \<Rightarrow> message_payload list \<times> string list \<Rightarrow> 'r world \<Rightarrow> err option \<times> 'r world" where
  "embed_task E R G task w =
     (case processBatch E R (fst task) w of
        (Some e, w1) \<Rightarrow> (Some e, w1)
      | (None, w1) \<Rightarrow> (None, snd (group_do G (XACK embedder_stream embedder_group (snd task)) w1)))"

section \<open>Which entries become a batch\<close>

definition decode_payload :: "codec \<Rightarrow> entry \<Rightarrow> message_payload option" where
  "decode_payload cod e =
     (case map_of e ''payload'' of
        None \<Rightarrow> None
      | Some v \<Rightarrow> (case unmarshal (message_payload_fields cod) zero_message_payload (bulk_json v) of
          Inl _ \<Rightarrow> None | Inr p \<Rightarrow> Some p))"

text \<open>The main loop acknowledges what it cannot decode; the reclaim loop passes it over.\<close>

fun classify ::
  "embed_env \<Rightarrow> 'r groups \<Rightarrow> (string \<times> entry) list \<Rightarrow> 'r world \<Rightarrow> (message_payload list \<times> string list) \<times> 'r world" where
  "classify E G [] w = (([], []), w)"
| "classify E G ((i, e) # ms) w =
     (case decode_payload (em_cod E) e of
        None \<Rightarrow> classify E G ms (snd (group_do G (XACK embedder_stream embedder_group [i]) w))
      | Some p \<Rightarrow> (let ((ps, is), w1) = classify E G ms w in ((p # ps, i # is), w1)))"

definition listen_round ::
  "embed_env \<Rightarrow> 'r groups \<Rightarrow> 'r world \<Rightarrow> (message_payload list \<times> string list) option \<times> 'r world" where
  "listen_round E G w =
     (let (r, w1) = group_do G (XREADGROUP embedder_group (em_consumer E) [embedder_stream] EmbedBatchMaxSize) w
      in case r of
           Inl e \<Rightarrow>
             if e \<noteq> redis_Nil \<and> contains (error_text e) ''NOGROUP''
             then (None, snd (group_do G (XGROUP_CREATE embedder_stream embedder_group ''$'') w1))
             else (None, w1)
         | Inr (GStreams ((_, ms) # _)) \<Rightarrow>
             (let (task, w2) = classify E G ms w1 in (if fst task = [] then None else Some task, w2))
         | _ \<Rightarrow> (None, w1))"

definition reclaim_round ::
  "embed_env \<Rightarrow> 'r groups \<Rightarrow> 'r world \<Rightarrow> (message_payload list \<times> string list) option \<times> 'r world" where
  "reclaim_round E G w =
     (let (r, w1) = group_do G (XPENDING embedder_stream embedder_group embedder_idle EmbedBatchMaxSize) w
      in case r of
           Inr (GPending (p # ps)) \<Rightarrow>
             (let (c, w2) = group_do G (XCLAIM embedder_stream embedder_group (em_consumer E) embedder_idle (map fst (p # ps))) w1
              in case c of
                   Inr (GClaimed ms) \<Rightarrow>
                     (let good = filter (\<lambda>m. decode_payload (em_cod E) (snd m) \<noteq> None) ms;
                          task = (map (\<lambda>m. the (decode_payload (em_cod E) (snd m))) good, map fst good)
                      in (if good = [] then None else Some task, w2))
                 | _ \<Rightarrow> (None, w2))
         | _ \<Rightarrow> (None, w1))"

section \<open>The worker\<close>

text \<open>At its start the worker names itself by the clock and makes sure that the group is there, from the beginning.\<close>

definition embedder_consumer :: "time \<Rightarrow> string" where
  "embedder_consumer now = ''embedder_worker_'' @ Itoa now"

definition ensureGroup :: "'r groups \<Rightarrow> 'r world \<Rightarrow> 'r world" where
  "ensureGroup G w = snd (group_do G (XGROUP_CREATE embedder_stream embedder_group ''0'') w)"

text \<open>
  The main loop and the reclaim loop share the semaphore: a loop whose batch waits for a slot does nothing
  else. A batch runs in its own goroutine.
\<close>

record 'r embedder =
  ew_world :: "'r world"
  ew_main :: "(message_payload list \<times> string list) option"
  ew_reclaim :: "(message_payload list \<times> string list) option"
  ew_running :: "(message_payload list \<times> string list) list"

definition listening :: "'r groups \<Rightarrow> 'r world \<Rightarrow> 'r embedder" where
  "listening G w = \<lparr>ew_world = ensureGroup G w, ew_main = None, ew_reclaim = None, ew_running = []\<rparr>"

inductive embedder_step ::
  "embed_env \<Rightarrow> 'r redis \<Rightarrow> 'r groups \<Rightarrow> nat \<Rightarrow> 'r embedder \<Rightarrow> 'r embedder \<Rightarrow> bool"
  for E :: embed_env and R :: "'r redis" and G :: "'r groups" and conc :: nat where
  read: "ew_main s = None \<Longrightarrow> listen_round E G (ew_world s) = (t, w) \<Longrightarrow>
    embedder_step E R G conc s (s\<lparr>ew_world := w, ew_main := t\<rparr>)"
| reclaim: "ew_reclaim s = None \<Longrightarrow> reclaim_round E G (ew_world s) = (t, w) \<Longrightarrow>
    embedder_step E R G conc s (s\<lparr>ew_world := w, ew_reclaim := t\<rparr>)"
| start_read: "ew_main s = Some t \<Longrightarrow> length (ew_running s) < conc \<Longrightarrow>
    embedder_step E R G conc s (s\<lparr>ew_main := None, ew_running := ew_running s @ [t]\<rparr>)"
| start_reclaimed: "ew_reclaim s = Some t \<Longrightarrow> length (ew_running s) < conc \<Longrightarrow>
    embedder_step E R G conc s (s\<lparr>ew_reclaim := None, ew_running := ew_running s @ [t]\<rparr>)"
| finish: "t \<in> set (ew_running s) \<Longrightarrow> embed_task E R G t (ew_world s) = (r, w) \<Longrightarrow>
    embedder_step E R G conc s (s\<lparr>ew_world := w, ew_running := remove1 t (ew_running s)\<rparr>)"
| elsewhere: "embedder_step E R G conc s (s\<lparr>ew_world := w\<rparr>)"

section \<open>What a batch does\<close>

text \<open>The classified entries are those that decode, each with its id; the others are acknowledged.\<close>

lemma classify_task:
  "fst (classify E G ms w) =
     (map (\<lambda>m. the (decode_payload (em_cod E) (snd m))) (filter (\<lambda>m. decode_payload (em_cod E) (snd m) \<noteq> None) ms),
      map fst (filter (\<lambda>m. decode_payload (em_cod E) (snd m) \<noteq> None) ms))"
proof (induction ms arbitrary: w)
  case (Cons m ms)
  obtain i e where m: "m = (i, e)" by (cases m)
  show ?case
  proof (cases "decode_payload (em_cod E) e")
    case None
    then show ?thesis using Cons.IH by (simp add: m)
  next
    case (Some p)
    obtain t w1 where "classify E G ms w = (t, w1)" by fastforce
    with Some Cons.IH [of w] show ?thesis by (simp add: m)
  qed
qed simp

text \<open>
  A batch that waits or runs is never empty and pairs every payload with its entry, and at most as many
  batches run at once as there are slots.
\<close>

definition batch_ok :: "message_payload list \<times> string list \<Rightarrow> bool" where
  "batch_ok t \<longleftrightarrow> fst t \<noteq> [] \<and> length (snd t) = length (fst t)"

definition embedder_inv :: "nat \<Rightarrow> 'r embedder \<Rightarrow> bool" where
  "embedder_inv conc s \<longleftrightarrow> length (ew_running s) \<le> conc \<and> list_all batch_ok (ew_running s) \<and>
     pred_option batch_ok (ew_main s) \<and> pred_option batch_ok (ew_reclaim s)"

lemma listen_round_batch:
  assumes "listen_round E G w = (t, w')"
  shows "pred_option batch_ok t"
proof -
  have "fst task \<noteq> [] \<Longrightarrow> batch_ok task" if "classify E G ms w1 = (task, w2)" for ms w1 task w2
    using that classify_task [of E G ms w1] by (auto simp: batch_ok_def)
  with assms show ?thesis
    by (auto simp: listen_round_def Let_def split: prod.splits sum.splits group_reply.splits list.splits if_splits)
qed

lemma reclaim_round_batch:
  assumes "reclaim_round E G w = (t, w')"
  shows "pred_option batch_ok t"
  using assms
  by (auto simp: reclaim_round_def batch_ok_def Let_def
      split: prod.splits sum.splits group_reply.splits list.splits if_splits)

lemma embedder_step_inv:
  assumes "embedder_step E R G conc s s'" "embedder_inv conc s"
  shows "embedder_inv conc s'"
  using assms
proof cases
  case (finish t r w)
  have "length (remove1 t (ew_running s)) \<le> length (ew_running s)" by (simp add: length_remove1)
  with finish assms(2) show ?thesis by (auto simp: embedder_inv_def list_all_iff dest: notin_set_remove1)
qed (auto simp: embedder_inv_def dest: listen_round_batch reclaim_round_batch)

lemma embedder_reachable:
  "(embedder_step E R G conc)\<^sup>*\<^sup>* (listening G w) s \<Longrightarrow> embedder_inv conc s"
proof (induction rule: rtranclp_induct)
  case base
  show ?case by (simp add: embedder_inv_def listening_def)
next
  case (step s s')
  then show ?case by (blast intro: embedder_step_inv)
qed

text \<open>Every payload is in exactly one group, and each group is of one tenant.\<close>

lemma by_tenant_partition:
  assumes "\<And>xs. mset (em_order E xs) = mset xs"
  shows "mset (concat (map snd (by_tenant E payloads))) = mset payloads"
    and "(t, ps) \<in> set (by_tenant E payloads) \<Longrightarrow> p \<in> set ps \<Longrightarrow> uuid_String (em_cod E) (mp_TenantID p) = t"
proof -
  let ?tid = "\<lambda>p. uuid_String (em_cod E) (mp_TenantID p)"
  have part: "distinct ts \<Longrightarrow> mset (concat (map (\<lambda>t. filter (\<lambda>p. ?tid p = t) payloads) ts)) =
      filter_mset (\<lambda>p. ?tid p \<in> set ts) (mset payloads)" for ts
  proof (induction ts)
    case (Cons t ts)
    have "filter_mset (\<lambda>p. ?tid p = t) M + filter_mset (\<lambda>p. ?tid p \<in> set ts) M =
        filter_mset (\<lambda>p. ?tid p \<in> set (t # ts)) M" for M
      using Cons.prems by (induction M) auto
    with Cons show ?case by simp
  qed simp
  have d: "distinct (em_order E (remdups (map ?tid payloads)))"
    using mset_eq_imp_distinct_iff [OF assms [of "remdups (map ?tid payloads)"]] by simp
  have s: "set (em_order E (remdups (map ?tid payloads))) = ?tid ` set payloads"
    using mset_eq_setD [OF assms [of "remdups (map ?tid payloads)"]] by simp
  have "filter_mset (\<lambda>p. ?tid p \<in> ?tid ` set payloads) (mset payloads) = filter_mset (\<lambda>_. True) (mset payloads)"
    by (rule filter_mset_cong) auto
  then have "filter_mset (\<lambda>p. ?tid p \<in> ?tid ` set payloads) (mset payloads) = mset payloads" by simp
  with part [OF d] s show "mset (concat (map snd (by_tenant E payloads))) = mset payloads"
    by (simp add: by_tenant_def comp_def)
qed (auto simp: by_tenant_def Let_def)

text \<open>The updates of a batch give each record its vector.\<close>

definition with_vectors :: "codec \<Rightarrow> (string \<times> vec) list \<Rightarrow> message_row list \<Rightarrow> message_row list" where
  "with_vectors cod vs ms =
     map (\<lambda>m. case map_of vs (uuid_String cod (msg_ID m)) of None \<Rightarrow> m | Some v \<Rightarrow> m\<lparr>msg_embedding := Some v\<rparr>) ms"

lemma run_embeddings:
  assumes "distinct (map fst vs)"
  shows "run_statements (map (\<lambda>(i, v). set_embedding cod i v) vs) d =
    (Inr (), d\<lparr>db_messages := with_vectors cod vs (db_messages d)\<rparr>)"
  using assms
proof (induction vs arbitrary: d)
  case Nil
  then show ?case by (simp add: with_vectors_def)
next
  case (Cons x vs)
  obtain i v where x: "x = (i, v)" by (cases x)
  let ?up = "update_where (\<lambda>m. uuid_String cod (msg_ID m) = i) (\<lambda>m. m\<lparr>msg_embedding := Some v\<rparr>)"
  have "map_of vs i = None" using Cons.prems by (simp add: x map_of_eq_None_iff)
  then have "with_vectors cod vs (?up ms) = with_vectors cod (x # vs) ms" for ms :: "message_row list"
    by (induction ms) (auto simp: with_vectors_def x split: option.splits)
  with Cons show ?case by (simp add: x set_embedding_def)
qed

lemma publish_all_db: "w_db (publish_all E R ps w) = w_db w"
  by (induction E R ps w rule: publish_all.induct) (simp_all add: redis_do_def split_beta)

lemma records_distinct:
  assumes "go_codec cod" "distinct (map msg_ID ms)"
  shows "distinct (map fst (map (\<lambda>m. (uuid_String cod (msg_ID m), msg_Content m)) (filter p ms)))"
proof -
  have "inj (uuid_String cod)"
    by (rule inj_on_inverseI [where g = "\<lambda>s. the (uuid_Parse cod s)"]) (simp add: go_codec.uuid_roundtrip [OF assms(1)])
  moreover have "distinct (map msg_ID (filter p ms))" using assms(2) by (rule distinct_map_filter)
  ultimately show ?thesis by (auto simp: distinct_map inj_on_def comp_def)
qed

lemma tenant_batch_all_or_nothing:
  assumes "go_codec (em_cod E)" "distinct (map msg_ID (db_messages (w_db w)))"
    and "processTenantBatch E R payloads w = (r, w')"
  shows "same_tables (w_db w) (w_db w') \<or>
    (\<exists>vs. db_messages (w_db w') = with_vectors (em_cod E) vs (db_messages (w_db w)) \<and>
       map fst vs = map (\<lambda>m. uuid_String (em_cod E) (msg_ID m)) (filter (\<lambda>m. uuid_String (em_cod E) (msg_ID m) \<in>
           set (map (\<lambda>p. uuid_String (em_cod E) (mp_MessageID p)) payloads)) (db_messages (w_db w))) \<and>
       EmbedBatch (em_llm E) (map msg_Content (filter (\<lambda>m. uuid_String (em_cod E) (msg_ID m) \<in>
           set (map (\<lambda>p. uuid_String (em_cod E) (mp_MessageID p)) payloads)) (db_messages (w_db w)))) = Inr (map snd vs))"
proof -
  let ?asked = "filter (\<lambda>m. uuid_String (em_cod E) (msg_ID m) \<in>
      set (map (\<lambda>p. uuid_String (em_cod E) (mp_MessageID p)) payloads)) (db_messages (w_db w))"
  obtain q w1 where one: "on_db (message_records E payloads) w = (q, w1)" by fastforce
  then have same: "same_tables (w_db w) (w_db w1)"
    by (auto simp: message_records_def dest!: on_db_tables intro: pool_query_tables)
  show ?thesis
  proof (cases "w' = w1")
    case True
    with same show ?thesis by blast
  next
    case False
    then obtain records vs where ok: "q = Inr records" "length vs = length records"
        "EmbedBatch (em_llm E) (map snd records) = Inr vs"
      and w': "w' = publish_all E R payloads (snd (on_db (send_batch (map (\<lambda>((i, _), v). set_embedding (em_cod E) i v)
                 (zip records vs))) w1))"
      using assms(3) one
      by (auto simp: processTenantBatch_def Let_def split: sum.splits if_splits)
    let ?ids = "map (\<lambda>m. uuid_String (em_cod E) (msg_ID m)) ?asked"
    obtain f where "pool_call (w_db w) = (f, w_db w1)"
      using one ok(1) on_db_tables [OF one] by (cases "pool_call (w_db w)") (auto simp: message_records_def pool_query_def split: option.splits)
    then have recs: "map fst records = ?ids" "distinct (map fst records)" "map snd records = map msg_Content ?asked"
      using ok(1) on_db_tables [OF one] same records_distinct [OF assms(1,2)]
      by (auto simp: message_records_def pool_query_def same_tables_def comp_def split: option.splits)
    let ?vs = "zip (map fst records) vs"
    have qs: "map (\<lambda>((i, _), v). set_embedding (em_cod E) i v) (zip records vs) =
        map (\<lambda>(i, v). set_embedding (em_cod E) i v) ?vs"
      using ok(2) by (induction records vs rule: list_induct2') auto
    obtain y d2 where two: "send_batch (map (\<lambda>(i, v). set_embedding (em_cod E) i v) ?vs) (w_db w1) = (y, d2)" by fastforce
    have "w_db w' = d2" using w' two by (simp add: publish_all_db qs on_db_def)
    moreover have "same_tables (w_db w1) d2 \<or>
        (\<exists>d1. same_tables (w_db w1) d1 \<and> d2 = d1\<lparr>db_messages := with_vectors (em_cod E) ?vs (db_messages d1)\<rparr>)"
      using send_batch_cases [OF two] run_embeddings [of ?vs "em_cod E"] recs(2) ok(2) by auto
    moreover have "map fst ?vs = ?ids"
      unfolding recs(1) [symmetric] by (rule map_fst_zip) (simp add: ok(2))
    moreover have "map snd ?vs = vs" by (rule map_snd_zip) (simp add: ok(2))
    ultimately show ?thesis using same ok(3) unfolding recs(3) by (auto simp: same_tables_def)
  qed
qed

end
