(* ===== verification/Api.thy ===== *)
theory Api
  imports "HOL-Library.Sublist" Flusher Retriever
begin

text \<open>
  The HTTP handlers: \<^verbatim>\<open>internal/api/rest.go\<close>. A handler is a function from what gin gives it (the parsed
  JSON body, or \<open>None\<close> for a body that is not JSON; path and query parameters) to a response, through
  the database and the Redis server. New identifiers and the clock are arguments. Routing, the
  middleware and the encoding of the responses are not modelled: a response is its status and the data
  that goes into the body.
\<close>

datatype body =
    ErrorBody string
  | StatusBody string
  | AppendedBody string
  | ContextBody ContextBundle string int
  | FormattedBody string
  | HistoryBody "message list" int int string bool
  | SessionBody session
  | SessionsBody "session list" int
  | ExperiencesBody "experience list"

datatype response = Response (status: int) (resp_body: body)

definition bad_request :: "string \<Rightarrow> response" where
  "bad_request s = Response 400 (ErrorBody s)"

definition server_error :: "string \<Rightarrow> response" where
  "server_error s = Response 500 (ErrorBody s)"

section \<open>Binding\<close>

text \<open>\<^verbatim>\<open>ShouldBindJSON\<close>: the body decodes without an error and the required fields are not empty.\<close>

definition bind_json :: "'s field list \<Rightarrow> 's \<Rightarrow> ('s \<Rightarrow> string list) \<Rightarrow> json option \<Rightarrow> 's option" where
  "bind_json fs zero required j =
     (case j of
        None \<Rightarrow> None
      | Some v \<Rightarrow>
          (case unmarshal_struct fs zero v of
             (True, _) \<Rightarrow> None
           | (False, r) \<Rightarrow> if [] \<in> set (required r) then None else Some r))"

record AppendRequest =
  ar_TenantID :: string
  ar_UserID :: string
  ar_SessionID :: string
  ar_Role :: string
  ar_Content :: string

definition bind_append :: "json option \<Rightarrow> AppendRequest option" where
  "bind_append = bind_json
     [(''tenant_id'', dec_string (\<lambda>s r. r\<lparr>ar_TenantID := s\<rparr>)),
      (''user_id'', dec_string (\<lambda>s r. r\<lparr>ar_UserID := s\<rparr>)),
      (''session_id'', dec_string (\<lambda>s r. r\<lparr>ar_SessionID := s\<rparr>)),
      (''role'', dec_string (\<lambda>s r. r\<lparr>ar_Role := s\<rparr>)),
      (''content'', dec_string (\<lambda>s r. r\<lparr>ar_Content := s\<rparr>))]
     \<lparr>ar_TenantID = [], ar_UserID = [], ar_SessionID = [], ar_Role = [], ar_Content = []\<rparr>
     (\<lambda>r. [ar_TenantID r, ar_UserID r, ar_SessionID r, ar_Role r, ar_Content r])"

text \<open>The optional time range: a pointer to a struct of two pointers.\<close>

definition dec_time :: "codec \<Rightarrow> (time option \<Rightarrow> 's \<Rightarrow> 's) \<Rightarrow> json \<Rightarrow> 's \<Rightarrow> 's step" where
  "dec_time cod upd j s =
     (case j of JNull \<Rightarrow> Set (upd None s) | _ \<Rightarrow> dec_json_text (time_Parse cod) (\<lambda>t. upd (Some t)) j s)"

definition dec_time_range ::
  "codec \<Rightarrow> ((time option \<times> time option) option \<Rightarrow> 's \<Rightarrow> 's) \<Rightarrow> json \<Rightarrow> 's \<Rightarrow> 's step" where
  "dec_time_range cod upd j s =
     (case j of
        JNull \<Rightarrow> Set (upd None s)
      | _ \<Rightarrow> (case unmarshal_struct
                [(''start'', dec_time cod (\<lambda>t p. (t, snd p))), (''end'', dec_time cod (\<lambda>t p. (fst p, t)))]
                (None, None) j of
               (True, _) \<Rightarrow> TypeMismatch | (False, p) \<Rightarrow> Set (upd (Some p) s)))"

definition dec_strings :: "(string list \<Rightarrow> 's \<Rightarrow> 's) \<Rightarrow> json \<Rightarrow> 's \<Rightarrow> 's step" where
  "dec_strings upd j s =
     (case j of
        JArr js \<Rightarrow> (case decode_strings js of (True, _) \<Rightarrow> TypeMismatch | (False, ss) \<Rightarrow> Set (upd ss s))
      | JNull \<Rightarrow> Set (upd [] s)
      | _ \<Rightarrow> TypeMismatch)"

definition bind_context :: "codec \<Rightarrow> json option \<Rightarrow> GetContextRequest option" where
  "bind_context cod = bind_json
     [(''tenant_id'', dec_string (\<lambda>s r. r\<lparr>req_TenantID := s\<rparr>)),
      (''user_id'', dec_string (\<lambda>s r. r\<lparr>req_UserID := s\<rparr>)),
      (''session_id'', dec_string (\<lambda>s r. r\<lparr>req_SessionID := s\<rparr>)),
      (''query'', dec_string (\<lambda>s r. r\<lparr>req_Query := s\<rparr>)),
      (''memory_types'', dec_strings (\<lambda>ss r. r\<lparr>req_MemoryTypes := ss\<rparr>)),
      (''time_range'', dec_time_range cod (\<lambda>p r. r\<lparr>req_TimeRange := p\<rparr>))]
     \<lparr>req_TenantID = [], req_UserID = [], req_SessionID = [], req_Query = [], req_MemoryTypes = [], req_TimeRange = None\<rparr>
     (\<lambda>r. [req_TenantID r, req_UserID r, req_SessionID r])"

record SessionRequest =
  sq_TenantID :: string
  sq_UserID :: string
  sq_Title :: string

definition bind_session :: "json option \<Rightarrow> SessionRequest option" where
  "bind_session = bind_json
     [(''tenant_id'', dec_string (\<lambda>s r. r\<lparr>sq_TenantID := s\<rparr>)),
      (''user_id'', dec_string (\<lambda>s r. r\<lparr>sq_UserID := s\<rparr>)),
      (''title'', dec_string (\<lambda>s r. r\<lparr>sq_Title := s\<rparr>))]
     \<lparr>sq_TenantID = [], sq_UserID = [], sq_Title = []\<rparr>
     (\<lambda>r. [sq_TenantID r, sq_UserID r])"

record FeedbackRequest =
  fq_TenantID :: string
  fq_UserID :: string
  fq_ItemID :: string
  fq_Signal :: string

definition feedback_fields :: "FeedbackRequest field list" where
  "feedback_fields =
     [(''tenant_id'', dec_string (\<lambda>s r. r\<lparr>fq_TenantID := s\<rparr>)),
      (''user_id'', dec_string (\<lambda>s r. r\<lparr>fq_UserID := s\<rparr>)),
      (''item_id'', dec_string (\<lambda>s r. r\<lparr>fq_ItemID := s\<rparr>)),
      (''signal'', dec_string (\<lambda>s r. r\<lparr>fq_Signal := s\<rparr>))]"

definition zero_feedback :: FeedbackRequest where
  "zero_feedback = \<lparr>fq_TenantID = [], fq_UserID = [], fq_ItemID = [], fq_Signal = []\<rparr>"

definition bind_feedback :: "json option \<Rightarrow> FeedbackRequest option" where
  "bind_feedback = bind_json feedback_fields zero_feedback
     (\<lambda>r. [fq_TenantID r, fq_UserID r, fq_ItemID r, fq_Signal r])"

text \<open>The body of the experience feedback has no item.\<close>

definition bind_experience_feedback :: "json option \<Rightarrow> FeedbackRequest option" where
  "bind_experience_feedback = bind_json (filter (\<lambda>f. fst f \<noteq> ''item_id'') feedback_fields) zero_feedback
     (\<lambda>r. [fq_TenantID r, fq_UserID r, fq_Signal r])"

section \<open>Appending a message\<close>

definition MaxContentLength :: nat where
  "MaxContentLength = 100000"

definition MaxQueryLength :: nat where
  "MaxQueryLength = 5000"

text \<open>The message that the handler builds from a valid request.\<close>

definition new_message :: "AppendRequest \<Rightarrow> uuid \<Rightarrow> uuid \<Rightarrow> uuid \<Rightarrow> uuid \<Rightarrow> time \<Rightarrow> message" where
  "new_message req new_id t s u now =
     \<lparr>msg_ID = new_id, msg_TenantID = t, msg_SessionID = s, msg_UserID = u, msg_Role = ar_Role req,
      msg_Content = ar_Content req, msg_TokenCount = int (RuneCount (ar_Content req)) div 4,
      msg_CreatedAt = now\<rparr>"

text \<open>The batch check after the message is stored: only user turns count.\<close>

definition batch_check ::
  "'r redis \<Rightarrow> codec \<Rightarrow> int \<Rightarrow> AppendRequest \<Rightarrow> uuid \<Rightarrow> time \<Rightarrow> 'r world \<Rightarrow> 'r world" where
  "batch_check R cod cognitiveBatch req new_id now w =
     (let T = ar_TenantID req; S = ar_SessionID req;
          (cnt, w1) = (if ar_Role req = ''user'' then IncrementCognitiveBatch R T S now w else (Inr 0, w))
      in case cnt of
           Inl _ \<Rightarrow> w1
         | Inr n \<Rightarrow>
             if n \<ge> cognitiveBatch
             then (let w2 = snd (ResetCognitiveBatch R T S w1)
                   in snd (XAddCognitiveBatch R T
                        (Json (batch_payload T (ar_UserID req) S (n * 2) (uuid_String cod new_id))) w2))
             else w1)"

definition handleAppendMessages ::
  "'r redis \<Rightarrow> codec \<Rightarrow> int \<Rightarrow> uuid \<Rightarrow> time \<Rightarrow> json option \<Rightarrow> 'r world \<Rightarrow> response \<times> 'r world" where
  "handleAppendMessages R cod cognitiveBatch new_id now j w =
     (case bind_append j of
        None \<Rightarrow> (bad_request ''invalid request format'', w)
      | Some req \<Rightarrow>
          if ar_Role req \<noteq> ''user'' \<and> ar_Role req \<noteq> ''assistant'' \<and> ar_Role req \<noteq> ''system''
          then (bad_request ''invalid role. Must be one of: user,assistant,system'', w)
          else if length (ar_Content req) > MaxContentLength then (bad_request ''content too large'', w)
          else (case uuid_Parse cod (ar_TenantID req) of
             None \<Rightarrow> (bad_request ''invalid tenant_id format'', w)
           | Some t \<Rightarrow> (case uuid_Parse cod (ar_UserID req) of
             None \<Rightarrow> (bad_request ''invalid user_id format'', w)
           | Some u \<Rightarrow> (case uuid_Parse cod (ar_SessionID req) of
             None \<Rightarrow> (bad_request ''invalid session_id format'', w)
           | Some s \<Rightarrow>
               (let msg = new_message req new_id t s u now in
                case on_db (InsertMessage msg) w of
                  (Some _, w1) \<Rightarrow> (server_error ''failed to store message'', w1)
                | (None, w1) \<Rightarrow>
                    (let w2 = snd (AppendMessages R cod (ar_TenantID req) (ar_SessionID req) [msg] w1);
                         w3 = batch_check R cod cognitiveBatch req new_id now w2
                     in (Response 200 (AppendedBody (uuid_String cod new_id)), w3)))))))"

section \<open>The context\<close>

text \<open>A text field of a payload: \<^verbatim>\<open>p[key].(string)\<close> gives the empty string for any other value.\<close>

definition text_field :: "(string \<times> json) list \<Rightarrow> string \<Rightarrow> string" where
  "text_field fs key = (case map_of (rev fs) key of Some (JStr s) \<Rightarrow> s | _ \<Rightarrow> [])"

text \<open>\<^verbatim>\<open>json.Unmarshal\<close> into a map: objects and null are accepted.\<close>

definition payload_map :: "json \<Rightarrow> (string \<times> json) list option" where
  "payload_map j = (case j of JObj fs \<Rightarrow> Some fs | JNull \<Rightarrow> Some [] | _ \<Rightarrow> None)"

definition newline :: string where
  "newline = [chr 10]"

definition first_text :: "string list \<Rightarrow> string" where
  "first_text ss = (case filter (\<lambda>s. s \<noteq> []) ss of [] \<Rightarrow> [] | s # _ \<Rightarrow> s)"

definition event_line :: "memory_record \<Rightarrow> string" where
  "event_line e =
     (case payload_map (mr_Payload e) of
        None \<Rightarrow> []
      | Some p \<Rightarrow>
          (let name = first_text [text_field p ''event_name'', text_field p ''title'', text_field p ''content''];
               date = first_text [text_field p ''date'', text_field p ''period'']
           in if name = [] then []
              else if date \<noteq> [] then ''- '' @ name @ '' ('' @ date @ '')'' @ newline
              else ''- '' @ name @ newline))"

definition persona_line :: "memory_record \<Rightarrow> string" where
  "persona_line r =
     (case payload_map (mr_Payload r) of
        None \<Rightarrow> []
      | Some p \<Rightarrow> (let trait = text_field p ''trait'' in
                   if trait = [] then [] else ''- '' @ TrimSpace trait @ newline))"

definition self_line :: "entity_fact \<Rightarrow> string" where
  "self_line f = ''- '' @ ef_Attribute f @ '': '' @ ef_Value f @ newline"

definition fact_line :: "entity_fact \<Rightarrow> string" where
  "fact_line f = ''- '' @ ef_EntityName f @ ''.'' @ ef_Attribute f @ '': '' @ ef_Value f @ newline"

definition message_line :: "(nat \<Rightarrow> nat) \<Rightarrow> message \<Rightarrow> string" where
  "message_line tab m = ToUpper tab (msg_Role m) @ '': '' @ msg_Content m @ newline"

text \<open>A section is its title, one line for each item, and a blank line; without items it is left out.\<close>

definition format_section :: "string \<Rightarrow> ('a \<Rightarrow> string) \<Rightarrow> 'a list \<Rightarrow> string" where
  "format_section title line xs =
     (if xs = [] then [] else ''## '' @ title @ newline @ concat (map line xs) @ newline)"

definition bundle_text :: "(nat \<Rightarrow> nat) \<Rightarrow> ContextBundle \<Rightarrow> string" where
  "bundle_text tab b =
     format_section ''Identity'' self_line (cb_SelfFacts b) @
     format_section ''Entity Facts'' fact_line (cb_EntityFacts b) @
     format_section ''Life Events'' event_line (cb_UpcomingEvents b) @
     format_section ''Persona'' persona_line (cb_Persona b) @
     format_section ''Recent Conversation'' (message_line tab) (cb_RecentMessages b)"

definition formatBundle :: "(nat \<Rightarrow> nat) \<Rightarrow> ContextBundle \<Rightarrow> string" where
  "formatBundle tab b = TrimSpace (bundle_text tab b)"

text \<open>The checks both context handlers make, and the request they pass on, with canonical identifiers.\<close>

definition context_request :: "codec \<Rightarrow> json option \<Rightarrow> response + GetContextRequest" where
  "context_request cod j =
     (case bind_context cod j of
        None \<Rightarrow> Inl (bad_request ''invalid request format'')
      | Some req \<Rightarrow>
          if length (req_Query req) > MaxQueryLength then Inl (bad_request ''query too large'')
          else (case uuid_Parse cod (req_TenantID req) of
             None \<Rightarrow> Inl (bad_request ''invalid tenant_id format'')
           | Some t \<Rightarrow> (case uuid_Parse cod (req_UserID req) of
             None \<Rightarrow> Inl (bad_request ''invalid user_id format'')
           | Some u \<Rightarrow> (case uuid_Parse cod (req_SessionID req) of
             None \<Rightarrow> Inl (bad_request ''invalid session_id format'')
           | Some s \<Rightarrow> Inr (req\<lparr>req_TenantID := uuid_String cod t, req_UserID := uuid_String cod u,
                            req_SessionID := uuid_String cod s\<rparr>)))))"

text \<open>\<^verbatim>\<open>backend\<close> gives the answers of the data sources for a request; see \<^verbatim>\<open>Retriever.thy\<close>.\<close>

definition handleGetContext ::
  "'r redis \<Rightarrow> codec \<Rightarrow> (nat \<Rightarrow> nat) \<Rightarrow> int \<Rightarrow> (GetContextRequest \<Rightarrow> backend) \<Rightarrow> json option \<Rightarrow> 'r world
     \<Rightarrow> response \<times> 'r world" where
  "handleGetContext R cod tab recentLimit B j w =
     (case context_request cod j of
        Inl r \<Rightarrow> (r, w)
      | Inr req \<Rightarrow>
          (let (bundle, w1) = GetContext R cod recentLimit req (B req) w
           in (Response 200 (ContextBody bundle (formatBundle tab bundle)
                 (sum_list (map msg_TokenCount (cb_RecentMessages bundle)))), w1)))"

definition handleGetContextFormatted ::
  "'r redis \<Rightarrow> codec \<Rightarrow> (nat \<Rightarrow> nat) \<Rightarrow> int \<Rightarrow> (GetContextRequest \<Rightarrow> backend) \<Rightarrow> json option \<Rightarrow> 'r world
     \<Rightarrow> response \<times> 'r world" where
  "handleGetContextFormatted R cod tab recentLimit B j w =
     (case context_request cod j of
        Inl r \<Rightarrow> (r, w)
      | Inr req \<Rightarrow>
          (let (bundle, w1) = GetContext R cod recentLimit req (B req) w
           in (Response 200 (FormattedBody (formatBundle tab bundle)), w1)))"

section \<open>History\<close>

text \<open>A numeric query parameter: the default unless it is a number that passes the check.\<close>

definition query_int :: "int \<Rightarrow> (int \<Rightarrow> bool) \<Rightarrow> string \<Rightarrow> int" where
  "query_int dflt ok q =
     (if q = [] then dflt else (case Atoi q of Some v \<Rightarrow> if ok v then v else dflt | None \<Rightarrow> dflt))"

definition handleGetSessionHistory ::
  "codec \<Rightarrow> string \<Rightarrow> string \<Rightarrow> string \<Rightarrow> string \<Rightarrow> db \<Rightarrow> response \<times> db" where
  "handleGetSessionHistory cod sessionID tenantID limit_q beforeID d =
     (if uuid_Parse cod sessionID = None then (bad_request ''invalid session_id format'', d)
      else if uuid_Parse cod tenantID = None
      then (bad_request ''tenant_id is required and must be a valid UUID'', d)
      else if beforeID \<noteq> [] \<and> uuid_Parse cod beforeID = None then (bad_request ''invalid before_id format'', d)
      else (let limit = query_int 50 (\<lambda>v. v > 0) limit_q in
        case GetSessionHistory cod tenantID sessionID limit beforeID d of
          (Inl _, d1) \<Rightarrow> (server_error ''failed to retrieve messages'', d1)
        | (Inr msgs, d1) \<Rightarrow>
            (let nextCursor = (if int (length msgs) = limit then uuid_String cod (msg_ID (last msgs)) else []) in
             (Response 200 (HistoryBody msgs (int (length msgs)) (sum_list (map msg_TokenCount msgs))
                nextCursor (nextCursor \<noteq> [])), d1))))"

section \<open>Sessions\<close>

text \<open>The flush of one of the user's other sessions, in the goroutine that creating a session starts.\<close>

definition flush_other_session ::
  "'r redis \<Rightarrow> codec \<Rightarrow> string \<Rightarrow> string \<Rightarrow> string \<Rightarrow> session \<Rightarrow> 'r world \<Rightarrow> 'r world" where
  "flush_other_session R cod tenantID userID excludeSessionID sess w =
     (let sessID = uuid_String cod (ses_ID sess) in
      if sessID = excludeSessionID then w
      else (case GetCognitiveBatchCount R tenantID sessID w of
              (Inl _, w1) \<Rightarrow> w1
            | (Inr n, w1) \<Rightarrow>
                if n = 0 then w1
                else (case on_db (GetSessionHistory cod tenantID sessID 1 []) w1 of
                        (Inr (m # _), w2) \<Rightarrow>
                          (let w3 = snd (ResetCognitiveBatch R tenantID sessID w2)
                           in snd (XAddCognitiveBatch R tenantID
                                (Json (batch_payload tenantID userID sessID (n * 2) (uuid_String cod (msg_ID m)))) w3))
                      | (_, w2) \<Rightarrow> w2)))"

definition flushPreviousUserSessions ::
  "'r redis \<Rightarrow> codec \<Rightarrow> string \<Rightarrow> string \<Rightarrow> string \<Rightarrow> 'r world \<Rightarrow> 'r world" where
  "flushPreviousUserSessions R cod tenantID userID excludeSessionID w =
     (case on_db (ListSessions cod tenantID userID 5 0) w of
        (Inl _, w1) \<Rightarrow> w1
      | (Inr sessions, w1) \<Rightarrow> fold (flush_other_session R cod tenantID userID excludeSessionID) sessions w1)"

definition handleCreateSession ::
  "'r redis \<Rightarrow> codec \<Rightarrow> uuid \<Rightarrow> json option \<Rightarrow> 'r world \<Rightarrow> response \<times> 'r world" where
  "handleCreateSession R cod new_id j w =
     (case bind_session j of
        None \<Rightarrow> (bad_request ''invalid request format'', w)
      | Some req \<Rightarrow> (case uuid_Parse cod (sq_TenantID req) of
          None \<Rightarrow> (bad_request ''invalid tenant_id format'', w)
        | Some t \<Rightarrow> (case uuid_Parse cod (sq_UserID req) of
          None \<Rightarrow> (bad_request ''invalid user_id format'', w)
        | Some u \<Rightarrow>
            (let session = \<lparr>ses_ID = new_id, ses_TenantID = t, ses_UserID = u, ses_Title = sq_Title req,
                            ses_Meta = ''{}'', ses_CreatedAt = zero_time, ses_UpdatedAt = zero_time\<rparr>
             in case on_db (CreateSession session) w of
                  (Some _, w1) \<Rightarrow> (server_error ''failed to create session'', w1)
                | (None, w1) \<Rightarrow>
                    (Response 201 (SessionBody session),
                     flushPreviousUserSessions R cod (sq_TenantID req) (sq_UserID req) (uuid_String cod new_id) w1)))))"

definition handleListSessions ::
  "codec \<Rightarrow> string \<Rightarrow> string \<Rightarrow> string \<Rightarrow> string \<Rightarrow> db \<Rightarrow> response \<times> db" where
  "handleListSessions cod tenantID userID limit_q offset_q d =
     (if uuid_Parse cod tenantID = None then (bad_request ''tenant_id is required and must be a valid UUID'', d)
      else if uuid_Parse cod userID = None then (bad_request ''user_id is required and must be a valid UUID'', d)
      else (case ListSessions cod tenantID userID (query_int 20 (\<lambda>v. v > 0) limit_q)
                   (query_int 0 (\<lambda>v. v \<ge> 0) offset_q) d of
              (Inl _, d1) \<Rightarrow> (server_error ''failed to list sessions'', d1)
            | (Inr sessions, d1) \<Rightarrow> (Response 200 (SessionsBody sessions (int (length sessions))), d1)))"

definition handleDeleteSession :: "codec \<Rightarrow> string \<Rightarrow> string \<Rightarrow> db \<Rightarrow> response \<times> db" where
  "handleDeleteSession cod sessionID tenantID d =
     (if uuid_Parse cod sessionID = None then (bad_request ''invalid session_id format'', d)
      else if uuid_Parse cod tenantID = None
      then (bad_request ''tenant_id is required and must be a valid UUID'', d)
      else (case DeleteSession cod tenantID sessionID d of
              (Inl _, d1) \<Rightarrow> (server_error ''failed to delete session'', d1)
            | (Inr False, d1) \<Rightarrow> (Response 404 (ErrorBody ''session not found''), d1)
            | (Inr True, d1) \<Rightarrow> (Response 200 (StatusBody ''deleted''), d1)))"

section \<open>Feedback and experiences\<close>

definition feedback_ok :: "string \<Rightarrow> bool" where
  "feedback_ok s \<longleftrightarrow> s = ''positive'' \<or> s = ''negative''"

definition signal_error :: string where
  "signal_error = ''signal must be '' @ [chr 39] @ ''positive'' @ [chr 39] @ '' or '' @ [chr 39] @ ''negative'' @ [chr 39]"

definition handleFeedback :: "codec \<Rightarrow> json option \<Rightarrow> db \<Rightarrow> response \<times> db" where
  "handleFeedback cod j d =
     (case bind_feedback j of
        None \<Rightarrow> (bad_request ''invalid request format'', d)
      | Some req \<Rightarrow>
          if \<not> feedback_ok (fq_Signal req) then (bad_request signal_error, d)
          else (case uuid_Parse cod (fq_TenantID req) of
             None \<Rightarrow> (bad_request ''invalid tenant_id format'', d)
           | Some t \<Rightarrow> (case uuid_Parse cod (fq_UserID req) of
             None \<Rightarrow> (bad_request ''invalid user_id format'', d)
           | Some u \<Rightarrow>
               if uuid_Parse cod (fq_ItemID req) = None then (bad_request ''invalid item_id format'', d)
               else (case RecordFeedback cod (uuid_String cod t) (uuid_String cod u) (fq_ItemID req)
                        (fq_Signal req = ''positive'') d of
                       (Some _, d1) \<Rightarrow> (server_error ''failed to record feedback'', d1)
                     | (None, d1) \<Rightarrow> (Response 200 (StatusBody ''feedback recorded''), d1)))))"

definition handleListExperiences :: "codec \<Rightarrow> string \<Rightarrow> string \<Rightarrow> db \<Rightarrow> response \<times> db" where
  "handleListExperiences cod tenantIDStr userIDStr d =
     (case uuid_Parse cod tenantIDStr of
        None \<Rightarrow> (bad_request ''invalid tenant_id format'', d)
      | Some t \<Rightarrow> (case uuid_Parse cod userIDStr of
        None \<Rightarrow> (bad_request ''invalid user_id format'', d)
      | Some u \<Rightarrow>
          (case ListByUser cod (uuid_String cod t) (uuid_String cod u) d of
             (Inl _, d1) \<Rightarrow> (server_error ''failed to list experiences'', d1)
           | (Inr es, d1) \<Rightarrow> (Response 200 (ExperiencesBody es), d1))))"

definition handleExperienceFeedback :: "codec \<Rightarrow> string \<Rightarrow> json option \<Rightarrow> db \<Rightarrow> response \<times> db" where
  "handleExperienceFeedback cod experienceIDStr j d =
     (if uuid_Parse cod experienceIDStr = None then (bad_request ''invalid experience_id format'', d)
      else (case bind_experience_feedback j of
        None \<Rightarrow> (bad_request ''invalid request format'', d)
      | Some req \<Rightarrow>
          if \<not> feedback_ok (fq_Signal req) then (bad_request signal_error, d)
          else (case uuid_Parse cod (fq_TenantID req) of
             None \<Rightarrow> (bad_request ''invalid tenant_id format'', d)
           | Some t \<Rightarrow> (case uuid_Parse cod (fq_UserID req) of
             None \<Rightarrow> (bad_request ''invalid user_id format'', d)
           | Some u \<Rightarrow>
               (case ExperienceRecordFeedback cod (uuid_String cod t) (uuid_String cod u) experienceIDStr
                       (fq_Signal req = ''positive'') d of
                  (Some _, d1) \<Rightarrow> (server_error ''failed to record feedback'', d1)
                | (None, d1) \<Rightarrow> (Response 200 (StatusBody ''feedback recorded''), d1))))))"

definition handleDeleteExperience :: "codec \<Rightarrow> string \<Rightarrow> string \<Rightarrow> string \<Rightarrow> db \<Rightarrow> response \<times> db" where
  "handleDeleteExperience cod experienceIDStr tenantIDStr userIDStr d =
     (if uuid_Parse cod experienceIDStr = None then (bad_request ''invalid experience_id format'', d)
      else (case uuid_Parse cod tenantIDStr of
        None \<Rightarrow> (bad_request ''invalid tenant_id format'', d)
      | Some t \<Rightarrow> (case uuid_Parse cod userIDStr of
        None \<Rightarrow> (bad_request ''invalid user_id format'', d)
      | Some u \<Rightarrow>
          (case Deactivate cod (uuid_String cod t) (uuid_String cod u) experienceIDStr d of
             (Some _, d1) \<Rightarrow> (server_error ''failed to delete experience'', d1)
           | (None, d1) \<Rightarrow> (Response 200 (StatusBody ''experience deactivated''), d1)))))"

section \<open>Walking through the history\<close>

text \<open>
  What a client does with the cursor: it asks for the page before the last message it got, until the
  answer says there is no more. \<open>fuel\<close> bounds the number of requests.
\<close>

fun walk_history :: "codec \<Rightarrow> string \<Rightarrow> string \<Rightarrow> string \<Rightarrow> nat \<Rightarrow> string \<Rightarrow> db \<Rightarrow> message list option" where
  "walk_history cod S T limit_q 0 cursor d = None"
| "walk_history cod S T limit_q (Suc fuel) cursor d =
     (case handleGetSessionHistory cod S T limit_q cursor d of
        (Response _ (HistoryBody msgs _ _ next has_more), d1) \<Rightarrow>
          if has_more then map_option (\<lambda>rest. msgs @ rest) (walk_history cod S T limit_q fuel next d1)
          else Some msgs
      | _ \<Rightarrow> None)"

lemma Itoa_nonempty [simp]: "int64 n \<Longrightarrow> Itoa n \<noteq> []"
proof
  assume "int64 n" "Itoa n = []"
  then have "Atoi [] = Some n" using Atoi_Itoa [of n] by simp
  then show False by (simp add: Atoi_def Let_def)
qed

lemma query_int_Itoa: "int64 n \<Longrightarrow> ok n \<Longrightarrow> query_int dflt ok (Itoa n) = n"
  by (simp add: query_int_def Atoi_Itoa)

text \<open>The messages that are left after a cursor: those created strictly before its message.\<close>

definition history_rest :: "message option \<Rightarrow> message list \<Rightarrow> message list" where
  "history_rest c ms = (case c of None \<Rightarrow> ms | Some x \<Rightarrow> filter (\<lambda>m. msg_CreatedAt m < msg_CreatedAt x) ms)"

lemma history_rest_desc: "sorted_wrt (\<lambda>x y. msg_CreatedAt y \<le> msg_CreatedAt x) (history_rest c (newest_first p d))"
  by (auto simp: history_rest_def sorted_wrt_filter newest_first_desc split: option.splits)

lemma history_rest_subset: "set (history_rest c ms) \<subseteq> set ms"
  by (auto simp: history_rest_def split: option.splits)

lemma history_rest_rest: "x \<in> set (history_rest c ms) \<Longrightarrow>
    history_rest (Some x) ms = filter (\<lambda>m. msg_CreatedAt m < msg_CreatedAt x) (history_rest c ms)"
  by (auto simp: history_rest_def split: option.splits intro!: filter_cong)

text \<open>
  What a walk from a cursor yields: messages of the rest in order, one of every moment, and all of
  them when no two were created at the same moment.
\<close>

definition walked :: "message list \<Rightarrow> message list \<Rightarrow> bool" where
  "walked xs ms \<longleftrightarrow> subseq xs ms \<and> (\<forall>m \<in> set ms. \<exists>x \<in> set xs. msg_CreatedAt x = msg_CreatedAt m) \<and>
     (distinct (map msg_CreatedAt ms) \<longrightarrow> xs = ms)"

lemma walked_page:
  assumes "sorted_wrt (\<lambda>x y. msg_CreatedAt y \<le> msg_CreatedAt x) ms" "0 < n" "n \<le> length ms"
    and rest: "walked xs (filter (\<lambda>m. msg_CreatedAt m < msg_CreatedAt (last (take n ms))) ms)"
  shows "walked (take n ms @ xs) ms"
proof -
  let ?y = "last (take n ms)" and ?below = "filter (\<lambda>m. msg_CreatedAt m < msg_CreatedAt (last (take n ms)))"
  note e = page_end [OF assms(1-3)] and cut = below_page_end [OF assms(1-3)]
  have "subseq xs (drop n ms)"
    using rest unfolding walked_def cut by (meson subseq_filter_left subseq_order.order_trans)
  then have "subseq (take n ms @ xs) (take n ms @ drop n ms)" by (intro list_emb_append_mono) simp_all
  moreover have "\<exists>x \<in> set (take n ms @ xs). msg_CreatedAt x = msg_CreatedAt m" if m: "m \<in> set ms" for m
  proof -
    have "m \<in> set (take n ms) \<or> m \<in> set (drop n ms)"
      using m by (metis Un_iff append_take_drop_id set_append)
    moreover have "msg_CreatedAt m = msg_CreatedAt ?y \<or> msg_CreatedAt m < msg_CreatedAt ?y" if "m \<in> set (drop n ms)"
      using e(2) that by force
    ultimately consider "m \<in> set (take n ms)" | "m \<in> set (drop n ms)" "msg_CreatedAt m = msg_CreatedAt ?y"
      | "m \<in> set (?below ms)"
      using m by auto
    then show ?thesis
      using e(3) rest unfolding walked_def by cases (auto simp: Bex_def)
  qed
  moreover have "take n ms @ xs = ms" if d: "distinct (map msg_CreatedAt ms)"
  proof -
    have "distinct (map msg_CreatedAt (take n ms @ drop n ms))" using d by simp
    then have "\<forall>m \<in> set (drop n ms). msg_CreatedAt m \<noteq> msg_CreatedAt ?y"
      using e(3) unfolding map_append distinct_append by fastforce
    then have "?below ms = drop n ms" using e(2) unfolding cut by (force simp: filter_id_conv)
    moreover have "distinct (map msg_CreatedAt (?below ms))" by (rule distinct_map_filter) (rule d)
    ultimately show ?thesis using rest unfolding walked_def by simp
  qed
  ultimately show ?thesis by (simp add: walked_def)
qed

context go_codec
begin

text \<open>The cursor that a client holds after a message, and the page it gets with it.\<close>

definition cursor_of :: "message option \<Rightarrow> string" where
  "cursor_of c = (case c of None \<Rightarrow> [] | Some x \<Rightarrow> uuid_String cod (msg_ID x))"

lemma history_page:
  assumes "db_faults d = []" "0 < limit" "limit \<le> 100" "ms = newest_first (in_session t s) d"
    "set_option c \<subseteq> set ms" "distinct (map msg_ID (db_messages d))"
  shows "GetSessionHistory cod (uuid_String cod t) (uuid_String cod s) limit (cursor_of c) d =
    (Inr (take (nat limit) (history_rest c ms)), d)"
proof (cases c)
  case None
  then show ?thesis
    using history_first_page [of d cod _ t _ s limit] assms pg_uuid_String by (simp add: cursor_of_def history_rest_def)
next
  case (Some x)
  then show ?thesis
    using history_page_before [of d cod "uuid_String cod t" t "uuid_String cod s" s limit "cursor_of c" x]
      assms pg_uuid_String by (simp add: cursor_of_def history_rest_def)
qed

lemma handler_page:
  assumes "db_faults d = []" "0 < limit" "limit \<le> 100" "ms = newest_first (in_session t s) d"
    "set_option c \<subseteq> set ms" "distinct (map msg_ID (db_messages d))"
  defines "page \<equiv> take (nat limit) (history_rest c ms)"
  shows "handleGetSessionHistory cod (uuid_String cod s) (uuid_String cod t) (Itoa limit) (cursor_of c) d =
    (Response 200 (HistoryBody page (int (length page)) (sum_list (map msg_TokenCount page))
       (if int (length page) = limit then cursor_of (Some (last page)) else [])
       (int (length page) = limit)), d)"
proof -
  have q: "query_int 50 (\<lambda>v. 0 < v) (Itoa limit) = limit"
    using assms(2,3) by (intro query_int_Itoa) (simp_all add: int64_def)
  have cur: "cursor_of c \<noteq> [] \<Longrightarrow> uuid_Parse cod (cursor_of c) \<noteq> None"
    by (auto simp: cursor_of_def uuid_roundtrip split: option.splits)
  show ?thesis
    using history_page [OF assms(1-6)] cur
    by (auto simp: handleGetSessionHistory_def q uuid_roundtrip Let_def page_def [symmetric] cursor_of_def [of "Some _"])
qed

lemma walk_from:
  assumes "db_faults d = []" "0 < limit" "limit \<le> 100" "ms = newest_first (in_session t s) d"
    "distinct (map msg_ID (db_messages d))"
  shows "set_option c \<subseteq> set ms \<Longrightarrow> length (history_rest c ms) < fuel \<Longrightarrow>
    \<exists>xs. walk_history cod (uuid_String cod s) (uuid_String cod t) (Itoa limit) fuel (cursor_of c) d = Some xs \<and>
      walked xs (history_rest c ms)"
proof (induction fuel arbitrary: c)
  case (Suc fuel)
  let ?rest = "history_rest c ms"
  let ?page = "take (nat limit) ?rest"
  note h = handler_page [OF assms(1-4) Suc.prems(1) assms(5)]
  show ?case
  proof (cases "int (length ?page) = limit")
    case True
    then have n: "0 < nat limit" "nat limit \<le> length ?rest" using assms(2) by (auto simp: min_def split: if_splits)
    have desc: "sorted_wrt (\<lambda>x y. msg_CreatedAt y \<le> msg_CreatedAt x) ?rest"
      unfolding assms(4) by (rule history_rest_desc)
    let ?y = "last ?page"
    have y: "?y \<in> set ?rest" using page_end(3) [OF desc n] by (rule in_set_takeD)
    then have y': "?y \<in> set ms" using history_rest_subset by blast
    have next_rest: "history_rest (Some ?y) ms = filter (\<lambda>m. msg_CreatedAt m < msg_CreatedAt ?y) ?rest"
      by (rule history_rest_rest [OF y])
    have "length (history_rest (Some ?y) ms) \<le> length ?rest - nat limit"
      unfolding next_rest below_page_end [OF desc n] by (metis length_drop length_filter_le)
    then have "length (history_rest (Some ?y) ms) < fuel" using n Suc.prems(2) by linarith
    with Suc.IH [of "Some ?y"] y' obtain xs where xs:
      "walk_history cod (uuid_String cod s) (uuid_String cod t) (Itoa limit) fuel (cursor_of (Some ?y)) d = Some xs"
      "walked xs (history_rest (Some ?y) ms)" by auto
    have "walked (?page @ xs) ?rest"
      by (rule walked_page [OF desc n]) (use xs(2) next_rest in simp)
    then show ?thesis using h True xs(1) by simp
  next
    case False
    then have "?page = ?rest" using assms(2) by (auto simp: min_def split: if_splits)
    moreover have "walked ?rest ?rest" by (auto simp: walked_def)
    ultimately show ?thesis using h False by simp
  qed
qed simp

lemma walk_all:
  assumes "db_faults d = []" "0 < limit" "limit \<le> 100" "distinct (map msg_ID (db_messages d))"
    and "length (newest_first (in_session t s) d) < fuel"
  shows "\<exists>xs. walk_history cod (uuid_String cod s) (uuid_String cod t) (Itoa limit) fuel [] d = Some xs \<and>
    walked xs (newest_first (in_session t s) d)"
  using walk_from [OF assms(1-3) refl assms(4), of None t s fuel] assms(5) by (simp add: cursor_of_def history_rest_def)

lemma over_100_page:
  assumes "db_faults d = []" "100 < limit" "int64 limit"
  shows "handleGetSessionHistory cod (uuid_String cod s) (uuid_String cod t) (Itoa limit) [] d =
    (Response 200 (HistoryBody (take 50 (newest_first (in_session t s) d))
       (int (length (take 50 (newest_first (in_session t s) d))))
       (sum_list (map msg_TokenCount (take 50 (newest_first (in_session t s) d)))) [] False), d)"
proof -
  have q: "query_int 50 (\<lambda>v. 0 < v) (Itoa limit) = limit"
    using assms(2,3) by (intro query_int_Itoa) simp_all
  have "GetSessionHistory cod (uuid_String cod t) (uuid_String cod s) limit [] d =
      (Inr (take 50 (newest_first (in_session t s) d)), d)"
    using assms(1,2) by (simp add: GetSessionHistory_def pg_uuid_String history_limit_def sql_limit_def)
  then show ?thesis
    using assms(2) by (auto simp: handleGetSessionHistory_def q uuid_roundtrip Let_def)
qed

end

section \<open>What appending does\<close>

lemma GetSessionHistory_tables: "GetSessionHistory cod T S n B d = (r, d') \<Longrightarrow> same_tables d d'"
  unfolding GetSessionHistory_def by (rule pool_query_tables)

lemma reload_tables:
  assumes "reloadAndAppend R cod key T S ms w = (r, w')"
  shows "same_tables (w_db w) (w_db w')"
proof -
  obtain h w1 where one: "on_db (GetSessionHistory cod T S 50 []) w = (h, w1)" by fastforce
  then have "same_tables (w_db w) (w_db w1)"
    using on_db_redis [OF one] GetSessionHistory_tables by blast
  with assms one show ?thesis
    by (auto simp: reloadAndAppend_def Let_def simp del: redis_pipe.simps split: prod.splits dest!: redis_pipe_db)
qed

lemma AppendMessages_tables:
  assumes "AppendMessages R cod T S ms w = (r, w')"
  shows "same_tables (w_db w) (w_db w')"
proof -
  obtain q w1 where one: "redis_do R (EXISTS (msgs_key T S)) w = (q, w1)" by fastforce
  then have w1: "w_db w1 = w_db w" by (rule redis_do_db)
  from assms one w1 show ?thesis
    by (auto simp: AppendMessages_def Let_def simp del: redis_pipe.simps
        split: prod.splits sum.splits if_splits dest!: redis_pipe_db dest: reload_tables)
qed

lemma snd_redis_db:
  "w_db (snd (IncrementCognitiveBatch R T S now w)) = w_db w"
  "w_db (snd (ResetCognitiveBatch R T S w)) = w_db w"
  "w_db (snd (XAddCognitiveBatch R T p w)) = w_db w"
  by (auto simp: IncrementCognitiveBatch_def ResetCognitiveBatch_def XAddCognitiveBatch_def Let_def apfst_def
      map_prod_def simp del: redis_pipe.simps split: prod.splits option.splits sum.splits
      dest!: redis_pipe_db redis_do_db)

lemma batch_check_db: "w_db (batch_check R cod n req i now w) = w_db w"
  using snd_redis_db(1) [of R "ar_TenantID req" "ar_SessionID req" now w]
  by (cases "IncrementCognitiveBatch R (ar_TenantID req) (ar_SessionID req) now w")
    (auto simp: batch_check_def Let_def snd_redis_db split: sum.splits)

text \<open>
  The message that was acknowledged is the one row that was added; a request that is not acknowledged
  adds no message.
\<close>

lemma insert_rows:
  assumes "InsertMessage m d = (e, d')"
  shows "db_messages d' = db_messages d @
    (if e = None then [message.extend (m\<lparr>msg_CreatedAt := db_now d\<rparr>) \<lparr>msg_embedding = None\<rparr>] else [])"
proof -
  obtain r1 d1 where one: "pool_exec (\<lambda>d. (Inr (), ensure_session m d)) d = (r1, d1)" by fastforce
  then have d1: "db_messages d1 = db_messages d" "db_now d1 = db_now d"
    by (auto simp: pool_exec_def pool_call_def ensure_session_def split: list.splits option.splits prod.splits)
  obtain r2 d2 where two: "pool_exec (insert_message_row m) d1 = (r2, d2)" by fastforce
  then have d2: "db_messages d2 = db_messages d1 @
      (case r2 of Inl _ \<Rightarrow> [] | Inr _ \<Rightarrow> [message.extend (m\<lparr>msg_CreatedAt := db_now d1\<rparr>) \<lparr>msg_embedding = None\<rparr>])"
    by (auto simp: pool_exec_def pool_call_def insert_message_row_def
        split: list.splits option.splits prod.splits if_splits)
  show ?thesis
    using assms one two d1 d2 by (auto simp: InsertMessage_def split: sum.splits)
qed

lemma append_handler_rows:
  assumes "handleAppendMessages R cod batch new_id now j w = (resp, w')"
  shows "(\<exists>req t u s m. resp = Response 200 (AppendedBody (uuid_String cod new_id)) \<and> bind_append j = Some req \<and>
      ar_Role req \<in> set validRoles \<and> length (ar_Content req) \<le> MaxContentLength \<and>
      uuid_Parse cod (ar_TenantID req) = Some t \<and> uuid_Parse cod (ar_UserID req) = Some u \<and>
      uuid_Parse cod (ar_SessionID req) = Some s \<and> m = new_message req new_id t s u (db_now (w_db w)) \<and>
      db_messages (w_db w') = db_messages (w_db w) @ [message.extend m \<lparr>msg_embedding = None\<rparr>]) \<or>
    status resp \<noteq> 200 \<and> db_messages (w_db w') = db_messages (w_db w)"
proof (cases "status resp = 200")
  case False
  with assms show ?thesis
    by (auto simp: handleAppendMessages_def bad_request_def server_error_def on_db_def Let_def
        split: option.splits if_splits prod.splits dest!: insert_rows)
next
  case True
  with assms obtain req t u s where req: "bind_append j = Some req" "uuid_Parse cod (ar_TenantID req) = Some t"
    "uuid_Parse cod (ar_UserID req) = Some u" "uuid_Parse cod (ar_SessionID req) = Some s"
    "ar_Role req \<in> set validRoles" "length (ar_Content req) \<le> MaxContentLength"
    by (auto simp: handleAppendMessages_def bad_request_def validRoles_def split: option.splits if_splits)
  let ?m = "new_message req new_id t s u now"
  obtain e w1 where one: "on_db (InsertMessage ?m) w = (e, w1)" by fastforce
  have e: "e = None" "resp = Response 200 (AppendedBody (uuid_String cod new_id))"
    "w' = batch_check R cod batch req new_id now (snd (AppendMessages R cod (ar_TenantID req) (ar_SessionID req) [?m] w1))"
    using assms True req one
    by (auto simp: handleAppendMessages_def bad_request_def server_error_def Let_def split: if_splits option.splits)
  have "db_messages (w_db w1) = db_messages (w_db w) @
      [message.extend (?m\<lparr>msg_CreatedAt := db_now (w_db w)\<rparr>) \<lparr>msg_embedding = None\<rparr>]"
    using insert_rows on_db_redis [OF one] e(1) by fastforce
  moreover have "?m\<lparr>msg_CreatedAt := db_now (w_db w)\<rparr> = new_message req new_id t s u (db_now (w_db w))"
    by (simp add: new_message_def)
  moreover have "db_messages (w_db w') = db_messages (w_db w1)"
    using e(3) AppendMessages_tables [of R cod "ar_TenantID req" "ar_SessionID req" "[?m]" w1]
    by (cases "AppendMessages R cod (ar_TenantID req) (ar_SessionID req) [?m] w1")
      (simp add: batch_check_db same_tables_def)
  ultimately show ?thesis using req e(2) by auto
qed

lemma append_handler_ok:
  assumes "bind_append j = Some req" "ar_Role req \<in> set validRoles" "length (ar_Content req) \<le> MaxContentLength"
    "uuid_Parse cod (ar_TenantID req) = Some t" "uuid_Parse cod (ar_UserID req) = Some u"
    "uuid_Parse cod (ar_SessionID req) = Some s"
    "fst (InsertMessage (new_message req new_id t s u now) (w_db w)) = None"
  shows "status (fst (handleAppendMessages R cod batch new_id now j w)) = 200"
  using assms by (auto simp: handleAppendMessages_def validRoles_def on_db_def Let_def split: prod.splits)

section \<open>The batch trigger\<close>

context redis_store
begin

text \<open>
  A user turn either leaves the counter one higher, or, when the counter reaches the configured batch,
  resets it and publishes one batch event; other turns change nothing. No turn is counted twice.
\<close>

lemma batch_check_user:
  assumes rel: "reliable R" and ok: "counters_ok ob w" and user: "ar_Role req = ''user''"
    and inc: "is_ok (fst (IncrementCognitiveBatch R (ar_TenantID req) (ar_SessionID req) now w))"
    and room: "length (obs_stream ob (w_redis w) (ar_TenantID req @ '':stream:cognitive'')) < 10000"
    and w': "w' = batch_check R cod batch req i now w"
  defines "n \<equiv> pending ob (ar_TenantID req) (ar_SessionID req) w + 1"
    and "st \<equiv> \<lambda>w. obs_stream ob (w_redis w) (ar_TenantID req @ '':stream:cognitive'')"
  shows "if n \<ge> batch
    then pending ob (ar_TenantID req) (ar_SessionID req) w' = 0 \<and>
      active_member (ar_TenantID req) (ar_SessionID req) \<notin> snd ` set (active ob w') \<and>
      st w' = st w @ [[(''payload'', Json (batch_payload (ar_TenantID req) (ar_UserID req) (ar_SessionID req) (n * 2)
        (uuid_String cod i))), (''retries'', Text ''0'')]]
    else pending ob (ar_TenantID req) (ar_SessionID req) w' = n \<and>
      active_member (ar_TenantID req) (ar_SessionID req) \<in> snd ` set (active ob w') \<and> st w' = st w"
proof -
  let ?T = "ar_TenantID req" and ?S = "ar_SessionID req"
  obtain k w1 where one: "IncrementCognitiveBatch R ?T ?S now w = (Inr k, w1)"
    using inc by (cases "IncrementCognitiveBatch R ?T ?S now w") (auto simp: is_ok_iff)
  have "unlocked ob (batch_key ?T ?S) w" using ok by (simp add: counters_ok_def)
  note inc1 = increment_ok [OF one this]
  have k: "k = n" using inc1 by (simp add: n_def)
  have w1: "pending ob ?T ?S w1 = n" "st w1 = st w"
    "active_member ?T ?S \<in> snd ` set (active ob w1)"
    using inc1 k by (simp_all add: pending_def st_def same_lists_streams_def zset_mem_add)
  show ?thesis
  proof (cases "n \<ge> batch")
    case False
    then have "w' = w1" using w' one user k by (simp add: batch_check_def)
    with False w1 show ?thesis by simp
  next
    case True
    let ?p = "Json (batch_payload ?T (ar_UserID req) ?S (n * 2) (uuid_String cod i))"
    obtain e2 w2 where two: "ResetCognitiveBatch R ?T ?S w1 = (e2, w2)" by fastforce
    obtain e3 w3 where three: "XAddCognitiveBatch R ?T ?p w2 = (e3, w3)" by fastforce
    have e: "e2 = None" "e3 = None" using reset_reliable [OF rel two] xadd_reliable [OF rel three] by auto
    have "w' = w3" using w' one user k True two three by (simp add: batch_check_def Let_def)
    moreover have r2: "st w2 = st w1" "obs_count ob (w_redis w2) = (obs_count ob (w_redis w1))(batch_key ?T ?S := None)"
      "active ob w2 = zset_rem (active_member ?T ?S) (active ob w1)"
      using reset_ok [OF two [unfolded e(1)]] batch_key_not_stream [of ?T ?S ?T] by (auto simp: st_def)
    moreover have "length (st w2) < 10000" using r2(1) w1(2) room by (simp add: st_def)
    ultimately show ?thesis
      using xadd_batch_ok [OF three [unfolded e(2)]] True w1(2)
      by (auto simp: pending_def st_def zset_mem_rem)
  qed
qed

end

lemma batch_check_other: "ar_Role req \<noteq> ''user'' \<Longrightarrow> 0 < batch \<Longrightarrow> batch_check R cod batch req i now w = w"
  by (simp add: batch_check_def)

section \<open>The first message after the cache entry has expired\<close>

text \<open>
  The handler stores the message before it appends it to the cache; when the cached list is gone, the
  reload already reads the stored message, and the append adds it once more.
\<close>

context cache_store
begin

lemma append_after_insert_duplicates:
  assumes ins: "InsertMessage m (w_db w) = (None, d')" and up: "db_faults (w_db w) = []"
    and later: "\<And>r. r \<in> set (db_messages (w_db w)) \<Longrightarrow> msg_CreatedAt r < db_now (w_db w)"
    and miss: "cached ob (uuid_String cod (msg_TenantID m)) (uuid_String cod (msg_SessionID m)) w = []"
      "\<not> obs_other ob (w_redis w) (msgs_key (uuid_String cod (msg_TenantID m)) (uuid_String cod (msg_SessionID m)))"
    and app: "AppendMessages R cod (uuid_String cod (msg_TenantID m)) (uuid_String cod (msg_SessionID m)) [m]
      (w\<lparr>w_db := d'\<rparr>) = (None, w')"
  shows "take 2 (cached ob (uuid_String cod (msg_TenantID m)) (uuid_String cod (msg_SessionID m)) w') =
    [marshal_message cod m, marshal_message cod (m\<lparr>msg_CreatedAt := db_now (w_db w)\<rparr>)]"
proof -
  let ?T = "uuid_String cod (msg_TenantID m)" and ?S = "uuid_String cod (msg_SessionID m)"
  let ?H = "newest_first (in_session (msg_TenantID m) (msg_SessionID m)) (w_db w)"
  have faults: "db_faults d' = []" using InsertMessage_stored(2) [OF ins up] .
  have "fst (GetSessionHistory cod ?T ?S 50 [] d') =
      Inr (take 50 (newest_first (in_session (msg_TenantID m) (msg_SessionID m)) d'))"
    using history_first_page [OF faults pg_uuid_String pg_uuid_String, of 50] by simp
  then have h: "fst (GetSessionHistory cod ?T ?S 50 [] d') =
      Inr (m\<lparr>msg_CreatedAt := db_now (w_db w)\<rparr> # take 49 ?H)"
    using newest_first_inserted [OF ins up later] by simp
  have "cached ob ?T ?S w' = take 50 (marshal_message cod m #
      marshal_message cod (m\<lparr>msg_CreatedAt := db_now (w_db w)\<rparr>) # map (marshal_message cod) (take 49 ?H))"
    using append_miss [OF app] miss h by (simp add: cached_def)
  then show ?thesis by simp
qed

end

end
