(* ===== verification/Config.thy ===== *)
theory Config
  imports Llm
begin

text \<open>
  The configuration: \<^verbatim>\<open>internal/config/config.go\<close>. The environment (after the optional .env file was
  loaded) is a function from variables to values, empty when unset; the file system answers whether
  a path exists and what a file holds. \<^verbatim>\<open>log.Fatalf\<close> ends the process: it is an error of \<open>load_config\<close>.
\<close>

record Config =
  cf_DatabaseURL :: string
  cf_DBMaxConns :: "32 word"
  cf_RedisAddr :: string
  cf_RedisPool :: int
  cf_ServerPort :: string
  cf_MasterKey :: string
  cf_CognitivePrompt :: string
  cf_CognitiveBatch :: int
  cf_CognitiveConcurrency :: int
  cf_ExperiencePrompt :: string
  cf_DecayIntervalHours :: int
  cf_DecayAfterDays :: int
  cf_RecentMessagesLimit :: int
  cf_LLMProvider :: string

record file_system =
  fs_Stat :: "string \<Rightarrow> bool"
  fs_ReadFile :: "string \<Rightarrow> string res"

definition DefaultServerPort :: string where "DefaultServerPort = '':8080''"
definition DefaultRedisAddr :: string where "DefaultRedisAddr = ''localhost:6379''"
definition DefaultPromptPath :: string where "DefaultPromptPath = ''prompts/cognitive.j2''"
definition AltPromptPath :: string where "AltPromptPath = ''../cortexa/prompts/cognitive.j2''"
definition DefaultExperiencePromptPath :: string where
  "DefaultExperiencePromptPath = ''prompts/experience_extractor.j2''"
definition AltExperiencePromptPath :: string where
  "AltExperiencePromptPath = ''../cortexa/prompts/experience_extractor.j2''"

definition DefaultDBMaxConns :: int where "DefaultDBMaxConns = 100"
definition DefaultRedisPool :: int where "DefaultRedisPool = 100"
definition DefaultDecayIntervalHrs :: int where "DefaultDecayIntervalHrs = 24"
definition DefaultDecayAfterDays :: int where "DefaultDecayAfterDays = 30"
definition DefaultRecentMessagesLimit :: int where "DefaultRecentMessagesLimit = 20"
definition MaxDBMaxConns :: int where "MaxDBMaxConns = 1000"
definition MaxRedisPool :: int where "MaxRedisPool = 1000"
definition MaxRecentMsgsLimit :: int where "MaxRecentMsgsLimit = 200"

definition llm_providers :: "string list" where
  "llm_providers = ['''', ''mock'', ''gemini'', ''openai'', ''azure'']"

text \<open>A positive number, at most \<open>mx\<close> when a maximum is given; anything else leaves the default.\<close>

definition int_setting :: "int option \<Rightarrow> int \<Rightarrow> string \<Rightarrow> int" where
  "int_setting mx dflt val =
     (if val = [] then dflt
      else (case Atoi val of
              None \<Rightarrow> dflt
            | Some n \<Rightarrow> if 0 < n \<and> (case mx of None \<Rightarrow> True | Some m \<Rightarrow> n \<le> m) then n else dflt))"

definition text_setting :: "string \<Rightarrow> string \<Rightarrow> string" where
  "text_setting dflt val = (if val = [] then dflt else val)"

definition server_port :: "string \<Rightarrow> string" where
  "server_port val = (let port = text_setting DefaultServerPort val in
     if port \<noteq> [] \<and> hd port \<noteq> CHR '':'' then CHR '':'' # port else port)"

definition prompt_path :: "file_system \<Rightarrow> string \<Rightarrow> string \<Rightarrow> string \<Rightarrow> string" where
  "prompt_path F dflt alt val =
     (if val \<noteq> [] then val else if fs_Stat F dflt then dflt else if fs_Stat F alt then alt else dflt)"

definition load_config :: "(string \<Rightarrow> string) \<Rightarrow> file_system \<Rightarrow> Config res" where
  "load_config env F =
     (if env ''DATABASE_URL'' = [] then Inl (Err ''DATABASE_URL environment variable is required'')
      else if env ''MASTER_KEY'' = [] then Inl (Err ''MASTER_KEY environment variable is required'')
      else (case fs_ReadFile F (prompt_path F DefaultPromptPath AltPromptPath (env ''COGNITIVE_PROMPT_PATH'')) of
        Inl e \<Rightarrow> Inl (Wrapped ''Failed to load cognitive prompt'' e)
      | Inr cognitive \<Rightarrow>
          (case fs_ReadFile F (prompt_path F DefaultExperiencePromptPath AltExperiencePromptPath
                  (env ''EXPERIENCE_PROMPT_PATH'')) of
             Inl e \<Rightarrow> Inl (Wrapped ''Failed to load experience prompt'' e)
           | Inr experience \<Rightarrow>
               if env ''LLM_PROVIDER'' \<notin> set llm_providers then Inl (Err ''LLM_PROVIDER is invalid'')
               else Inr
                 \<lparr>cf_DatabaseURL = env ''DATABASE_URL'',
                  cf_DBMaxConns = word_of_int (int_setting (Some MaxDBMaxConns) DefaultDBMaxConns (env ''DB_MAX_CONNS'')),
                  cf_RedisAddr = text_setting DefaultRedisAddr (env ''REDIS_ADDR''),
                  cf_RedisPool = int_setting (Some MaxRedisPool) DefaultRedisPool (env ''REDIS_POOL_SIZE''),
                  cf_ServerPort = server_port (env ''PORT''),
                  cf_MasterKey = env ''MASTER_KEY'',
                  cf_CognitivePrompt = cognitive,
                  cf_CognitiveBatch = int_setting None 10 (env ''COGNITIVE_BATCH_SIZE''),
                  cf_CognitiveConcurrency = int_setting None 5 (env ''COGNITIVE_CONCURRENCY''),
                  cf_ExperiencePrompt = experience,
                  cf_DecayIntervalHours = int_setting None DefaultDecayIntervalHrs (env ''DECAY_INTERVAL_HOURS''),
                  cf_DecayAfterDays = int_setting None DefaultDecayAfterDays (env ''DECAY_AFTER_DAYS''),
                  cf_RecentMessagesLimit =
                    int_setting (Some MaxRecentMsgsLimit) DefaultRecentMessagesLimit (env ''RECENT_MESSAGES_LIMIT''),
                  cf_LLMProvider = env ''LLM_PROVIDER''\<rparr>)))"

section \<open>What a loaded configuration guarantees\<close>

definition config_ok :: "Config \<Rightarrow> bool" where
  "config_ok c \<longleftrightarrow> cf_DatabaseURL c \<noteq> [] \<and> cf_MasterKey c \<noteq> [] \<and>
     1 \<le> sint (cf_DBMaxConns c) \<and> sint (cf_DBMaxConns c) \<le> 1000 \<and>
     1 \<le> cf_RedisPool c \<and> cf_RedisPool c \<le> 1000 \<and> cf_RedisAddr c \<noteq> [] \<and>
     (\<exists>p. cf_ServerPort c = CHR '':'' # p) \<and>
     1 \<le> cf_CognitiveBatch c \<and> 1 \<le> cf_CognitiveConcurrency c \<and>
     1 \<le> cf_DecayIntervalHours c \<and> 1 \<le> cf_DecayAfterDays c \<and>
     1 \<le> cf_RecentMessagesLimit c \<and> cf_RecentMessagesLimit c \<le> 200 \<and>
     cf_LLMProvider c \<in> set llm_providers"

lemma int_setting_bounds:
  "1 \<le> dflt \<Longrightarrow> 1 \<le> int_setting mx dflt val"
  "1 \<le> dflt \<Longrightarrow> dflt \<le> m \<Longrightarrow> int_setting (Some m) dflt val \<le> m"
  by (auto simp: int_setting_def split: option.splits)

lemma sint_word_small: "0 \<le> n \<Longrightarrow> n < 2 ^ 31 \<Longrightarrow> sint (word_of_int n :: 32 word) = n"
  by (simp add: signed_take_bit_int_eq_self sint_uint uint_word_of_int take_bit_int_eq_self)

lemma text_setting_nonempty: "dflt \<noteq> [] \<Longrightarrow> text_setting dflt val \<noteq> []"
  by (simp add: text_setting_def)

lemma server_port_colon: "\<exists>p. server_port val = CHR '':'' # p"
  using text_setting_nonempty [of DefaultServerPort val]
  by (cases "text_setting DefaultServerPort val") (auto simp: server_port_def DefaultServerPort_def Let_def)

lemma load_config_ok:
  assumes "load_config env F = Inr c"
  shows "config_ok c"
proof -
  define n where "n = int_setting (Some MaxDBMaxConns) DefaultDBMaxConns (env ''DB_MAX_CONNS'')"
  have n: "1 \<le> n" "n \<le> 1000"
    using int_setting_bounds(2) [of DefaultDBMaxConns MaxDBMaxConns "env ''DB_MAX_CONNS''"]
    by (simp_all add: n_def int_setting_bounds DefaultDBMaxConns_def MaxDBMaxConns_def)
  then have w: "sint (word_of_int n :: 32 word) = n" by (simp add: sint_word_small)
  show ?thesis
    using assms n
    by (auto simp: load_config_def config_ok_def w n_def [symmetric] server_port_colon text_setting_nonempty
        int_setting_bounds DefaultRedisAddr_def DefaultRedisPool_def MaxRedisPool_def DefaultDecayIntervalHrs_def
        DefaultDecayAfterDays_def DefaultRecentMessagesLimit_def MaxRecentMsgsLimit_def split: sum.splits if_splits)
qed

text \<open>
  The two readers of LLM_PROVIDER disagree: the client constructor folds case and trims, the
  configuration does not.
\<close>

lemma provider_spelling:
  assumes "env ''LLM_PROVIDER'' = ''OpenAI''" "env ''OPENAI_API_KEY'' \<noteq> []"
  shows "NewClient tab env = Inr (OpenAI (env ''OPENAI_API_KEY''))" "\<not> is_ok (load_config env F)"
proof -
  have "TrimSpace ''OpenAI'' = ''OpenAI''" by code_simp
  moreover have "ToLower tab ''OpenAI'' = ''openai''"
  proof -
    have "runes ''OpenAI'' = [79, 112, 101, 110, 65, 73]" by code_simp
    moreover have "runes ''openai'' = [111, 112, 101, 110, 97, 105]" by code_simp
    moreover have "ascii ''openai''" by code_simp
    then have "utf8 (runes ''openai'') = ''openai''" using coerce_utf8_ascii by (simp only: coerce_utf8_def)
    ultimately show ?thesis by (simp add: ToLower_def lower_rune_def)
  qed
  ultimately show "NewClient tab env = Inr (OpenAI (env ''OPENAI_API_KEY''))"
    using assms by (simp add: NewClient_def)
  show "\<not> is_ok (load_config env F)"
    using assms(1) by (auto simp: load_config_def llm_providers_def is_ok_def split: sum.splits)
qed

end
