(* ===== verification/Server.thy ===== *)
theory Server
  imports Api Config
begin

text \<open>
  The REST server (\<^verbatim>\<open>internal/api/rest.go\<close>): the table of routes and the dispatch of a request to its
  handler, with the names of the path and query parameters that each handler reads. Matching a path
  against a pattern is the router's (gin): a request comes with the endpoint it was routed to.
\<close>

datatype endpoint =
    HealthEP | MetricsEP | ContextEP | FormattedEP | MessagesEP | FeedbackEP | HistoryEP | CreateSessionEP
  | ListSessionsEP | DeleteSessionEP | ListExperiencesEP | ExperienceFeedbackEP | DeleteExperienceEP

definition routes :: "(string \<times> string \<times> endpoint) list" where
  "routes =
     [(''GET'', ''/health'', HealthEP), (''GET'', ''/metrics'', MetricsEP),
      (''POST'', ''/v1/context'', ContextEP), (''POST'', ''/v1/context/formatted'', FormattedEP),
      (''POST'', ''/v1/messages'', MessagesEP), (''POST'', ''/v1/feedback'', FeedbackEP),
      (''GET'', ''/v1/sessions/:session_id/messages'', HistoryEP), (''POST'', ''/v1/sessions'', CreateSessionEP),
      (''GET'', ''/v1/sessions'', ListSessionsEP), (''DELETE'', ''/v1/sessions/:session_id'', DeleteSessionEP),
      (''GET'', ''/v1/experiences'', ListExperiencesEP),
      (''POST'', ''/v1/experiences/:experience_id/feedback'', ExperienceFeedbackEP),
      (''DELETE'', ''/v1/experiences/:experience_id'', DeleteExperienceEP)]"

text \<open>What a handler sees of a request: path and query parameters, empty when absent, and the parsed body.\<close>

record routed_request =
  rq_Param :: "string \<Rightarrow> string"
  rq_Query :: "string \<Rightarrow> string"
  rq_Body :: "json option"

text \<open>The server's collaborators, the settings it reads, and the identifier and time a handler draws.\<close>

record server_env =
  sv_cod :: codec
  sv_case :: "nat \<Rightarrow> nat"
  sv_config :: Config
  sv_backend :: "GetContextRequest \<Rightarrow> backend"
  sv_metrics :: response
  sv_new_id :: uuid
  sv_now :: time

definition handleHealth :: response where
  "handleHealth = Response 200 (StatusBody ''ok'')"

definition serve ::
  "'r redis \<Rightarrow> server_env \<Rightarrow> endpoint \<Rightarrow> routed_request \<Rightarrow> 'r world \<Rightarrow> response \<times> 'r world" where
  "serve R E ep rq w =
     (let cod = sv_cod E; param = rq_Param rq; query = rq_Query rq; body = rq_Body rq in
      case ep of
        HealthEP \<Rightarrow> (handleHealth, w)
      | MetricsEP \<Rightarrow> (sv_metrics E, w)
      | ContextEP \<Rightarrow> handleGetContext R cod (sv_case E) (cf_RecentMessagesLimit (sv_config E)) (sv_backend E) body w
      | FormattedEP \<Rightarrow>
          handleGetContextFormatted R cod (sv_case E) (cf_RecentMessagesLimit (sv_config E)) (sv_backend E) body w
      | MessagesEP \<Rightarrow>
          handleAppendMessages R cod (cf_CognitiveBatch (sv_config E)) (sv_new_id E) (sv_now E) body w
      | FeedbackEP \<Rightarrow> on_db (handleFeedback cod body) w
      | HistoryEP \<Rightarrow>
          on_db (handleGetSessionHistory cod (param ''session_id'') (query ''tenant_id'') (query ''limit'')
            (query ''before_id'')) w
      | CreateSessionEP \<Rightarrow> handleCreateSession R cod (sv_new_id E) body w
      | ListSessionsEP \<Rightarrow>
          on_db (handleListSessions cod (query ''tenant_id'') (query ''user_id'') (query ''limit'') (query ''offset'')) w
      | DeleteSessionEP \<Rightarrow> on_db (handleDeleteSession cod (param ''session_id'') (query ''tenant_id'')) w
      | ListExperiencesEP \<Rightarrow> on_db (handleListExperiences cod (query ''tenant_id'') (query ''user_id'')) w
      | ExperienceFeedbackEP \<Rightarrow> on_db (handleExperienceFeedback cod (param ''experience_id'') body) w
      | DeleteExperienceEP \<Rightarrow>
          on_db (handleDeleteExperience cod (param ''experience_id'') (query ''tenant_id'') (query ''user_id'')) w)"

text \<open>Every pattern under a method leads to one endpoint, and every endpoint is reachable.\<close>

lemma routes_complete:
  "distinct (map (\<lambda>(m, p, _). (m, p)) routes)" "(\<exists>m p. (m, p, ep) \<in> set routes)"
proof -
  show "distinct (map (\<lambda>(m, p, _). (m, p)) routes)" by code_simp
  show "\<exists>m p. (m, p, ep) \<in> set routes" by (cases ep) (auto simp: routes_def)
qed

end
