(* ===== verification/CognitiveStream.thy ===== *)
theory CognitiveStream
  imports Cognitive StreamFetch
begin

text \<open>
  The cognitive worker on its streams (\<^verbatim>\<open>handleStreamMessage\<close>, \<^verbatim>\<open>Subscribe\<close> and
  \<^verbatim>\<open>reclaimPending\<close> of \<^verbatim>\<open>internal/worker/cognitive.go\<close>): its settings, the handling of one entry and
  the worker it makes.
\<close>

definition cognitiveConsumerGroup :: string where "cognitiveConsumerGroup = ''workers''"
definition cognitiveConsumerName :: string where "cognitiveConsumerName = ''cognitive-worker''"
definition cognitiveMaxRetries :: int where "cognitiveMaxRetries = 8"
definition cognitiveRetryIdleTime :: time where "cognitiveRetryIdleTime = 120 * second"

text \<open>
  One entry: processed, then acknowledged; put into the dead-letter queue and acknowledged when the
  error is not worth a retry or the attempts are used up; else left pending. The errors of the
  commands that do this are ignored, so an entry that the dead-letter queue refuses is acknowledged all
  the same (\<open>Dropped\<close>). A panic is not recovered and ends the process.
\<close>

definition dead_letter :: "bulk \<Rightarrow> int \<Rightarrow> err \<Rightarrow> entry" where
  "dead_letter payload retries e =
     [(''payload'', payload), (''retries'', Text (Itoa (retries + 1))), (''error'', Text (error_text e))]"

definition handleStreamMessage ::
  "cog_env \<Rightarrow> 'r redis \<Rightarrow> 'r groups \<Rightarrow> string \<Rightarrow> string \<Rightarrow> bulk \<Rightarrow> int \<Rightarrow> 'r world \<Rightarrow> outcome \<times> 'r world" where
  "handleStreamMessage E R G stream msgID payload retries w =
     (let tenantPrefix = before cognitiveStreamSuffix stream;
          (r, w1) = processBatchPayload E R payload w
      in case r of
           None \<Rightarrow> (Acked, snd (group_do G (XACK stream cognitiveConsumerGroup [msgID]) w1))
         | Some e \<Rightarrow>
             if is_panic e then (Crashed, w1)
             else if isUnrecoverable e \<or> retries + 1 \<ge> cognitiveMaxRetries
             then (let (x, w2) = redis_do R (XADD (tenantPrefix @ cognitiveDLQSuffix) 1000
                                   (dead_letter payload retries e)) w1
                   in (if is_ok x then Dead else Dropped,
                       snd (group_do G (XACK stream cognitiveConsumerGroup [msgID]) w2)))
             else (Failed, w1))"

definition cognitive_policy :: policy where
  "cognitive_policy = \<lparr>pl_group = cognitiveConsumerGroup, pl_consumer = cognitiveConsumerName,
     pl_idle = cognitiveRetryIdleTime, pl_keep_cursor = True, pl_guard = True, pl_skip = (\<lambda>_. False)\<rparr>"

definition cognitive_handler :: "'r redis \<Rightarrow> 'r groups \<Rightarrow> 'r handler" where
  "cognitive_handler R G stream msgID payload retries w res \<longleftrightarrow>
     (\<exists>E. res = handleStreamMessage E R G stream msgID payload retries w)"

text \<open>What becomes of a dead letter: it is in the stream of dead letters, or the server refused it.\<close>

definition letter_added :: "('r, 'z) group_observers_scheme \<Rightarrow> string \<Rightarrow> entry \<Rightarrow> 'r \<Rightarrow> 'r \<Rightarrow> bool" where
  "letter_added ob stream letter st st' \<longleftrightarrow>
     (let q = before cognitiveStreamSuffix stream @ cognitiveDLQSuffix
      in \<exists>j. obs_entry ob st q j = None \<and> obs_entry ob st' q j = Some letter)"

definition letter_refused :: "'r redis \<Rightarrow> string \<Rightarrow> entry \<Rightarrow> 'r world \<Rightarrow> bool" where
  "letter_refused R stream letter w \<longleftrightarrow>
     \<not> is_ok (fst (redis_do R (XADD (before cognitiveStreamSuffix stream @ cognitiveDLQSuffix) 1000 letter) w))"

section \<open>The handler's effect on the server\<close>

context stream_server
begin

lemma processBatch_quiet:
  assumes "processBatchPayload E R payload w = (r, w')"
  shows "quiet ob (w_redis w) (w_redis w')"
proof -
  have "quiet ob (w_redis w) (w_redis w')" if b: "parse_batch payload = Inr b" for b
  proof -
    obtain f w1 where f: "fetch_window R (ce_cod E) b (bi_BatchSize b) w = (f, w1)" by fastforce
    have "w_redis w' = w_redis w1"
      using assms b f by (auto simp: processBatchPayload_def split: sum.splits list.splits dest: on_db_redis)
    then show ?thesis using fetch_window_quiet [OF f] by simp
  qed
  moreover have "w' = w" if "parse_batch payload = Inl e" for e
    using assms that by (simp add: processBatchPayload_def)
  ultimately show ?thesis by (cases "parse_batch payload") auto
qed

lemma handle_cases:
  assumes "handleStreamMessage E R G stream i payload retries w = (oc, w')"
  obtains (acked) w1 where "oc = Acked" "processBatchPayload E R payload w = (None, w1)"
      "w' = snd (group_do G (XACK stream cognitiveConsumerGroup [i]) w1)"
  | (crashed) e where "oc = Crashed" "processBatchPayload E R payload w = (Some e, w')" "is_panic e"
  | (dead) e w1 x w2 where "oc = (if is_ok x then Dead else Dropped)" "processBatchPayload E R payload w = (Some e, w1)"
      "\<not> is_panic e" "isUnrecoverable e \<or> retries + 1 \<ge> cognitiveMaxRetries"
      "redis_do R (XADD (before cognitiveStreamSuffix stream @ cognitiveDLQSuffix) 1000 (dead_letter payload retries e)) w1 = (x, w2)"
      "w' = snd (group_do G (XACK stream cognitiveConsumerGroup [i]) w2)"
  | (failed) e where "oc = Failed" "processBatchPayload E R payload w = (Some e, w')" "\<not> is_panic e"
      "\<not> isUnrecoverable e" "retries + 1 < cognitiveMaxRetries"
  using assms by (fastforce simp: handleStreamMessage_def Let_def split: prod.splits option.splits if_splits)

lemma cognitive_handle_ok:
  assumes "cognitive_handler R G s i p r w (oc, w')"
  shows "if oc \<in> {Acked, Dead, Dropped} then settled ob s cognitiveConsumerGroup {i} (w_redis w) (w_redis w')
    else quiet ob (w_redis w) (w_redis w')"
proof -
  obtain E where "handleStreamMessage E R G s i p r w = (oc, w')" using assms by (auto simp: cognitive_handler_def)
  then show ?thesis
  proof (cases rule: handle_cases)
    case (acked w1)
    have "settled ob s cognitiveConsumerGroup {i} (w_redis w1) (w_redis w')"
      using do_ack [OF prod.collapse [symmetric], of s cognitiveConsumerGroup "[i]" w1] acked(3) by simp
    with acked processBatch_quiet [OF acked(2)] show ?thesis by (simp add: settled_quiet(2))
  next
    case (dead e w1 x w2)
    have "quiet ob (w_redis w1) (w_redis w2)" by (rule do_quiet [OF dead(5)]) simp
    then have "quiet ob (w_redis w) (w_redis w2)"
      using quiet_trans [OF processBatch_quiet [OF dead(2)]] by blast
    moreover have "settled ob s cognitiveConsumerGroup {i} (w_redis w2) (w_redis w')"
      using do_ack [OF prod.collapse [symmetric], of s cognitiveConsumerGroup "[i]" w2] dead(6) by simp
    ultimately show ?thesis using dead(1) by (simp add: settled_quiet(2))
  qed (auto dest: processBatch_quiet)
qed

text \<open>The dead letter is in its stream when the handler is done, unless the server refused it.\<close>

lemma dead_letter_written:
  assumes "handleStreamMessage E R G stream i payload retries w = (oc, w')" "oc \<in> {Dead, Dropped}"
  obtains e w1 where "processBatchPayload E R payload w = (Some e, w1)" "isUnrecoverable e \<or> retries + 1 \<ge> cognitiveMaxRetries"
    "oc = Dead \<Longrightarrow> letter_added ob stream (dead_letter payload retries e) (w_redis w1) (w_redis w')"
    "oc = Dropped \<Longrightarrow> letter_refused R stream (dead_letter payload retries e) w1"
  using assms(1)
proof (cases rule: handle_cases)
  case (dead e w1 x w2)
  let ?q = "before cognitiveStreamSuffix stream @ cognitiveDLQSuffix"
  have "letter_added ob stream (dead_letter payload retries e) (w_redis w1) (w_redis w')" if "is_ok x"
  proof -
    from that obtain y where y: "x = Inr y" by (auto simp: is_ok_iff)
    have "R (XADD ?q 1000 (dead_letter payload retries e)) (w_redis w1) = (Inr y, w_redis w2)"
      using dead(5) y by (auto simp: redis_do_def split: prod.splits)
    moreover obtain z st where z: "G (XACK stream cognitiveConsumerGroup [i]) (w_redis w2) = (z, st)" by fastforce
    then have "w_redis w' = st" using dead(6) by (simp add: group_do_def)
    ultimately show ?thesis
      using xadd_entry ack_entries [OF z] unfolding letter_added_def by fastforce
  qed
  with dead show ?thesis by (intro that [of e w1]) (auto simp: letter_refused_def split: if_splits)
qed (use assms(2) in auto)

end

sublocale stream_server \<subseteq> cognitive:
  stream_worker G ob cognitive_policy "cognitive_handler R G" conc "\<lambda>oc. oc = Failed" 8
    "quiet_in ob cognitiveConsumerGroup" for conc
proof
  show "if oc \<in> {Acked, Dead, Dropped} then settled ob s (pl_group cognitive_policy) {i} (w_redis w) (w_redis w')
      else quiet ob (w_redis w) (w_redis w')"
    if "cognitive_handler R G s i p r w (oc, w')" for s i p r w oc w'
    using cognitive_handle_ok [OF that] by (simp add: cognitive_policy_def)
  show "r + 2 \<le> int 8" if h: "cognitive_handler R G s i p r w (oc, w')" "oc = Failed" for s i p r w oc w'
  proof -
    obtain E where "handleStreamMessage E R G s i p r w = (Failed, w')"
      using h by (auto simp: cognitive_handler_def)
    then show ?thesis by (cases rule: handle_cases) (simp_all add: cognitiveMaxRetries_def split: if_splits)
  qed
qed (simp_all add: cognitive_policy_def)

end
