(* ===== verification/WorkerProcess.thy ===== *)
theory WorkerProcess
  imports CognitiveStream ExperienceWorker Config
begin

text \<open>
  The worker process (\<^verbatim>\<open>cmd/worker/main.go\<close>): the cognitive and the experience worker read the same
  streams with consumer groups of their own, side by side on one server and one database. Each is the
  other's environment; a process that dies may take both along. The decay worker and the flusher of
  the process, and the API server, are steps of the surroundings, which touch no group.
\<close>

section \<open>The settings of the entry point\<close>

definition worker_concurrency :: "Config \<Rightarrow> nat" where
  "worker_concurrency cfg = nat (cf_CognitiveConcurrency cfg)"

definition main_decay_worker :: "Config \<Rightarrow> DecayWorker" where
  "main_decay_worker cfg = \<lparr>dw_rate = 5 / 100, dw_ageDays = cf_DecayAfterDays cfg\<rparr>"

definition main_flush_age :: time where
  "main_flush_age = 30 * 60 * second"

section \<open>Two workers on one server\<close>

type_synonym 'r worker_process = "'r stream_worker \<times> 'r stream_worker"

inductive process_step ::
  "'r redis \<Rightarrow> 'r groups \<Rightarrow> ('r \<Rightarrow> 'r \<Rightarrow> bool) \<Rightarrow> nat \<Rightarrow> 'r worker_process \<Rightarrow> 'r worker_process \<Rightarrow> bool"
  for R :: "'r redis" and G :: "'r groups" and others :: "'r \<Rightarrow> 'r \<Rightarrow> bool" and conc :: nat where
  cognitive_step: "worker_step cognitive_policy (cognitive_handler R G) G others conc c c' \<Longrightarrow>
    e' \<in> {e\<lparr>sw_world := sw_world c'\<rparr>, restarted (sw_world c') e} \<Longrightarrow> process_step R G others conc (c, e) (c', e')"
| experience_step: "worker_step experience_policy (experience_handler R G) G others conc e e' \<Longrightarrow>
    c' \<in> {c\<lparr>sw_world := sw_world e'\<rparr>, restarted (sw_world e') c} \<Longrightarrow> process_step R G others conc (c, e) (c', e')"

definition process_reachable ::
  "'r redis \<Rightarrow> 'r groups \<Rightarrow> ('r \<Rightarrow> 'r \<Rightarrow> bool) \<Rightarrow> nat \<Rightarrow> 'r world \<Rightarrow> 'r worker_process \<Rightarrow> bool" where
  "process_reachable R G others conc w s \<longleftrightarrow> (process_step R G others conc)\<^sup>*\<^sup>* (started w, started w) s"

lemma process_groups_differ:
  "experienceConsumerGroup \<noteq> pl_group cognitive_policy" "cognitiveConsumerGroup \<noteq> pl_group experience_policy"
  by (simp_all add: experience_policy_def cognitive_policy_def experienceConsumerGroup_def cognitiveConsumerGroup_def)

text \<open>A worker whose surroundings moved on, alive or started anew.\<close>

lemma outside_or_restart:
  assumes "reachable P H G others conc w0 s" "others (w_redis (sw_world s)) (w_redis w)"
    and "s' \<in> {s\<lparr>sw_world := w\<rparr>, restarted w s}"
  shows "reachable P H G others conc w0 s'"
proof -
  let ?step = "worker_step P H G others conc"
  have one: "?step s (s\<lparr>sw_world := w\<rparr>)" using assms(2) by (rule worker_step.outside)
  have two: "?step (s\<lparr>sw_world := w\<rparr>) (restarted w s)"
    using worker_step.crash [of P H G others conc "s\<lparr>sw_world := w\<rparr>"] by (simp add: restarted_def)
  have "?step\<^sup>*\<^sup>* (started w0) (s\<lparr>sw_world := w\<rparr>)"
    using assms(1) one unfolding reachable_def by (rule rtranclp.rtrancl_into_rtrancl)
  with two assms(3) show ?thesis
    unfolding reachable_def by (auto intro: rtranclp.rtrancl_into_rtrancl)
qed

lemma own_step:
  "reachable P H G others' conc w0 s \<Longrightarrow> worker_step P H G others conc s s' \<Longrightarrow>
     (\<And>a b. others a b \<Longrightarrow> others' a b) \<Longrightarrow> reachable P H G others' conc w0 s'"
  unfolding reachable_def by (blast intro: rtranclp.rtrancl_into_rtrancl worker_step_mono)

section \<open>What the log of a process says\<close>

text \<open>
  An entry was settled by the cognitive worker: in a state of the process, a running goroutine handled
  that delivery of the entry; it was acknowledged because it was processed without an error, or its
  processing failed and its dead letter is in the stream of dead letters, or the server refused the letter.
\<close>

definition cognitive_settled ::
  "'r redis \<Rightarrow> 'r groups \<Rightarrow> ('r, 'z) group_observers_scheme \<Rightarrow> ('r worker_process \<Rightarrow> bool) \<Rightarrow>
     string \<Rightarrow> string \<Rightarrow> nat \<Rightarrow> outcome \<Rightarrow> bool" where
  "cognitive_settled R G ob reached stream i d oc \<longleftrightarrow>
     (\<exists>c e t E x w1 w'. reached (c, e) \<and> t \<in> set (sw_running c) \<and>
        tk_stream t = stream \<and> tk_id t = i \<and> tk_delivery t = d \<and>
        handleStreamMessage E R G stream i (tk_payload t) (tk_retries t) (sw_world c) = (oc, w') \<and>
        processBatchPayload E R (tk_payload t) (sw_world c) = (x, w1) \<and>
        (case oc of
           Acked \<Rightarrow> x = None
         | Dead \<Rightarrow> (\<exists>er. x = Some er \<and>
             letter_added ob stream (dead_letter (tk_payload t) (tk_retries t) er) (w_redis w1) (w_redis w'))
         | Dropped \<Rightarrow> (\<exists>er. x = Some er \<and>
             letter_refused R stream (dead_letter (tk_payload t) (tk_retries t) er) w1)
         | _ \<Rightarrow> False))"

text \<open>
  An entry was settled by the experience worker: processed without an error, or given up when the server
  reported more than three deliveries of it.
\<close>

definition experience_processed ::
  "'r redis \<Rightarrow> ('r worker_process \<Rightarrow> bool) \<Rightarrow> string \<Rightarrow> string \<Rightarrow> nat \<Rightarrow> bool" where
  "experience_processed R reached stream i d \<longleftrightarrow>
     (\<exists>c e t E n n' w1. reached (c, e) \<and> t \<in> set (sw_running e) \<and>
        tk_stream t = stream \<and> tk_id t = i \<and> tk_delivery t = d \<and>
        processPayload E R n (tk_payload t) (sw_world e) = (None, n', w1))"

definition experience_given_up :: "('r worker_process \<Rightarrow> bool) \<Rightarrow> string \<Rightarrow> string \<Rightarrow> bool" where
  "experience_given_up reached stream i \<longleftrightarrow>
     (\<exists>c e k ps ss. reached (c, e) \<and> sw_reclaim e = RPend stream ((i, k) # ps) ss \<and> 3 < k)"

context stream_server
begin

abbreviation cognitive_run :: "nat \<Rightarrow> 'r world \<Rightarrow> 'r stream_worker \<Rightarrow> bool" where
  "cognitive_run \<equiv> reachable cognitive_policy (cognitive_handler R G) G (quiet_in ob cognitiveConsumerGroup)"

abbreviation experience_run :: "nat \<Rightarrow> 'r world \<Rightarrow> 'r stream_worker \<Rightarrow> bool" where
  "experience_run \<equiv> reachable experience_policy (experience_handler R G) G (quiet_in ob experienceConsumerGroup)"

text \<open>Seen from either worker, a step of the process is its own or one of its surroundings.\<close>

lemma process_step_projects:
  assumes "process_step R G (quiet ob) conc (c, e) (c', e')"
    and runs: "cognitive_run conc w c" "experience_run conc w e" "sw_world c = sw_world e"
  shows "cognitive_run conc w c' \<and> experience_run conc w e' \<and> sw_world c' = sw_world e'"
  using assms(1)
proof cases
  case cognitive_step
  have "quiet_in ob experienceConsumerGroup (w_redis (sw_world c)) (w_redis (sw_world c'))"
    by (rule cognitive.step_elsewhere [OF cognitive_step(1) process_groups_differ(1)]) (rule quiet_in_intros(1))
  then have "experience_run conc w e'"
    by (intro outside_or_restart [OF runs(2) _ cognitive_step(2)]) (simp add: runs(3))
  moreover have "cognitive_run conc w c'"
    by (rule own_step [OF runs(1) cognitive_step(1)]) (rule quiet_in_intros(1))
  moreover have "sw_world c' = sw_world e'" using cognitive_step(2) by (auto simp: restarted_def started_def)
  ultimately show ?thesis by blast
next
  case experience_step
  have "quiet_in ob cognitiveConsumerGroup (w_redis (sw_world e)) (w_redis (sw_world e'))"
    by (rule experience.step_elsewhere [OF experience_step(1) process_groups_differ(2)]) (rule quiet_in_intros(1))
  then have "cognitive_run conc w c'"
    by (intro outside_or_restart [OF runs(1) _ experience_step(2)]) (simp add: runs(3))
  moreover have "experience_run conc w e'"
    by (rule own_step [OF runs(2) experience_step(1)]) (rule quiet_in_intros(1))
  moreover have "sw_world c' = sw_world e'" using experience_step(2) by (auto simp: restarted_def started_def)
  ultimately show ?thesis by blast
qed

lemma process_projects:
  assumes "process_reachable R G (quiet ob) conc w (c, e)"
  shows "cognitive_run conc w c \<and> experience_run conc w e \<and> sw_world c = sw_world e"
proof -
  have "cognitive_run conc w (fst s) \<and> experience_run conc w (snd s) \<and> sw_world (fst s) = sw_world (snd s)"
    if "(process_step R G (quiet ob) conc)\<^sup>*\<^sup>* (started w, started w) s" for s
    using that
  proof (induction rule: rtranclp_induct)
    case base
    then show ?case by (simp add: reachable_def)
  next
    case (step s s')
    then show ?case
      using process_step_projects [of conc "fst s" "snd s" "fst s'" "snd s'" w] by simp
  qed
  from this [of "(c, e)"] assms show ?thesis by (simp add: process_reachable_def)
qed

text \<open>The log of a reachable process consists of such runs.\<close>

lemma cognitive_handler_settles:
  assumes "cognitive_handler R G (tk_stream t) (tk_id t) (tk_payload t) (tk_retries t) (sw_world c) (oc, w')"
    and "oc \<in> {Acked, Dead, Dropped}" "reached (c, e)" "t \<in> set (sw_running c)"
  shows "cognitive_settled R G ob reached (tk_stream t) (tk_id t) (tk_delivery t) oc"
proof -
  obtain E where h: "handleStreamMessage E R G (tk_stream t) (tk_id t) (tk_payload t) (tk_retries t) (sw_world c) = (oc, w')"
    using assms(1) by (auto simp: cognitive_handler_def)
  obtain x w1 where x: "processBatchPayload E R (tk_payload t) (sw_world c) = (x, w1)" by fastforce
  have "case oc of Acked \<Rightarrow> x = None
      | Dead \<Rightarrow> (\<exists>er. x = Some er \<and>
          letter_added ob (tk_stream t) (dead_letter (tk_payload t) (tk_retries t) er) (w_redis w1) (w_redis w'))
      | Dropped \<Rightarrow> (\<exists>er. x = Some er \<and> letter_refused R (tk_stream t) (dead_letter (tk_payload t) (tk_retries t) er) w1)
      | _ \<Rightarrow> False"
  proof (cases "oc = Acked")
    case True
    with h x show ?thesis by (cases rule: handle_cases) (auto split: if_splits)
  next
    case False
    then have "oc \<in> {Dead, Dropped}" using assms(2) by blast
    with h show ?thesis by (rule dead_letter_written) (use x \<open>oc \<in> {Dead, Dropped}\<close> in auto)
  qed
  with h x assms(3,4) show ?thesis unfolding cognitive_settled_def by blast
qed

lemma cognitive_log:
  assumes "(process_step R G others conc)\<^sup>*\<^sup>* (started w, started w) s"
    and "(k, i, d, oc) \<in> set (sw_log (fst s))" "oc \<in> {Acked, Dead, Dropped}"
  shows "cognitive_settled R G ob (process_reachable R G others conc w) k i d oc"
  using assms(1,2)
proof (induction rule: rtranclp_induct)
  case (step s s')
  from step.hyps(1) have here: "process_reachable R G others conc w (fst s, snd s)" by (simp add: process_reachable_def)
  from step.hyps(2) show ?case
  proof cases
    case (cognitive_step c c' e' e)
    from step_log [OF cognitive_step(3)] show ?thesis
    proof (elim disjE exE conjE)
      fix t r w1
      assume run: "t \<in> set (sw_running c)" "sw_log c' = sw_log c @ [(tk_stream t, tk_id t, tk_delivery t, r)]"
        "cognitive_handler R G (tk_stream t) (tk_id t) (tk_payload t) (tk_retries t) (sw_world c) (r, w1)"
      then show ?thesis
        using step.prems step.IH cognitive_step(1,2) here assms(3) cognitive_handler_settles [OF run(3) _ _ run(1)]
        by auto
    qed (use step.prems step.IH cognitive_step in auto)
  next
    case (experience_step e e' c' c)
    then show ?thesis using step.prems step.IH by (auto simp: restarted_def started_def)
  qed
qed (simp add: started_def)

end

lemma experience_handler_settles:
  assumes "experience_handler R G (tk_stream t) (tk_id t) (tk_payload t) (tk_retries t) (sw_world e) (oc, w')"
    and "oc \<in> {Acked, Dead, Dropped}" "reached (c, e)" "t \<in> set (sw_running e)"
  shows "oc = Acked \<and> experience_processed R reached (tk_stream t) (tk_id t) (tk_delivery t)"
proof -
  obtain E n n' where h: "experience_handle E R G n (tk_stream t) (tk_id t) (tk_payload t) (sw_world e) = (oc, n', w')"
    using assms(1) by (auto simp: experience_handler_def)
  obtain x m w1 where x: "processPayload E R n (tk_payload t) (sw_world e) = (x, m, w1)" by (metis prod_cases3)
  with h assms(2) have "x = None" "oc = Acked" by (auto simp: experience_handle_def split: option.splits if_splits)
  with x assms(3,4) show ?thesis unfolding experience_processed_def by blast
qed

lemma experience_log:
  assumes "(process_step R G others conc)\<^sup>*\<^sup>* (started w, started w) s"
  shows "(k, i, d, oc) \<in> set (sw_log (snd s)) \<Longrightarrow> oc \<in> {Acked, Dead, Dropped} \<Longrightarrow>
      oc = Acked \<and> experience_processed R (process_reachable R G others conc w) k i d"
    and "(k, i) \<in> set (sw_skipped (snd s)) \<Longrightarrow> experience_given_up (process_reachable R G others conc w) k i"
proof -
  let ?reached = "process_reachable R G others conc w"
  have "((k, i, d, oc) \<in> set (sw_log (snd s)) \<and> oc \<in> {Acked, Dead, Dropped} \<longrightarrow>
      oc = Acked \<and> experience_processed R ?reached k i d) \<and>
    ((k, i) \<in> set (sw_skipped (snd s)) \<longrightarrow> experience_given_up ?reached k i)"
    using assms
  proof (induction rule: rtranclp_induct)
    case (step s s')
    from step.hyps(1) have here: "?reached (fst s, snd s)" by (simp add: process_reachable_def)
    from step.hyps(2) show ?case
    proof cases
      case (experience_step e e' c' c)
      note log = step_log [OF experience_step(3)] and skip = step_gives_up [OF experience_step(3)]
      have "oc = Acked \<and> experience_processed R ?reached k i d"
        if "(k, i, d, oc) \<in> set (sw_log e')" "oc \<in> {Acked, Dead, Dropped}"
        using log
      proof (elim disjE exE conjE)
        fix t r w1
        assume run: "t \<in> set (sw_running e)" "sw_log e' = sw_log e @ [(tk_stream t, tk_id t, tk_delivery t, r)]"
          "experience_handler R G (tk_stream t) (tk_id t) (tk_payload t) (tk_retries t) (sw_world e) (r, w1)"
        show ?thesis
          using run(2) that step.IH experience_step(1,2) here experience_handler_settles [OF run(3) _ _ run(1)]
          by auto
      qed (use that step.IH experience_step(1) in auto)
      moreover have "experience_given_up ?reached k i" if "(k, i) \<in> set (sw_skipped e')"
        using skip
      proof (elim disjE exE conjE)
        fix k1 i1 n ps ss
        assume found: "sw_reclaim e = RPend k1 ((i1, n) # ps) ss" "pl_skip experience_policy n"
          "sw_skipped e' = sw_skipped e @ [(k1, i1)]"
        have "3 < n" using found(2) by (simp add: experience_policy_def experienceMaxRetries_def)
        with found(1) here experience_step(1) have "experience_given_up ?reached k1 i1"
          unfolding experience_given_up_def
          by (intro exI [of _ c] exI [of _ e] exI [of _ n] exI [of _ ps] exI [of _ ss]) auto
        with found(3) that step.IH experience_step(1) show ?thesis by auto
      qed (use that step.IH experience_step(1) in auto)
      ultimately show ?thesis using experience_step(2) by simp
    next
      case (cognitive_step c c' e' e)
      then show ?thesis using step.IH by (auto simp: restarted_def started_def)
    qed
  qed (simp add: started_def)
  then show "(k, i, d, oc) \<in> set (sw_log (snd s)) \<Longrightarrow> oc \<in> {Acked, Dead, Dropped} \<Longrightarrow>
      oc = Acked \<and> experience_processed R ?reached k i d"
    "(k, i) \<in> set (sw_skipped (snd s)) \<Longrightarrow> experience_given_up ?reached k i" by blast+
qed

end
