(* ===== verification/Statements.thy ===== *)
theory Statements
  imports MemoryRuns ValidTexts ExperienceWorker Embedder Server WorkerProcess
begin

text \<open>
  The program as the database sees it. Every write of the API server and of the workers is one of a few
  operations, each a statement or a transaction of its own; between them anything may happen: other
  processes write, calls fail, a process dies in the middle of its work. \<open>statement\<close> is one such
  operation, the locale \<open>every_statement\<close> is the contract of an invariant of all of them, and the
  lemmas in it lift the contract to whole requests and whole runs of the workers.
\<close>

inductive statement :: "pg_json \<Rightarrow> codec \<Rightarrow> db \<Rightarrow> db \<Rightarrow> bool" for J :: pg_json and cod :: codec where
  reading: "same_tables d d' \<Longrightarrow> statement J cod d d'"
| message: "InsertMessage m d = (r, d') \<Longrightarrow> statement J cod d d'"
| new_session: "CreateSession s d = (r, d') \<Longrightarrow> statement J cod d d'"
| old_session: "DeleteSession cod t s d = (q, d') \<Longrightarrow> statement J cod d d'"
| message_vectors: "send_batch (map (\<lambda>((i, _), v). set_embedding cod i v) (zip (records :: (string \<times> string) list) vs)) d = (u, d') \<Longrightarrow>
    statement J cod d d'"
| facts: "UpsertFactBatch mp fs encs hashes d = (r, d') \<Longrightarrow> statement J cod d d'"
| fact_vectors: "UpdateFactEmbeddingsBatch cod t s fs vs d = (r, d') \<Longrightarrow> statement J cod d d'"
| trait: "valid_utf8 tr \<Longrightarrow> pool_exec (insert_trait cod J t s x tr) d = (i, d') \<Longrightarrow> statement J cod d d'"
| trait_vectors: "UpdatePersonaEmbeddingsBatch cod t is vs d = (r, d') \<Longrightarrow> statement J cod d d'"
| events: "UpsertEventBatch cod J t s x ps d = (r, d') \<Longrightarrow> statement J cod d d'"
| feedback: "RecordFeedback cod t s x positive d = (r, d') \<Longrightarrow> statement J cod d d'"
| decay_run: "0 \<le> dw_rate w \<Longrightarrow> statement J cod d (decay w d)"
| new_experience: "UpsertExperience cod t s x m ds st v sim d = (r, d') \<Longrightarrow> statement J cod d d'"
| experience_used: "RecordUsage cod t s d = (r, d') \<Longrightarrow> statement J cod d d'"
| experience_rated: "ExperienceRecordFeedback cod t s x positive d = (r, d') \<Longrightarrow> statement J cod d d'"
| experience_off: "Deactivate cod t s x d = (r, d') \<Longrightarrow> statement J cod d d'"
| tokens: "Record new_id use d = (r, d') \<Longrightarrow> statement J cod d d'"

locale every_statement =
  fixes J :: pg_json and cod :: codec and inv :: "db \<Rightarrow> bool"
  assumes step: "statement J cod d d' \<Longrightarrow> inv d \<Longrightarrow> inv d'"

sublocale every_statement \<subseteq> table_invariant inv
  by unfold_locales (rule step [OF statement.reading])

section \<open>Requests\<close>

context every_statement
begin

lemma same_db_keeps: "w_db w' = w_db w \<Longrightarrow> inv (w_db w) \<Longrightarrow> inv (w_db w')"
  by simp

lemma on_db_keeps:
  "on_db f w = (r, w') \<Longrightarrow> (\<And>q d'. f (w_db w) = (q, d') \<Longrightarrow> inv (w_db w) \<Longrightarrow> inv d') \<Longrightarrow> inv (w_db w) \<Longrightarrow> inv (w_db w')"
  by (auto dest: on_db_tables)

lemma feedback_keeps: "handleFeedback cod j d = (r, d') \<Longrightarrow> inv d \<Longrightarrow> inv d'"
  by (auto simp: handleFeedback_def split: option.splits if_splits prod.splits intro: step [OF statement.feedback])

lemma history_keeps: "handleGetSessionHistory cod S T l b d = (r, d') \<Longrightarrow> inv d \<Longrightarrow> inv d'"
  by (auto simp: handleGetSessionHistory_def Let_def GetSessionHistory_def split: if_splits prod.splits sum.splits
      dest!: query_keeps)

lemma list_sessions_keeps: "handleListSessions cod T U l k d = (r, d') \<Longrightarrow> inv d \<Longrightarrow> inv d'"
  by (auto simp: handleListSessions_def ListSessions_def Let_def split: if_splits prod.splits sum.splits
      dest!: query_keeps)

lemma delete_session_keeps: "handleDeleteSession cod S T d = (r, d') \<Longrightarrow> inv d \<Longrightarrow> inv d'"
  by (auto simp: handleDeleteSession_def split: if_splits prod.splits sum.splits bool.splits
      intro: step [OF statement.old_session])

lemma list_experiences_keeps: "handleListExperiences cod T U d = (r, d') \<Longrightarrow> inv d \<Longrightarrow> inv d'"
  by (auto simp: handleListExperiences_def ListByUser_def split: option.splits prod.splits sum.splits dest!: query_keeps)

lemma rate_experience_keeps: "handleExperienceFeedback cod x j d = (r, d') \<Longrightarrow> inv d \<Longrightarrow> inv d'"
  by (auto simp: handleExperienceFeedback_def split: option.splits if_splits prod.splits
      intro: step [OF statement.experience_rated])

lemma delete_experience_keeps: "handleDeleteExperience cod x T U d = (r, d') \<Longrightarrow> inv d \<Longrightarrow> inv d'"
  by (auto simp: handleDeleteExperience_def split: option.splits if_splits prod.splits
      intro: step [OF statement.experience_off])

lemma append_keeps: "handleAppendMessages R cod n i now j w = (r, w') \<Longrightarrow> inv (w_db w) \<Longrightarrow> inv (w_db w')"
proof -
  assume run: "handleAppendMessages R cod n i now j w = (r, w')" and inv: "inv (w_db w)"
  have stored: "inv (w_db w1)" if "on_db (InsertMessage m) w = (e, w1)" for m e w1
    using that inv by (auto dest!: on_db_tables intro: step [OF statement.message])
  have appended: "inv (w_db (snd (AppendMessages R cod T S ms w1)))" if "inv (w_db w1)" for T S ms w1
    using AppendMessages_tables [OF prod.collapse [symmetric]] that by (rule tables_only)
  show ?thesis
    using run inv
    by (auto simp: handleAppendMessages_def Let_def batch_check_db split: option.splits if_splits prod.splits
        dest!: stored intro: appended)
qed

lemma history_query_keeps: "on_db (GetSessionHistory cod T S n b) w = (r, w') \<Longrightarrow> inv (w_db w) \<Longrightarrow> inv (w_db w')"
  by (auto dest!: on_db_tables dest: GetSessionHistory_tables tables_only)

lemma batch_count_keeps: "GetCognitiveBatchCount R T S w = (r, w') \<Longrightarrow> inv (w_db w) \<Longrightarrow> inv (w_db w')"
  by (auto simp: GetCognitiveBatchCount_def Let_def split: prod.splits sum.splits option.splits if_splits dest!: redis_do_db)

lemma flush_other_keeps: "inv (w_db w) \<Longrightarrow> inv (w_db (flush_other_session R cod t u x s w))"
  by (auto simp: flush_other_session_def Let_def snd_redis_db split: prod.splits sum.splits list.splits
      dest!: batch_count_keeps history_query_keeps)

lemma flush_previous_keeps: "inv (w_db w) \<Longrightarrow> inv (w_db (flushPreviousUserSessions R cod t u x w))"
proof -
  have "inv (w_db w) \<Longrightarrow> inv (w_db (fold (flush_other_session R cod t u x) ss w))" for ss w
    by (induction ss arbitrary: w) (simp_all add: flush_other_keeps)
  then show "inv (w_db w) \<Longrightarrow> inv (w_db (flushPreviousUserSessions R cod t u x w))"
    by (auto simp: flushPreviousUserSessions_def ListSessions_def Let_def split: prod.splits sum.splits
        dest!: on_db_tables query_keeps)
qed

lemma create_session_keeps: "handleCreateSession R cod i j w = (r, w') \<Longrightarrow> inv (w_db w) \<Longrightarrow> inv (w_db w')"
  by (auto simp: handleCreateSession_def Let_def split: option.splits prod.splits
      dest!: on_db_tables step [OF statement.new_session] intro: flush_previous_keeps)

lemma context_keeps: "GetContext R cod n req B w = (b, w') \<Longrightarrow> inv (w_db w) \<Longrightarrow> inv (w_db w')"
  by (auto simp: GetContext_def recent_messages_def apfst_def map_prod_def split: prod.splits if_splits option.splits
      dest!: GetRawMessages_tables intro: tables_only)

lemma get_context_keeps: "handleGetContext R cod tab n B j w = (r, w') \<Longrightarrow> inv (w_db w) \<Longrightarrow> inv (w_db w')"
  by (auto simp: handleGetContext_def split: sum.splits prod.splits dest!: context_keeps)

lemma get_formatted_keeps: "handleGetContextFormatted R cod tab n B j w = (r, w') \<Longrightarrow> inv (w_db w) \<Longrightarrow> inv (w_db w')"
  by (auto simp: handleGetContextFormatted_def split: sum.splits prod.splits dest!: context_keeps)

lemma serve_keeps:
  assumes "serve R E ep rq w = (r, w')" "sv_cod E = cod" "inv (w_db w)"
  shows "inv (w_db w')"
  using assms(1,3) unfolding serve_def assms(2)
  by (cases ep)
    (auto simp: Let_def dest!: on_db_tables dest: append_keeps create_session_keeps get_context_keeps get_formatted_keeps
      feedback_keeps history_keeps list_sessions_keeps delete_session_keeps list_experiences_keeps
      rate_experience_keeps delete_experience_keeps)

text \<open>The usage updates that a context retrieval sends off.\<close>

lemma record_usages_keeps: "inv d \<Longrightarrow> inv (record_usages cod t es d)"
  unfolding record_usages_def
  by (induction es arbitrary: d) (auto intro: step [OF statement.experience_used [OF prod.collapse [symmetric]]])

end

section \<open>Runs of the workers\<close>

lemma group_do_db [simp]: "w_db (snd (group_do G c w)) = w_db w"
  by (simp add: group_do_def split: prod.splits)

lemma redis_do_same_db [simp]: "w_db (snd (redis_do R c w)) = w_db w"
  by (simp add: redis_do_def split: prod.splits)

context every_statement
begin

lemma batches_keep:
  "inv d \<Longrightarrow> inv (snd (UpsertFactBatch mp fs es hs d))"
  "inv d \<Longrightarrow> inv (snd (UpdateFactEmbeddingsBatch cod t u fs vs d))"
  "inv d \<Longrightarrow> inv (snd (UpsertEventBatch cod J t u s ps d))"
  "inv d \<Longrightarrow> inv (snd (UpdatePersonaEmbeddingsBatch cod t is vs d))"
  "inv d \<Longrightarrow> inv (snd (Record i use d))"
  by (blast intro: step [OF statement.facts [OF prod.collapse [symmetric]]]
      step [OF statement.fact_vectors [OF prod.collapse [symmetric]]]
      step [OF statement.events [OF prod.collapse [symmetric]]]
      step [OF statement.trait_vectors [OF prod.collapse [symmetric]]]
      step [OF statement.tokens [OF prod.collapse [symmetric]]])+

lemma store_facts_step:
  assumes "store_facts E mp fs d = (r, d')" "ce_cod E = cod" "inv d"
  shows "inv d'"
  using assms(1,3) unfolding store_facts_def assms(2)
  by (auto simp: Let_def batches_keep split: if_splits sum.splits)

lemma upsert_traits_step:
  "upsert_traits cod J t u s trs d = (ids, d') \<Longrightarrow> list_all valid_utf8 trs \<Longrightarrow> inv d \<Longrightarrow> inv d'"
proof (induction trs arbitrary: d ids)
  case (Cons tr trs)
  show ?case
  proof (cases "TrimSpace tr = []")
    case False
    obtain q d1 where one: "pool_exec (insert_trait cod J t u s (TrimSpace tr)) d = (q, d1)" by fastforce
    have "inv d1" by (rule step [OF statement.trait [OF _ one]]) (use Cons.prems in auto)
    with Cons False one show ?thesis by (auto simp: Let_def split: sum.splits prod.splits)
  qed (use Cons in simp)
qed simp

lemma store_extraction_step:
  assumes "store_extraction E mp x d = (r, d')" "ce_cod E = cod" "ce_pg_json E = J" "inv d"
    and "list_all valid_utf8 (ex_PersonaUpdates x)"
  shows "inv d'"
proof -
  have ev: "inv (store_events E mp ps a)" if "inv a" for ps a
    using that unfolding store_events_def assms(2,3) by (simp add: batches_keep)
  have pe: "inv b" if "store_persona E mp (ex_PersonaUpdates x) a = (q, b)" "inv a" for q a b
    using that assms(5) unfolding store_persona_def assms(2,3)
    by (auto simp: UpsertPersona_def Let_def apfst_def map_prod_def batches_keep
        split: prod.splits if_splits sum.splits dest!: upsert_traits_step)
  show ?thesis
    using assms(1,4) store_facts_step [OF _ assms(2)] ev pe
    by (fastforce simp: store_extraction_def Let_def split: prod.splits option.splits)
qed

lemma process_messages_step:
  assumes "process_messages E msgs mp d = (r, d')" "ce_cod E = cod" "ce_pg_json E = J" "inv d"
  shows "inv d'"
  using assms(1,4)
  by (auto simp: process_messages_def Let_def split: prod.splits sum.splits
      dest!: buildBatchPrompt_tables dest: tables_only
      intro!: batches_keep(5) elim!: store_extraction_step [OF _ assms(2,3) _ parse_extraction_valid])

lemma cognitive_run_step:
  assumes "processBatchPayload E R payload w = (r, w')" "ce_cod E = cod" "ce_pg_json E = J" "inv (w_db w)"
  shows "inv (w_db w')"
  using assms(1)
proof (cases rule: batch_run_cases)
  case (run b m ms w1)
  with assms(2-4) show ?thesis by (auto intro: process_messages_step tables_only)
qed (use assms(4) in \<open>auto intro: tables_only\<close>)

lemma store_experience_step:
  assumes "store_experience E b m sg d = (r, d')" "xe_cod E = cod" "inv d"
  shows "inv d'"
  using assms(1,3) unfolding store_experience_def assms(2)
  by (auto simp: Let_def SearchSimilar_def split: sum.splits prod.splits if_splits
      dest!: query_keeps intro: step [OF statement.new_experience])

lemma extract_experience_step:
  assumes "extract_experience E b ms d = (r, d')" "xe_cod E = cod" "inv d"
  shows "inv d'"
proof -
  have "inv a'" if "ExperienceWorker.buildPrompt E t u win n a = (p, a')" "inv a" for t u win n a p a'
    using that by (auto simp: buildPrompt_def Get_def Let_def split: prod.splits sum.splits dest!: query_keeps)
  with assms(1,3) store_experience_step [OF _ assms(2)] show ?thesis
    by (auto simp: extract_experience_def Let_def split: sum.splits prod.splits if_splits)
qed

lemma experience_run_step:
  assumes "processPayload E R n payload w = (r, n', w')" "xe_cod E = cod" "inv (w_db w)"
  shows "inv (w_db w')"
proof (cases "parse_exp_batch payload")
  case (Inl e)
  with assms(1,3) show ?thesis by (simp add: processPayload_def)
next
  case (Inr b)
  obtain q w1 where f: "fetch_window R (xe_cod E) b experienceWindowSize w = (q, w1)" by fastforce
  have one: "inv (w_db w1)" using fetch_window_tables [OF f] assms(3) by (rule tables_only)
  obtain x w2 where g: "on_db (extract_experience E b (rev (ok_or [] q))) w1 = (x, w2)" by fastforce
  have "inv (w_db w2)" using extract_experience_step [OF on_db_tables [OF g] assms(2) one] .
  moreover have "w' = w \<or> w' = w1 \<or> w' = w2"
    using assms(1) Inr f g
    by (cases q; cases "ok_or [] q") (auto simp: processPayload_def Let_def split: if_splits)
  ultimately show ?thesis using assms(3) one by blast
qed

lemma tenant_batch_step:
  assumes "processTenantBatch E R payloads w = (r, w')" "em_cod E = cod" "inv (w_db w)"
  shows "inv (w_db w')"
proof -
  have "inv (w_db w1)" if "on_db (message_records E payloads) w = (q, w1)" for q w1
    using that assms(3) by (auto simp: message_records_def dest!: on_db_tables query_keeps)
  with assms(1) show ?thesis unfolding processTenantBatch_def assms(2)
    by (auto simp: Let_def publish_all_db on_db_def split: sum.splits prod.splits if_splits
        intro: step [OF statement.message_vectors])
qed

lemma process_groups_step:
  assumes "process_groups E R gs w = (r, w')" "em_cod E = cod" "inv (w_db w)"
  shows "inv (w_db w')"
  using assms(1,3)
proof (induction gs arbitrary: w)
  case (Cons g gs)
  then show ?case
    by (cases g) (auto split: prod.splits option.splits dest!: tenant_batch_step [OF _ assms(2)])
qed simp

lemma cognitive_delivery_step:
  assumes "handleStreamMessage E R G stream i payload n w = (oc, w')" "ce_cod E = cod" "ce_pg_json E = J" "inv (w_db w)"
  shows "inv (w_db w')"
proof -
  obtain r w1 where run: "processBatchPayload E R payload w = (r, w1)" by fastforce
  have "w_db w' = w_db w1"
    using assms(1) run by (auto simp: handleStreamMessage_def Let_def split: option.splits if_splits prod.splits dest!: redis_do_db)
  with cognitive_run_step [OF run assms(2-4)] show ?thesis by simp
qed

lemma experience_delivery_step:
  assumes "experience_handle E R G n stream i payload w = (oc, n', w')" "xe_cod E = cod" "inv (w_db w)"
  shows "inv (w_db w')"
proof -
  obtain r n1 w1 where run: "processPayload E R n payload w = (r, n1, w1)" by (cases "processPayload E R n payload w") auto
  have "w_db w' = w_db w1"
    using assms(1) run by (auto simp: experience_handle_def Let_def split: option.splits if_splits)
  with experience_run_step [OF run assms(2,3)] show ?thesis by simp
qed

lemma embed_task_step:
  assumes "embed_task E R G task w = (r, w')" "em_cod E = cod" "inv (w_db w)"
  shows "inv (w_db w')"
proof -
  obtain q w1 where run: "process_groups E R (by_tenant E (fst task)) w = (q, w1)" by fastforce
  have "w_db w' = w_db w1"
    using assms(1) run by (auto simp: embed_task_def processBatch_def split: option.splits)
  with process_groups_step [OF run assms(2,3)] show ?thesis by simp
qed

lemma remove_activity_db: "w_db (snd (RemoveSessionActivity R t s w)) = w_db w"
  by (simp add: RemoveSessionActivity_def redis_do_def split_beta)

lemma published_db:
  "ResetCognitiveBatch R T S w = (r, w') \<Longrightarrow> w_db w' = w_db w"
  "XAddCognitiveBatch R T p w = (r, w') \<Longrightarrow> w_db w' = w_db w"
  using snd_redis_db(2) [of R T S w] snd_redis_db(3) [of R T p w] by simp_all

lemma flush_session_step: "inv (w_db w) \<Longrightarrow> inv (w_db (flushSession R cod t s n w))"
  by (auto simp: flushSession_def remove_activity_db split: list.splits prod.splits sum.splits
      dest!: history_query_keeps published_db)

lemma flush_member_step: "inv (w_db w) \<Longrightarrow> inv (w_db (flush_member R cod m w))"
  by (auto simp: flush_member_def remove_activity_db intro!: flush_session_step
      split: list.splits prod.splits sum.splits dest!: batch_count_keeps)

lemma flush_members_step: "inv (w_db w) \<Longrightarrow> inv (w_db (fold (flush_member R cod) ms w))"
  by (induction ms arbitrary: w) (simp_all add: flush_member_step)

lemma flush_cycle_step: "inv (w_db w) \<Longrightarrow> inv (w_db (runFlushCycle R cod a now w))"
  by (auto simp: runFlushCycle_def TryLock_def GetInactiveSessions_def Let_def flush_members_step
      split: prod.splits sum.splits bool.splits dest!: redis_do_db)

end

end
