(* ===== verification/Demo.thy ===== *)
theory Demo
  imports VectorSearch Retriever Middleware Statements
begin

text \<open>
  Concrete data for the witnesses: a tenant, a user, a session, a fact, a database and a server, a
  master key and a nonce.
\<close>

text \<open>A tenant, a user, a session, and a database and a server that hold a little of everything.\<close>

definition tenant_1 :: uuid where "tenant_1 = 1"
definition user_2 :: uuid where "user_2 = 2"
definition session_3 :: uuid where "session_3 = 3"

definition text_of :: "uuid \<Rightarrow> string" where
  "text_of u = uuid_String ref_codec u"

definition demo_message :: "uuid \<Rightarrow> time \<Rightarrow> message" where
  "demo_message i at_time = \<lparr>msg_ID = i, msg_TenantID = 1, msg_SessionID = 3, msg_UserID = 2,
     msg_Role = ''user'', msg_Content = ''hi'', msg_TokenCount = 1, msg_CreatedAt = at_time\<rparr>"

lemma text_of_simps [simp]:
  "uuid_String ref_codec u = text_of u" "pg_uuid ref_codec (text_of u) = Some u" "text_of u \<noteq> []" "[] \<noteq> text_of u"
  using ref.pg_uuid_String ref.uuid_String_nonempty by (simp_all add: text_of_def not_sym)

definition demo_db :: db where
  "demo_db = empty_db\<lparr>
     db_sessions := [\<lparr>sr_id = 3, sr_tenant_id = 1, sr_user_id = 2, sr_title = Some ''s'', sr_meta = ''{}'',
                      sr_created_at = 0, sr_updated_at = 0\<rparr>],
     db_messages := map (\<lambda>m. message.extend m \<lparr>msg_embedding = None\<rparr>)
       [demo_message 11 10, demo_message 12 20, demo_message 13 30], db_now := 100\<rparr>"

definition demo_payload :: message_payload where
  "demo_payload = \<lparr>mp_MessageID = 11, mp_UserID = 2, mp_TenantID = 1, mp_SessionID = 3\<rparr>"

definition demo_fact :: "string \<Rightarrow> extracted_fact" where
  "demo_fact v = \<lparr>xf_EntityName = ''self'', xf_EntityType = ''self'', xf_Attribute = ''name'', xf_Value = v,
     xf_SourceQuote = ''''\<rparr>"

definition demo_world :: "mem world" where
  "demo_world = \<lparr>w_db = demo_db, w_redis = empty_mem\<rparr>"

lemma demo_single [simp]: "single_current demo_db"
  by (simp add: single_current_def demo_db_def empty_db_def)

definition demo_key :: string where
  "demo_key = replicate 32 (CHR ''k'')"

definition demo_nonce :: string where
  "demo_nonce = replicate 12 (CHR ''n'')"

text \<open>Rewrite rules that run the JSON parser on a text.\<close>

lemmas parse_numeral = parse_value.simps(2) [where n = "pred_numeral k", folded numeral_eq_Suc]
  parse_elems.simps(2) [where n = "pred_numeral k", folded numeral_eq_Suc]
  parse_members.simps(2) [where n = "pred_numeral k", folded numeral_eq_Suc] for k

lemma chr_lits:
  "chr 34 = CHR 0x22" "chr 92 = CHR 0x5C" "chr 32 = CHR '' ''" "chr 9 = CHR 0x09" "chr 10 = CHR 0x0A"
  "chr 13 = CHR 0x0D"
  by code_simp+

lemma scan_plain:
  "scan_string (CHR 0x22 # cs) = Some ([], cs)"
  "c \<noteq> CHR 0x22 \<Longrightarrow> c \<noteq> CHR 0x5C \<Longrightarrow> 32 \<le> byte c \<Longrightarrow>
     scan_string (c # cs) = map_option (apfst (Cons c)) (scan_string cs)"
  by (simp_all add: scan_string.simps chr_lits)

lemmas parse_eval = parse_json_def parse_numeral pred_numeral_simps scan_plain chr_lits maxNestingDepth_def
  scan_number_def scan_unsigned_def scan_int_def scan_digits_def is_digit_def byte_def scan_frac_def scan_exp_def
  coerce_utf8_ascii literal_def

text \<open>What the witnesses use of the demonstration data again and again.\<close>

lemma demo_faults: "db_faults demo_db = []"
  by code_simp

lemma demo_history:
  "newest_first (in_session 1 3) demo_db = [demo_message 13 30, demo_message 12 20, demo_message 11 10]"
  by code_simp

lemma demo_ids: "distinct (map msg_ID (db_messages demo_db))"
  by code_simp

lemma mem_reliable: "reliable mem_redis"
proof -
  have "(\<And>k. c \<noteq> INCR k) \<Longrightarrow> is_ok (fst (mem_redis c st))" for c st
    by (cases "(c, st)" rule: mem_redis.cases) (auto split: option.splits)
  then show ?thesis by (simp add: reliable_def)
qed

lemma gm_redis_xadd: "fst (redis_do gm_redis (XADD k mx e) w) = Inr RStatus"
  by (simp add: redis_do_def gm_redis_def split: prod.splits)

lemma demo_counters: "counters_ok mem_observers demo_world"
  by (simp add: counters_ok_def unlocked_def pending_def demo_world_def mem_observers_def empty_mem_def)

text \<open>Lower-case ASCII texts are left as they are.\<close>

lemma ToLower_lower:
  assumes "ascii s" "list_all (\<lambda>c. byte c < 65 \<or> 90 < byte c) s"
  shows "ToLower tab s = s"
proof -
  have "map (lower_rune tab) (runes s) = runes s"
    using assms by (auto simp: runes_def segments_ascii lower_rune_def list_all_iff ascii_def comp_def)
  moreover have "utf8 (runes s) = s" using coerce_utf8_ascii [OF assms(1)] by (simp add: coerce_utf8_def)
  ultimately show ?thesis by (simp add: ToLower_def)
qed

text \<open>A request that appends a message.\<close>

definition demo_body :: "json option" where
  "demo_body = Some (JObj [(''tenant_id'', JStr (text_of 1)), (''user_id'', JStr (text_of 2)),
     (''session_id'', JStr (text_of 3)), (''role'', JStr ''user''), (''content'', JStr ''hello there'')])"

definition demo_append :: AppendRequest where
  "demo_append = \<lparr>ar_TenantID = text_of 1, ar_UserID = text_of 2, ar_SessionID = text_of 3, ar_Role = ''user'',
     ar_Content = ''hello there''\<rparr>"

lemma demo_bind: "bind_append demo_body = Some demo_append"
  by (simp add: bind_append_def bind_json_def demo_body_def unmarshal_struct_def text_simps demo_append_def)

lemma demo_parse [simp]: "uuid_Parse ref_codec (text_of u) = Some u"
  unfolding text_of_def by (rule ref.uuid_roundtrip)

lemma demo_appended:
  "status (fst (handleAppendMessages mem_redis ref_codec n 14 500 demo_body demo_world)) = 200"
proof -
  have "fst (InsertMessage \<lparr>msg_ID = 14, msg_TenantID = 1, msg_SessionID = 3, msg_UserID = 2, msg_Role = ''user'',
      msg_Content = ''hello there'', msg_TokenCount = int (RuneCount ''hello there'') div 4, msg_CreatedAt = 500\<rparr> demo_db) = None"
    by code_simp
  then show ?thesis
    by (intro append_handler_ok [OF demo_bind, where t = 1 and u = 2 and s = 3])
      (simp_all add: demo_append_def validRoles_def MaxContentLength_def new_message_def demo_world_def)
qed

text \<open>Facts, and the answers of the data sources to a context request.\<close>

definition demo_ef :: "string \<Rightarrow> rat \<Rightarrow> entity_fact" where
  "demo_ef v c = \<lparr>ef_EntityName = ''n'', ef_EntityType = ''friend'', ef_Attribute = v, ef_Value = ''v'',
     ef_SourceQuote = [], ef_Confidence = c\<rparr>"

definition demo_backend :: backend where
  "demo_backend = \<lparr>b_Embed = Inr [1], b_SearchSelfFacts = Inr [], b_ResolveEntities = Inr [''n''],
     b_QueryFactsByVector = (\<lambda>_ _. Inr []),
     b_QueryFactsByFTS = (\<lambda>_. Inr [demo_ef ''a'' 1, demo_ef ''a'' 1, demo_ef ''b'' 0]),
     b_SearchAllFactsByVector = (\<lambda>_. Inr []), b_FallbackFacts = Inr [],
     b_SearchByVectorPerType = (\<lambda>_. Inr (\<lambda>_. None)), b_GetPersona = Inr [], b_GetUpcomingEvents = Inr [],
     b_SearchExperiences = (\<lambda>_. Inr [])\<rparr>"

end
