(* ===== verification/StoreProperties.thy ===== *)
theory StoreProperties
  imports Demo
begin

text \<open>
  Properties of the repositories and of the services around them: the memory records under every
  sequence of operations, the decay over repeated runs, the experiences, the hybrid search, the
  embeddings of a batch and the configuration.
\<close>

section \<open>Memory records\<close>

text \<open>C10: Whatever sequence of persona updates, events, feedback, embedding updates and decay runs is
  executed, with any failures of the database in between, the importance of every record stays between
  0.01 and 1 and, since no two of them run at the same time, no user has the same persona trait twice.\<close>

theorem memory_invariant:
  assumes "list_all memory_op_ok xs" "importance_ok d" "traits_distinct J d"
  shows "importance_ok (fold (run_memory_op cod J) xs d) \<and> traits_distinct J (fold (run_memory_op cod J) xs d)"
  using memory_ops_keep [OF assms(1), of J d cod] assms(2,3) by (simp add: memory_ok_def)

definition demo_json :: pg_json where
  "demo_json = \<lparr>jsonb_eq = (=), json_render = (\<lambda>_. ''''), ts_parse = (\<lambda>_. None)\<rparr>"

definition demo_memory_ops :: "memory_op list" where
  "demo_memory_ops =
     [PersonaOp (text_of 1) (text_of 2) (text_of 3) [''calm'', ''calm '', ''kind''],
      FeedbackOp (text_of 1) (text_of 2) (text_of 40) False, DecayOp \<lparr>dw_rate = 1 / 2, dw_ageDays = 30\<rparr>]"

definition demo_ids_db :: db where
  "demo_ids_db = empty_db\<lparr>db_uuids := \<lambda>n. of_nat (40 + n)\<rparr>"

lemma demo_trim: "TrimSpace ''calm'' = ''calm''" "TrimSpace ''calm '' = ''calm''" "TrimSpace ''kind'' = ''kind''"
  by (simp_all add: TrimSpace_def segments_ascii IsSpace_def byte_def)

lemma demo_traits_valid: "valid_utf8 ''calm''" "valid_utf8 ''kind''"
  by (simp_all add: valid_utf8_ascii byte_def)

theorem memory_invariant_witness:
  "importance_ok (fold (run_memory_op ref_codec demo_json) demo_memory_ops demo_ids_db) \<and>
   map me_payload (db_memories (run_memory_op ref_codec demo_json (hd demo_memory_ops) demo_ids_db)) =
     [JObj [(''trait'', jstr ''calm'')], JObj [(''trait'', jstr ''kind'')]]"
proof
  have "list_all memory_op_ok demo_memory_ops" "importance_ok demo_ids_db" "traits_distinct demo_json demo_ids_db"
    by (simp_all add: demo_memory_ops_def demo_trim demo_traits_valid importance_ok_def traits_distinct_def
        demo_ids_db_def empty_db_def)
  from memory_invariant [OF this] show "importance_ok (fold (run_memory_op ref_codec demo_json) demo_memory_ops demo_ids_db)"
    by blast
  show "map me_payload (db_memories (run_memory_op ref_codec demo_json (hd demo_memory_ops) demo_ids_db)) =
      [JObj [(''trait'', jstr ''calm'')], JObj [(''trait'', jstr ''kind'')]]"
    by (simp add: demo_memory_ops_def demo_ids_db_def empty_db_def demo_trim UpsertPersona_def insert_trait_eval
        has_trait_def of_type_def insert_memory_row_def gen_uuid_def memory_types_def demo_traits_valid Let_def)
qed

definition demo_memory :: memory_row where
  "demo_memory = \<lparr>me_id = 7, me_tenant_id = 1, me_user_id = 2, me_session_id = None, me_type = ''persona'',
     me_payload = JObj [], me_embedding = None, me_importance = 8 / 10, me_access_count = 0,
     me_last_accessed_at = None, me_created_at = 0\<rparr>"

text \<open>C19: The decay statement computes with the whole part of the rate, because PostgreSQL gives the parameter the
  type of the literal 1: with a rate below 1, such as the worker's 5 percent, no number of runs changes
  any record; with the rate 1 a run sets the importance of every record of the four decaying kinds to
  0.01 that was never accessed, however young it is, or was last accessed before the given number of days, and
  changes nothing else.\<close>

theorem decay_drops_fraction:
  assumes "db_faults d = []" "0 \<le> dw_rate w" "importance_ok d"
  shows "(dw_rate w < 1 \<longrightarrow> db_memories (fold (decay_at w) nows d) = db_memories d) \<and>
    (dw_rate w = 1 \<longrightarrow> db_memories (decay_at w now d) = map (\<lambda>r.
       if me_type r \<in> {''life_event'', ''user_character'', ''persona'', ''persona_context''} \<and>
          (me_last_accessed_at r = None \<or> the (me_last_accessed_at r) < now - dw_ageDays w * 86400 * 1000000000)
       then r\<lparr>me_importance := 1 / 100\<rparr> else r) (db_memories d))"
proof (intro conjI impI)
  assume "dw_rate w < 1"
  with assms show "db_memories (fold (decay_at w) nows d) = db_memories d" by (intro decay_without_effect)
next
  assume "dw_rate w = 1"
  then show "db_memories (decay_at w now d) = map (\<lambda>r.
       if me_type r \<in> {''life_event'', ''user_character'', ''persona'', ''persona_context''} \<and>
          (me_last_accessed_at r = None \<or> the (me_last_accessed_at r) < now - dw_ageDays w * 86400 * 1000000000)
       then r\<lparr>me_importance := 1 / 100\<rparr> else r) (db_memories d)"
    unfolding decay_at_rows [OF assms(1), THEN conjunct1]
    by (intro map_cong [OF refl])
      (auto simp: decay_row_def decayed_one stale_def decay_types_def second_def split: option.splits)
qed

theorem decay_drops_fraction_witness:
  "(\<forall>cfg. db_memories (fold (decay_at (main_decay_worker cfg)) [5, 6] (empty_db\<lparr>db_memories := [demo_memory]\<rparr>)) =
     [demo_memory]) \<and>
   db_memories (decay_at \<lparr>dw_rate = 1, dw_ageDays = 30\<rparr> 5 (empty_db\<lparr>db_memories := [demo_memory]\<rparr>)) =
     [demo_memory\<lparr>me_importance := 1 / 100\<rparr>]"
proof -
  let ?d = "empty_db\<lparr>db_memories := [demo_memory]\<rparr>"
  have d: "db_faults ?d = []" "importance_ok ?d" "db_memories ?d = [demo_memory]"
    by (simp_all add: empty_db_def importance_ok_def demo_memory_def)
  have "db_memories (fold (decay_at (main_decay_worker cfg)) [5, 6] ?d) = [demo_memory]" for cfg
    using decay_drops_fraction [OF d(1) _ d(2), of "main_decay_worker cfg" "[5, 6]" 0] d(3)
    by (simp add: main_decay_worker_def)
  moreover have "db_memories (decay_at \<lparr>dw_rate = 1, dw_ageDays = 30\<rparr> 5 ?d) = [demo_memory\<lparr>me_importance := 1 / 100\<rparr>]"
    using decay_drops_fraction [OF d(1) _ d(2), of "\<lparr>dw_rate = 1, dw_ageDays = 30\<rparr>" "[]" 5] d(3)
    by (simp add: demo_memory_def)
  ultimately show ?thesis by blast
qed

section \<open>Experiences\<close>

text \<open>C20: Under every sequence of upserts, uses, feedback signals and deactivations the confidence of every
  experience stays above 0 and at most 1 and its counters stay non-negative; and a series of negative
  signals takes 0.15 each from the confidence while that leaves 0.1, the experience staying active: it is
  the confidence and not the third signal, as the comment has it, that deactivates.\<close>

theorem experience_bounds:
  assumes "experiences_ok d"
  shows "experiences_ok (fold (run_experience_op cod) xs d) \<and>
    (\<forall>r n now. 1 / 10 \<le> ex_confidence r - 15 / 100 * of_nat n \<longrightarrow>
       ex_confidence ((negative_feedback now ^^ n) r) = ex_confidence r - 15 / 100 * of_nat n \<and>
       ex_is_active ((negative_feedback now ^^ n) r) = ex_is_active r)"
  using experience_ops_keep [OF assms] negative_feedback_steps by blast

theorem experience_bounds_witness:
  "experiences_ok (fold (run_experience_op ref_codec)
     [UpsertExperienceOp (text_of 1) (text_of 2) 3 4 ''d'' [''s''] [1] None,
      ExperienceFeedbackOp (text_of 1) (text_of 2) (text_of 40) False,
      DeactivateOp (text_of 1) (text_of 2) (text_of 40)] demo_ids_db)"
proof -
  have "experiences_ok demo_ids_db" by (simp add: experiences_ok_def demo_ids_db_def empty_db_def)
  from experience_bounds [OF this] show ?thesis by blast
qed


section \<open>The hybrid search\<close>

text \<open>C15: The fused result is the best part of the union of both lists: every identifier at most once, ordered
  by descending score, as many as asked for and available; a score is the sum of the reciprocal ranks in
  the two lists, and no identifier left out has a higher one. This holds for every order in which the
  map is visited.\<close>

theorem rrf_fusion:
  assumes "\<And>is. mset (arrange is) = mset is" "0 \<le> k" "rrfMerge arrange vs fs k = Inr rs"
  shows "distinct (map sm_ID rs) \<and> length rs = min (nat k) (card (sm_ID ` set (vs @ fs))) \<and>
    sorted (map (\<lambda>c. - sm_Score c) rs) \<and>
    list_all (\<lambda>c. sm_Score c = rrf_part 0 vs (sm_ID c) + rrf_part 0 fs (sm_ID c)) rs \<and>
    (\<forall>i \<in> sm_ID ` set (vs @ fs) - sm_ID ` set rs. \<forall>c \<in> set rs. rrf_part 0 vs i + rrf_part 0 fs i \<le> sm_Score c)"
proof -
  let ?all = "rrf_all arrange vs fs"
  have rs: "rs = take (nat k) ?all" using rrfMerge_take [OF assms(2)] assms(3) by simp
  note ids = rrf_all_ids [of arrange vs fs, OF assms(1)]
  have score: "sm_Score c = rrf_part 0 vs (sm_ID c) + rrf_part 0 fs (sm_ID c)" if "c \<in> set ?all" for c
    using rrf_all_scores [OF that] mset_eq_setD [OF assms(1)] by blast
  have sorted: "sorted (map (\<lambda>c. - sm_Score c) (rs @ drop (nat k) ?all))"
    using rrf_all_sorted [of arrange vs fs] by (simp add: rs)
  have "length ?all = card (sm_ID ` set (vs @ fs))"
    using ids distinct_card [of "map sm_ID ?all"] by simp
  moreover have "rrf_part 0 vs i + rrf_part 0 fs i \<le> sm_Score c"
    if i: "i \<in> sm_ID ` set (vs @ fs) - sm_ID ` set rs" and c: "c \<in> set rs" for i c
  proof -
    have "i \<in> sm_ID ` set ?all" using i ids by auto
    then obtain e where e: "e \<in> set ?all" "sm_ID e = i" by blast
    have "set ?all = set rs \<union> set (drop (nat k) ?all)"
      unfolding rs set_append [symmetric] append_take_drop_id ..
    with e i have "e \<in> set (drop (nat k) ?all)" by auto
    with c sorted have "- sm_Score c \<le> - sm_Score e" by (auto simp: sorted_append)
    with score [OF e(1)] e(2) show ?thesis by simp
  qed
  moreover have "sorted (map (\<lambda>c. - sm_Score c) rs)"
    using sorted by (simp add: sorted_append)
  moreover have "distinct (map sm_ID rs)" using ids by (simp add: rs flip: take_map)
  ultimately show ?thesis
    using score by (auto simp: rs list_all_iff min_def dest: in_set_takeD)
qed

definition demo_chunk :: "uuid \<Rightarrow> semantic_message" where
  "demo_chunk i = \<lparr>sm_ID = i, sm_Content = ''c'', sm_CosineSim = 0, sm_Score = 0, sm_Importance = 1, sm_CreatedAt = 0\<rparr>"

theorem rrf_fusion_witness:
  "rrfMerge id [demo_chunk 1, demo_chunk 2] [demo_chunk 2] 1 = Inr [(demo_chunk 2)\<lparr>sm_Score := 1 / 62 + 1 / 61\<rparr>] \<and>
   rrf_part 0 [demo_chunk 1, demo_chunk 2] 1 + rrf_part 0 [demo_chunk 2] 1 \<le> 1 / 62 + 1 / 61"
proof -
  have run: "rrfMerge id [demo_chunk 1, demo_chunk 2] [demo_chunk 2] 1 = Inr [(demo_chunk 2)\<lparr>sm_Score := 1 / 62 + 1 / 61\<rparr>]"
    by (simp add: rrfMerge_def demo_chunk_def order_desc_def rrfK_def)
  from rrf_fusion [OF _ _ run] have "rrf_part 0 [demo_chunk 1, demo_chunk 2] 1 + rrf_part 0 [demo_chunk 2] 1 \<le> 1 / 62 + 1 / 61"
    by (simp add: demo_chunk_def rrfK_def)
  with run show ?thesis by blast
qed

section \<open>Embeddings and configuration\<close>

text \<open>The vectors of an answer, with the index each is sent for.\<close>

definition answered_vectors :: "string \<Rightarrow> (int \<times> vec) list" where
  "answered_vectors body = (case parse_json body of None \<Rightarrow> [] | Some j \<Rightarrow> snd (unmarshal_struct data_fields [] j))"

text \<open>C31: A batch of embeddings from OpenAI or Azure lines up with the texts it was asked for: the texts
  are the request's input, the answer had status 200, there is one vector per text, and it is the last one
  that the answer gives for the text's index, whatever the order of the answer.\<close>

theorem embeddings_aligned:
  assumes "EmbedBatch (client_of http p) texts = Inr vs" "p = OpenAI key \<or> p = Azure c"
  shows "length vs = length texts \<and>
    (\<exists>rq fields body. http rq = Inr (200, body) \<and> hr_body rq = JObj fields \<and>
       map_of fields ''input'' = Some (JArr (map jstr texts)) \<and>
       (\<forall>i < length texts. vs ! i = vector_at (answered_vectors body) i))"
proof -
  obtain what rq fields where run: "batch_vectors texts (call_api http what data_fields [] rq) = Inr vs"
    "hr_body rq = JObj fields" "map_of fields ''input'' = Some (JArr (map jstr texts))"
    using assms by (auto simp: OpenAIEmbedBatch_def AzureEmbedBatch_def openai_request_def azure_request_def)
  obtain ds where ds: "call_api http what data_fields [] rq = Inr ds" "length vs = length texts"
    "\<forall>i < length texts. vs ! i = vector_at ds i"
    using batch_vectors_nth [OF run(1)] by blast
  obtain body where "http rq = Inr (200, body)" "ds = answered_vectors body"
    using ds(1) by (auto simp: call_api_def answered_vectors_def split: sum.splits prod.splits if_splits)
  with run ds show ?thesis by blast
qed

text \<open>The witness: two texts, answered in reverse order.\<close>

definition demo_answer :: string where
  \<open>demo_answer = ''{"data":[{"index":1,"embedding":[2]},{"index":0,"embedding":[1]}]}''\<close>

lemma demo_answer_parsed: "parse_json demo_answer = Some (JObj [(''data'', JArr [JObj [(''index'', JNum ''1''),
   (''embedding'', JArr [JNum ''2''])], JObj [(''index'', JNum ''0''), (''embedding'', JArr [JNum ''1''])]])])"
  by (simp add: demo_answer_def parse_eval)

lemma demo_literals: "float_literal ''1'' = 1" "float_literal ''2'' = 2" "Atoi ''1'' = Some 1" "Atoi ''0'' = Some 0"
  by (simp_all add: float_literal_def digits_rat_def is_digit_def byte_def Let_def Atoi_def int64_def)

lemma demo_floats: "dec_float32 (JNum ''1'') = 1" "dec_float32 (JNum ''2'') = 2"
  by (simp_all add: dec_float32_def demo_literals max_float32_def)

theorem embeddings_aligned_witness:
  "\<exists>vs body. EmbedBatch (client_of (\<lambda>_. Inr (200, demo_answer)) (OpenAI ''k'')) [''x'', ''y''] = Inr vs \<and>
     vs = [[1], [2]] \<and> vs ! 1 = vector_at (answered_vectors body) 1"
proof -
  let ?http = "\<lambda>_ :: http_request. Inr (200, demo_answer) :: (int \<times> string) res"
  have keys: "fold_key ''index'' \<noteq> fold_key ''embedding''" by (simp add: fold_key_ascii byte_def)
  have "EmbedBatch (client_of ?http (OpenAI ''k'')) [''x'', ''y''] = Inr [[1], [2]]"
    using keys not_sym [OF keys]
    by (simp add: OpenAIEmbedBatch_def call_api_def demo_answer_parsed data_fields_def unmarshal_struct_def dec_slice_def
        dec_int_def dec_floats_def demo_floats demo_literals batch_vectors_def)
  with embeddings_aligned [OF this] show ?thesis by fastforce
qed

text \<open>C39: A configuration that is loaded is usable: the required settings are there, the pool sizes, limits
  and intervals are within their ranges, the port begins with a colon and the provider is a known one.\<close>

theorem configuration_ok:
  assumes "load_config env F = Inr c"
  shows "config_ok c"
  by (rule load_config_ok [OF assms])

definition demo_env :: "string \<Rightarrow> string" where
  "demo_env v = (if v = ''DATABASE_URL'' then ''postgres'' else if v = ''MASTER_KEY'' then ''k''
     else if v = ''PORT'' then ''9000'' else [])"

definition demo_files :: file_system where
  "demo_files = \<lparr>fs_Stat = (\<lambda>_. True), fs_ReadFile = (\<lambda>p. Inr p)\<rparr>"

theorem configuration_ok_witness:
  "\<exists>c. load_config demo_env demo_files = Inr c \<and> config_ok c \<and> cf_ServerPort c = '':9000''"
proof -
  obtain c where c: "load_config demo_env demo_files = Inr c" "cf_ServerPort c = '':9000''"
    by (simp add: load_config_def demo_env_def demo_files_def llm_providers_def server_port_def text_setting_def)
  with configuration_ok [OF c(1)] show ?thesis by blast
qed

end
