(* ===== verification/WorkerProperties.thy ===== *)
theory WorkerProperties
  imports Demo
begin

text \<open>
  Properties of the stream workers: what they guarantee for every entry of their streams under every
  interleaving of their loops, handlers, crashes and other processes, and what the processing of one
  batch does to the database.
\<close>

section \<open>Finding the streams\<close>

text \<open>The scan ends as soon as the server's cursors do.\<close>

lemma scan_loop_ends:
  assumes "\<And>c st keys c' st'. G (SCAN c (''*'' @ cognitiveStreamSuffix) 100) st = (Inr (GScan keys c'), st') \<Longrightarrow>
      c' = 0 \<or> m c' < (m c :: nat)"
  shows "scan_loop G c ss w \<noteq> None"
proof (induction "m c" arbitrary: c ss w rule: less_induct)
  case less
  obtain r w1 where one: "group_do G (SCAN c (''*'' @ cognitiveStreamSuffix) 100) w = (r, w1)" by fastforce
  show ?case
  proof (cases "\<exists>keys c'. r = Inr (GScan keys c')")
    case True
    then obtain keys c' where r: "r = Inr (GScan keys c')" by blast
    have "G (SCAN c (''*'' @ cognitiveStreamSuffix) 100) (w_redis w) = (Inr (GScan keys c'), w_redis w1)"
      using one r by (auto simp: group_do_def split: prod.splits)
    then have "c' = 0 \<or> m c' < m c" by (rule assms)
    with less.hyps [of c' "ss @ keys" w1] one r show ?thesis
      by (subst scan_loop.simps) (auto simp: Let_def)
  next
    case False
    with one show ?thesis
      by (subst scan_loop.simps) (auto simp: Let_def split: sum.splits group_reply.splits)
  qed
qed

text \<open>C28: The search for streams returns for every server whose scan cursors make progress towards zero, as
  documented, and never yields more than a hundred streams, so one read never names more.\<close>

theorem discover_returns:
  assumes "\<And>c st keys c' st'. G (SCAN c (''*'' @ cognitiveStreamSuffix) 100) st = (Inr (GScan keys c'), st') \<Longrightarrow>
      c' = 0 \<or> m c' < (m c :: nat)"
  shows "\<exists>r c' w'. discoverStreams G cursor w = Some (r, c', w') \<and> length (ok_or [] r) \<le> 100"
proof -
  obtain q w1 where "scan_loop G cursor [] w = Some (q, w1)" using scan_loop_ends [OF assms] by fastforce
  then show ?thesis
    by (cases q) (auto simp: discoverStreams_def cognitiveMaxStreamsPerTick_def)
qed

text \<open>A server whose cursor counts down from three.\<close>

definition countdown :: "nat groups" where
  "countdown c st = (case c of
     SCAN cur p n \<Rightarrow> (Inr (GScan (replicate 60 (''t'' @ cognitiveStreamSuffix)) (if cur = 0 then 3 else cur - 1)), Suc st)
   | _ \<Rightarrow> (Inr GStatus, st))"

theorem discover_returns_witness:
  "\<exists>r c' w'. discoverStreams countdown 0 \<lparr>w_db = demo_db, w_redis = 0\<rparr> = Some (r, c', w') \<and> length (ok_or [] r) \<le> 100"
proof (rule discover_returns [where m = "\<lambda>c. if c = 0 then 2 ^ 64 else unat c"], goal_cases)
  case (1 c st keys c' st')
  then have "c' = (if c = 0 then 3 else c - 1)" by (auto simp: countdown_def)
  moreover have "c \<noteq> 0 \<Longrightarrow> unat (c - 1) < unat c" using unat_gt_0 [of c] by (simp add: unat_minus_one)
  ultimately show ?case by auto
qed

section \<open>A run on the in-memory server\<close>

definition demo_stream :: string where
  "demo_stream = ''t:stream:cognitive''"

definition demo_task :: task where
  "demo_task = \<lparr>tk_stream = demo_stream, tk_id = ''1'', tk_payload = Text ''x'', tk_retries = 0, tk_delivery = 1\<rparr>"

definition demo_streams :: "group_mem world" where
  "demo_streams = \<lparr>w_db = demo_db,
     w_redis = empty_group_mem\<lparr>gm_entries := [((demo_stream, ''1''), [(''payload'', Text ''x'')])]\<rparr>\<rparr>"

text \<open>After a poll the entry is pending and its task waits.\<close>

definition demo_polled :: "group_mem world" where
  "demo_polled = demo_streams\<lparr>w_redis := give ''workers'' (demo_stream, ''1'') (w_redis demo_streams)\<rparr>"

lemma demo_poll:
  "poll cognitive_policy gm_groups (started demo_streams) =
     Some ((started demo_polled)\<lparr>sw_inFlight := {''1''}, sw_waiting := [demo_task]\<rparr>)"
proof -
  have scan: "scan_loop gm_groups 0 [] demo_streams = Some (Inr ([demo_stream], 0), demo_streams)"
    by (subst scan_loop.simps)
      (simp add: group_do_def demo_streams_def cognitiveStreamSuffix_def demo_stream_def empty_group_mem_def)
  have ensure: "ensureConsumerGroup gm_groups g k w = w" for g k and w :: "group_mem world"
    by (simp add: ensureConsumerGroup_def group_do_def)
  have found: "discover cognitive_policy gm_groups (started demo_streams) = Some ([demo_stream], started demo_streams)"
    by (simp add: discover_def discoverStreams_def started_def scan cognitive_policy_def cognitiveMaxStreamsPerTick_def)
  have read: "group_do gm_groups (XREADGROUP ''workers'' ''cognitive-worker'' [demo_stream] 10) demo_streams =
      (Inr (GStreams [(demo_stream, [(''1'', [(''payload'', Text ''x'')])])]), demo_polled)"
    by (simp add: group_do_def gm_read_def new_entries_def demo_streams_def empty_group_mem_def demo_polled_def read_ids_def
        Let_def)
  show ?thesis unfolding poll_def found
    by (simp add: ensure cognitive_policy_def cognitiveConsumerGroup_def cognitiveConsumerName_def
        started_def read Let_def accept_all_def accept_def demo_task_def payload_of_def)
qed

text \<open>The handler fails on the payload for good: the entry goes to the dead letters.\<close>

definition demo_handled :: "group_mem world" where
  "demo_handled = snd (group_do gm_groups (XACK demo_stream ''workers'' [''1''])
     (snd (redis_do gm_redis (XADD (''t'' @ cognitiveDLQSuffix) 1000
        (dead_letter (Text ''x'') 0 (Unrecoverable syntax_error))) demo_polled)))"

lemma demo_unparsed: "parse_json ''x'' = None"
  by (simp add: parse_eval)

lemma demo_prefix: "before cognitiveStreamSuffix demo_stream = ''t''"
  by (simp add: cognitiveStreamSuffix_def demo_stream_def)

lemma demo_handle:
  "handleStreamMessage E gm_redis gm_groups demo_stream ''1'' (Text ''x'') 0 demo_polled = (Dead, demo_handled)"
  by (simp add: split_beta gm_redis_xadd handleStreamMessage_def processBatchPayload_def parse_batch_def demo_unparsed
      unmarshal_def demo_prefix demo_handled_def cognitiveConsumerGroup_def Let_def)

definition demo_end :: "group_mem stream_worker" where
  "demo_end = (started demo_handled)\<lparr>sw_log := [(demo_stream, ''1'', 1, Dead)]\<rparr>"

lemma demo_reachable:
  assumes "0 < conc"
  shows "reachable cognitive_policy (cognitive_handler gm_redis gm_groups) gm_groups (quiet gm_observers) conc
    demo_streams demo_end"
proof -
  let ?step = "worker_step cognitive_policy (cognitive_handler gm_redis gm_groups) gm_groups (quiet gm_observers) conc"
  let ?s1 = "(started demo_polled)\<lparr>sw_inFlight := {''1''}, sw_waiting := [demo_task]\<rparr>"
  let ?s2 = "(started demo_polled)\<lparr>sw_inFlight := {''1''}, sw_running := [demo_task]\<rparr>"
  have "?step (started demo_streams) ?s1" by (rule worker_step.poll [OF demo_poll])
  moreover have "?step ?s1 ?s2"
    using worker_step.start [of demo_task ?s1 conc] assms by (simp add: started_def)
  moreover have "?step ?s2 demo_end"
  proof -
    have "cognitive_handler gm_redis gm_groups demo_stream ''1'' (Text ''x'') 0 demo_polled (Dead, demo_handled)"
      by (simp add: cognitive_handler_def demo_handle)
    then have "?step ?s2 (drop_task demo_task demo_handled Dead ?s2)"
      by (intro worker_step.finish) (simp_all add: started_def demo_task_def)
    then show ?thesis by (simp add: drop_task_def demo_end_def started_def demo_task_def)
  qed
  ultimately show ?thesis unfolding reachable_def by (meson converse_rtranclp_into_rtranclp rtranclp.rtrancl_refl)
qed

lemma demo_process_reachable:
  assumes "0 < conc"
  shows "process_reachable gm_redis gm_groups (quiet gm_observers) conc demo_streams (demo_end, started demo_handled)"
proof -
  let ?P = "process_step gm_redis gm_groups (quiet gm_observers) conc"
  let ?S = "worker_step cognitive_policy (cognitive_handler gm_redis gm_groups) gm_groups (quiet gm_observers) conc"
  have "?P\<^sup>*\<^sup>* (started demo_streams, started demo_streams) (c, started (sw_world c))"
    if "?S\<^sup>*\<^sup>* (started demo_streams) c" for c
    using that
  proof (induction rule: rtranclp_induct)
    case base
    then show ?case by (simp add: started_def)
  next
    case (step c c')
    have "?P (c, started (sw_world c)) (c', started (sw_world c'))"
      by (rule process_step.cognitive_step [OF step.hyps(2)]) (simp add: restarted_def started_def)
    with step.IH show ?case by (rule rtranclp.rtrancl_into_rtrancl)
  qed
  from this [of demo_end] demo_reachable [OF assms]
  show ?thesis by (simp add: process_reachable_def reachable_def demo_end_def started_def)
qed

section \<open>The worker process\<close>

context stream_server
begin

lemma cognitive_skips_none: "cognitive_run conc w c \<Longrightarrow> sw_skipped c = []"
  unfolding reachable_def
  by (induction rule: rtranclp_induct)
    (auto simp: started_def cognitive_policy_def dest!: step_skipped)

lemma process_invs:
  assumes "process_reachable R G (quiet ob) conc w (c, e)" "\<And>k g. obs_seen ob (w_redis w) k g = {}"
  shows "cognitive.inv conc c" "experience.inv conc e" "sw_skipped c = []" "sw_world c = sw_world e"
  using process_projects [OF assms(1)] assms(2) cognitive_skips_none
  by (auto intro: cognitive.reachable_inv experience.reachable_inv)

lemma process_settles:
  assumes "process_reachable R G (quiet ob) conc w (c, e)" "\<And>k g. obs_seen ob (w_redis w) k g = {}"
    and "obs_entry ob (w_redis (sw_world c)) k i \<noteq> None"
  shows "i \<in> obs_seen ob (w_redis (sw_world c)) k cognitiveConsumerGroup \<Longrightarrow>
      obs_pel ob (w_redis (sw_world c)) k cognitiveConsumerGroup i \<noteq> None \<or>
      (\<exists>d oc. (k, i, d, oc) \<in> set (sw_log c) \<and> cognitive_settled R G ob (process_reachable R G (quiet ob) conc w) k i d oc)"
    and "i \<in> obs_seen ob (w_redis (sw_world c)) k experienceConsumerGroup \<Longrightarrow>
      obs_pel ob (w_redis (sw_world c)) k experienceConsumerGroup i \<noteq> None \<or>
      (\<exists>d. (k, i, d, Acked) \<in> set (sw_log e) \<and> experience_processed R (process_reachable R G (quiet ob) conc w) k i d) \<or>
      experience_given_up (process_reachable R G (quiet ob) conc w) k i"
proof -
  note invs = process_invs [OF assms(1,2)]
  note run = assms(1) [unfolded process_reachable_def]
  have c: "pl_group cognitive_policy = cognitiveConsumerGroup" and e: "pl_group experience_policy = experienceConsumerGroup"
    by (simp_all add: cognitive_policy_def experience_policy_def)
  show "i \<in> obs_seen ob (w_redis (sw_world c)) k cognitiveConsumerGroup \<Longrightarrow>
      obs_pel ob (w_redis (sw_world c)) k cognitiveConsumerGroup i \<noteq> None \<or>
      (\<exists>d oc. (k, i, d, oc) \<in> set (sw_log c) \<and> cognitive_settled R G ob (process_reachable R G (quiet ob) conc w) k i d oc)"
    using cognitive.not_lost [OF invs(1), unfolded c, of i k] assms(3) invs(3) cognitive_log [OF run, unfolded fst_conv]
    by fastforce
  show "i \<in> obs_seen ob (w_redis (sw_world c)) k experienceConsumerGroup \<Longrightarrow>
      obs_pel ob (w_redis (sw_world c)) k experienceConsumerGroup i \<noteq> None \<or>
      (\<exists>d. (k, i, d, Acked) \<in> set (sw_log e) \<and> experience_processed R (process_reachable R G (quiet ob) conc w) k i d) \<or>
      experience_given_up (process_reachable R G (quiet ob) conc w) k i"
    using experience.not_lost [OF invs(2), unfolded e, of i k] assms(3) invs(4)
      experience_log [OF run, unfolded snd_conv]
    by fastforce
qed

lemma process_attempts:
  assumes "process_reachable R G (quiet ob) conc w (c, e)" "\<And>k g. obs_seen ob (w_redis w) k g = {}"
  shows "length (filter (\<lambda>(s', i', d, r). s' = k \<and> i' = i \<and> r = Failed) (sw_log c)) \<le> 8"
    and "length (filter (\<lambda>(s', i', d, r). s' = k \<and> i' = i) (sw_log e)) \<le> 4"
    and "distinct (map log_key (sw_log c))" "distinct (map log_key (sw_log e))"
  using cognitive.handled_bounded [OF process_invs(1) [OF assms], of k i]
    experience.handled_bounded [OF process_invs(2) [OF assms], of k i]
    cognitive.invD(2) [OF process_invs(1) [OF assms]] experience.invD(2) [OF process_invs(2) [OF assms]]
  by (simp_all add: history_ok_def history_def)

end

text \<open>C3: In every state the worker process can reach, whatever the interleaving of its loops and handlers,
  whatever commands fail, however often it dies and restarts, each worker handles at most as many entries at
  once as configured, and every entry that a group was given and that is still in its stream is pending
  there or was settled by a run of the process: for the cognitive worker a run that processed it without an
  error, one that failed and after which its dead letter was in the stream of dead letters, or one that failed
  and whose dead letter the server refused (only then is an event lost); for the experience worker a run
  that processed it without an error, or more than three deliveries of it.\<close>

theorem process_loses_nothing:
  assumes "stream_server G ob R" "process_reachable R G (quiet ob) conc w (c, e)"
    and "\<And>k g. obs_seen ob (w_redis w) k g = {}" "obs_entry ob (w_redis (sw_world c)) k i \<noteq> None"
  shows "length (sw_running c) \<le> conc \<and> length (sw_running e) \<le> conc \<and>
    (i \<in> obs_seen ob (w_redis (sw_world c)) k cognitiveConsumerGroup \<longrightarrow>
      obs_pel ob (w_redis (sw_world c)) k cognitiveConsumerGroup i \<noteq> None \<or>
      (\<exists>d oc. (k, i, d, oc) \<in> set (sw_log c) \<and> cognitive_settled R G ob (process_reachable R G (quiet ob) conc w) k i d oc)) \<and>
    (i \<in> obs_seen ob (w_redis (sw_world c)) k experienceConsumerGroup \<longrightarrow>
      obs_pel ob (w_redis (sw_world c)) k experienceConsumerGroup i \<noteq> None \<or>
      (\<exists>d. (k, i, d, Acked) \<in> set (sw_log e) \<and> experience_processed R (process_reachable R G (quiet ob) conc w) k i d) \<or>
      experience_given_up (process_reachable R G (quiet ob) conc w) k i)"
proof -
  note invs = stream_server.process_invs [OF assms(1,2,3)]
  have "length (sw_running c) \<le> conc" "length (sw_running e) \<le> conc"
    using invs(1,2) by (simp_all add: worker_inv_def)
  with stream_server.process_settles [OF assms] show ?thesis by blast
qed

lemma demo_nothing_seen: "obs_seen gm_observers (w_redis demo_streams) k g = {}"
  by (simp add: gm_observers_def demo_streams_def empty_group_mem_def)

lemma demo_end_server:
  "sw_world demo_end = demo_handled" "sw_log demo_end = [(demo_stream, ''1'', 1, Dead)]"
  "(demo_stream, ''workers'', ''1'') \<in> set (gm_seen (w_redis demo_handled))"
  "map_of (gm_entries (w_redis demo_handled)) (demo_stream, ''1'') \<noteq> None"
  "map_of (gm_pel (w_redis demo_handled)) (demo_stream, ''workers'', ''1'') = None"
  by (simp_all add: demo_end_def started_def demo_handled_def group_do_def redis_do_def gm_redis_def demo_polled_def
      give_def demo_streams_def empty_group_mem_def split: prod.splits)

text \<open>The malformed event of the demonstration ends in the stream of dead letters.\<close>

theorem process_loses_nothing_witness:
  "\<exists>d. cognitive_settled gm_redis gm_groups gm_observers
     (process_reachable gm_redis gm_groups (quiet gm_observers) 1 demo_streams) demo_stream ''1'' d Dead"
proof -
  have "process_reachable gm_redis gm_groups (quiet gm_observers) 1 demo_streams (demo_end, started demo_handled)"
    by (rule demo_process_reachable) simp
  from process_loses_nothing [OF gms.stream_server_axioms this demo_nothing_seen, of demo_stream "''1''"]
  show ?thesis using demo_end_server by (auto simp: cognitiveConsumerGroup_def)
qed

text \<open>C4: No delivery of an entry is handled twice. The cognitive worker ends at most eight handlings of an entry
  with a failure that leaves it pending, and the experience worker handles an entry at most four times,
  whatever happens.\<close>

theorem attempts_bounded:
  assumes "stream_server G ob R" "process_reachable R G (quiet ob) conc w (c, e)"
    and "\<And>k g. obs_seen ob (w_redis w) k g = {}"
  shows "length (filter (\<lambda>(s', i', d, r). s' = k \<and> i' = i \<and> r = Failed) (sw_log c)) \<le> 8 \<and>
    length (filter (\<lambda>(s', i', d, r). s' = k \<and> i' = i) (sw_log e)) \<le> 4 \<and>
    distinct (map log_key (sw_log c)) \<and> distinct (map log_key (sw_log e))"
  using stream_server.process_attempts [OF assms] by blast

theorem attempts_bounded_witness:
  "length (filter (\<lambda>(s', i', d, r). s' = demo_stream \<and> i' = ''1'' \<and> r = Failed) (sw_log demo_end)) \<le> 8 \<and>
   distinct (map log_key (sw_log demo_end))"
proof -
  have "process_reachable gm_redis gm_groups (quiet gm_observers) 1 demo_streams (demo_end, started demo_handled)"
    by (rule demo_process_reachable) simp
  from attempts_bounded [OF gms.stream_server_axioms this demo_nothing_seen] show ?thesis by blast
qed

end
