(* ===== verification/CognitiveProperties.thy ===== *)
theory CognitiveProperties
  imports Demo
begin

text \<open>
  Properties of the processing of batch events: the event from its publication to its reading, what a
  run may store, what its failure leaves behind, and the repetition of a run.
\<close>

section \<open>A run, from the event to the stored fact\<close>

definition demo_extraction :: string where
  \<open>demo_extraction = ''{"facts":[{"entity_name":"self","entity_type":"self","attribute":"name","value":"An"}]}''\<close>

definition demo_llm :: llm_client where
  "demo_llm = \<lparr>Generate = (\<lambda>_. Inr (demo_extraction, 5)), Embed = (\<lambda>_. Inr [1]), EmbedBatch = (\<lambda>ts. Inr (map (\<lambda>_. [1]) ts)),
     ModelName = ''m''\<rparr>"

definition demo_cog :: cog_env where
  "demo_cog = \<lparr>ce_cod = ref_codec, ce_crypto_lib = ref_crypto, ce_crypto = Crypto demo_key,
     ce_master_key = hex_encode demo_key, ce_tab = id,
     ce_pg_json = \<lparr>jsonb_eq = (=), json_render = (\<lambda>_. []), ts_parse = (\<lambda>_. None)\<rparr>,
     ce_llm = demo_llm, ce_prompt = ''{{MESSAGE}}'', ce_now_text = ''now'', ce_now = 100, ce_usage_id = 9,
     ce_nonce = (\<lambda>_. Some demo_nonce), ce_order1 = (\<lambda>fs. fs), ce_order2 = (\<lambda>fs. fs)\<rparr>"

definition demo_event :: bulk where
  "demo_event = Json (batch_payload (text_of 1) (text_of 2) (text_of 3) 10 (text_of 13))"

lemma demo_text_valid: "valid_utf8 (text_of u)"
  unfolding text_of_def by (rule valid_utf8_ascii [OF ref.uuid_ascii])

lemma demo_event_parsed:
  "parse_batch demo_event = Inr \<lparr>bi_TenantID = text_of 1, bi_UserID = text_of 2, bi_SessionID = text_of 3,
     bi_BatchSize = 10, bi_LastMessageID = text_of 13\<rparr>"
  by (simp add: demo_event_def parse_batch_payload demo_text_valid int64_def)

lemma demo_fetched:
  "fetch_window mem_redis ref_codec \<lparr>bi_TenantID = text_of 1, bi_UserID = text_of 2, bi_SessionID = text_of 3,
     bi_BatchSize = 10, bi_LastMessageID = text_of 13\<rparr> 10 demo_world =
   (Inr [demo_message 13 30, demo_message 12 20, demo_message 11 10], demo_world)"
  by (simp add: fetch_window_def GetRawMessagesUntil_def redis_do_def demo_world_def empty_mem_def on_db_def
      GetRecentMessagesUntil_def anchor_time_def GetRecentMessages_def demo_faults newest_first_def message_time_def
      demo_db_def empty_db_def demo_message_def in_session_def order_desc_def sql_limit_def)

lemma demo_extraction_parsed:
  "parse_extraction demo_extraction = Inr \<lparr>ex_Facts = [demo_fact ''An''], ex_Events = [], ex_PersonaUpdates = []\<rparr>"
proof -
  have "extractCognitiveJSON demo_extraction = demo_extraction"
    by (simp add: extractCognitiveJSON_def demo_extraction_def json_block_def TrimSpace_def segments_ascii IsSpace_def byte_def)
  moreover have "parse_json demo_extraction = Some (JObj [(''facts'', JArr [JObj [(''entity_name'', JStr ''self''),
      (''entity_type'', JStr ''self''), (''attribute'', JStr ''name''), (''value'', JStr ''An'')]])])"
    by (simp add: demo_extraction_def parse_eval)
  ultimately show ?thesis
    by (simp add: parse_extraction_def unmarshal_def unmarshal_struct_def extraction_fields_def dec_array_def
        zero_extraction_def unmarshal_extracted_fact_def extracted_fact_fields_def zero_extracted_fact_def demo_fact_def
        fold_key_ascii byte_def fold_rune_def)
qed

lemma demo_prompt:
  "buildBatchPrompt E t u tr demo_db = (fst (buildBatchPrompt E t u tr demo_db), demo_db)"
  by (auto simp: buildBatchPrompt_def GetTopEntityNames_def Get_def demo_db_def empty_db_def Let_def
      split: sum.splits prod.splits)

lemma demo_unique: "unique_facts [demo_fact ''An''] = [demo_fact ''An'']"
proof -
  have "ValidateExtractedFact (demo_fact ''An'') = None" by code_simp
  then show ?thesis by (simp add: unique_facts_def put_fact_def)
qed

definition demo_cog_run :: "err option \<times> mem world" where
  "demo_cog_run = processBatchPayload demo_cog mem_redis demo_event demo_world"

lemma demo_cog_stored:
  "fst demo_cog_run = None \<and> map em_entity_name (db_entities (w_db (snd demo_cog_run))) = [''self'']"
proof -
  let ?mp = "batch_message_payload (demo_message 13 30)"
  let ?us = "[(cognitive_usage demo_cog ?mp 5)\<lparr>lu_ID := 9\<rparr>]"
  have rec: "Record 9 (cognitive_usage demo_cog ?mp 5) demo_db = (None, demo_db\<lparr>db_usage := ?us\<rparr>)"
    by (simp add: Record_def demo_faults) (simp add: demo_db_def empty_db_def)
  have ref: "ce_cod demo_cog = ref_codec" "ce_usage_id demo_cog = 9" "ce_llm demo_cog = demo_llm"
    by (simp_all add: demo_cog_def)
  have run: "process_messages demo_cog [demo_message 13 30, demo_message 12 20, demo_message 11 10] ?mp demo_db =
      store_extraction demo_cog ?mp \<lparr>ex_Facts = [demo_fact ''An''], ex_Events = [], ex_PersonaUpdates = []\<rparr>
        (demo_db\<lparr>db_usage := ?us\<rparr>)"
    by (subst process_messages_def, subst demo_prompt)
      (simp add: ref rec demo_llm_def demo_extraction_parsed)
  have enc: "EncryptValue ref_crypto (Crypto demo_key) (Some demo_nonce) v T =
      Inr (demo_nonce @ gcm_seal ref_crypto (deriveKey ref_crypto (Crypto demo_key) T) demo_nonce v)" for v T
    by (simp add: refc.encrypt_ok demo_nonce_def gcm_nonce_size_def)
  have stored: "map em_entity_name (db_entities (snd (store_facts demo_cog ?mp [demo_fact ''An''] (demo_db\<lparr>db_usage := ?us\<rparr>)))) = [''self'']"
    "fst (store_facts demo_cog ?mp [demo_fact ''An''] (demo_db\<lparr>db_usage := ?us\<rparr>)) = None"
    by (simp_all add: store_facts_def demo_cog_def enc demo_llm_def UpsertFactBatch_def send_batch_def demo_faults upsertFactCTE_eval
      insert_entity_row_def gen_uuid_def UpdateFactEmbeddingsBatch_def update_embedding_stmt_def)
     (simp_all add: batch_message_payload_def demo_message_def demo_db_def empty_db_def demo_fact_def pool_exec_def pool_call_def Let_def
        insert_entity_row_def gen_uuid_def message.defs fact_of_def current_def)
  have lower: "ToLower id ''name'' = ''name''" by (rule ToLower_lower) (simp_all add: byte_def)
  have "event_payloads demo_cog [] [demo_fact ''An''] = []"
    by (simp add: event_payloads_def birthday_event_def demo_cog_def demo_fact_def lower birthday_attributes_def ngay_sinh_def)
  moreover obtain d1 where d1: "store_facts demo_cog ?mp [demo_fact ''An''] (demo_db\<lparr>db_usage := ?us\<rparr>) = (None, d1)"
    using stored(2) by (metis prod.collapse)
  ultimately have "store_extraction demo_cog ?mp \<lparr>ex_Facts = [demo_fact ''An''], ex_Events = [], ex_PersonaUpdates = []\<rparr>
        (demo_db\<lparr>db_usage := ?us\<rparr>) = store_facts demo_cog ?mp [demo_fact ''An''] (demo_db\<lparr>db_usage := ?us\<rparr>)"
    by (simp add: store_extraction_def demo_unique store_events_def store_persona_def Let_def)
  then have res: "demo_cog_run = (fst (store_facts demo_cog ?mp [demo_fact ''An''] (demo_db\<lparr>db_usage := ?us\<rparr>)),
      \<lparr>w_db = snd (store_facts demo_cog ?mp [demo_fact ''An''] (demo_db\<lparr>db_usage := ?us\<rparr>)), w_redis = empty_mem\<rparr>)"
    using run by (simp add: demo_cog_run_def processBatchPayload_def demo_event_parsed ref demo_fetched on_db_def split_beta)
      (simp add: demo_world_def)
  show ?thesis unfolding res fst_conv snd_conv world.simps by (intro conjI stored)
qed

section \<open>The event\<close>

lemma parse_exp_batch_payload:
  assumes "valid_utf8 t" "valid_utf8 u" "valid_utf8 s" "valid_utf8 m"
  shows "parse_exp_batch (Json (batch_payload t u s n m)) =
    Inr \<lparr>bi_TenantID = t, bi_UserID = u, bi_SessionID = s, bi_BatchSize = 0, bi_LastMessageID = m\<rparr>"
  using assms
  by (simp add: parse_exp_batch_def exp_batch_fields_def unmarshal_def batch_payload_def batch_fields_def zero_batch_def
      unmarshal_struct_def text_simps batch_keys)

text \<open>C13: What the flusher publishes for a session is what the workers read: the event is added to the
  tenant's stream, and the cognitive worker reads from its payload the tenant, the session, the user of
  the newest message, twice the count and that message as anchor; the experience worker reads the same
  without the size.\<close>

theorem flushed_event_read_back:
  assumes "redis_store R ob" "reliable R" "go_codec cod" "valid_utf8 T" "valid_utf8 S" "int64 (n * 2)"
    and "fst (GetSessionHistory cod T S 1 [] (w_db w)) = Inr (m # ms)"
    and "length (obs_stream ob (w_redis w) (T @ '':stream:cognitive'')) < 10000"
  shows "\<exists>e. obs_stream ob (w_redis (flushSession R cod T S n w)) (T @ cognitiveStreamSuffix) =
      obs_stream ob (w_redis w) (T @ cognitiveStreamSuffix) @ [e] \<and>
    parse_batch (payload_of e) = Inr \<lparr>bi_TenantID = T, bi_UserID = uuid_String cod (msg_UserID m), bi_SessionID = S,
      bi_BatchSize = n * 2, bi_LastMessageID = uuid_String cod (msg_ID m)\<rparr> \<and>
    parse_exp_batch (payload_of e) = Inr \<lparr>bi_TenantID = T, bi_UserID = uuid_String cod (msg_UserID m), bi_SessionID = S,
      bi_BatchSize = 0, bi_LastMessageID = uuid_String cod (msg_ID m)\<rparr>"
proof -
  have "valid_utf8 (uuid_String cod u)" for u by (rule valid_utf8_ascii [OF go_codec.uuid_ascii [OF assms(3)]])
  then show ?thesis
    using redis_store.flush_publishes [OF assms(1,2,7,8) refl, of n] assms(4-6)
    by (simp add: cognitiveStreamSuffix_def payload_of_def parse_batch_payload parse_exp_batch_payload)
qed

theorem flushed_event_read_back_witness:
  "\<exists>e. obs_stream mem_observers (w_redis (flushSession mem_redis ref_codec (text_of 1) (text_of 3) 5 demo_world))
      (text_of 1 @ cognitiveStreamSuffix) = [e] \<and>
    parse_batch (payload_of e) = Inr \<lparr>bi_TenantID = text_of 1, bi_UserID = text_of 2, bi_SessionID = text_of 3,
      bi_BatchSize = 10, bi_LastMessageID = text_of 13\<rparr>"
proof -
  have h: "fst (GetSessionHistory ref_codec (text_of 1) (text_of 3) 1 [] (w_db demo_world)) = Inr (demo_message 13 30 # [])"
    using history_first_page [OF demo_faults, of ref_codec "text_of 1" 1 "text_of 3" 3 1]
    by (simp add: demo_history demo_world_def)
  have st: "obs_stream mem_observers (w_redis demo_world) k = []" for k
    by (simp add: demo_world_def empty_mem_def mem_observers_def)
  have "int64 (5 * 2)" by (simp add: int64_def)
  from flushed_event_read_back [OF mem.redis_store_axioms mem_reliable ref.go_codec_axioms demo_text_valid demo_text_valid this h]
  show ?thesis by (auto simp: st) (auto simp: demo_message_def)
qed

section \<open>What a run stores\<close>

text \<open>C5: Whatever the model answers, a run of the batch processing leaves in the table of facts only rows that
  were there, or rows of the newest message of the batch (its tenant, user, session and identifier, each in
  its own column) that hold a fact the validator accepts, its value hashed and encrypted for that
  message's tenant; and, when no statement of others runs at the same time, no fact has two current rows.\<close>

theorem batch_stores_vetted_facts:
  assumes "map_orders E" "processBatchPayload E R payload w = (r, w')" "single_current (w_db w)"
  shows "(\<forall>e \<in> set (db_entities (w_db w')). row_content e \<notin> row_content ` set (db_entities (w_db w)) \<longrightarrow>
      (\<exists>b m ms f nonce. parse_batch payload = Inr b \<and>
        fst (fetch_window R (ce_cod E) b (bi_BatchSize b) w) = Inr (m # ms) \<and>
        em_tenant_id e = msg_TenantID m \<and> em_user_id e = msg_UserID m \<and>
        em_session_id e = msg_SessionID m \<and> em_message_id e = msg_ID m \<and>
        ValidateExtractedFact f = None \<and> em_entity_name e = xf_EntityName f \<and>
        em_entity_type e = xf_EntityType f \<and> em_attribute e = xf_Attribute f \<and>
        em_source_quote e = xf_SourceQuote f \<and> em_value_hash e = ValueHash (ce_crypto_lib E) (xf_Value f) \<and>
        EncryptValue (ce_crypto_lib E) (ce_crypto E) nonce (xf_Value f) (uuid_String (ce_cod E) (msg_TenantID m)) =
          Inr (em_value_encrypted e))) \<and>
    single_current (w_db w')"
proof (intro conjI ballI impI)
  show "single_current (w_db w')" by (rule single_current_run [OF assms(2,3)])
  fix e assume "e \<in> set (db_entities (w_db w'))" "row_content e \<notin> row_content ` set (db_entities (w_db w))"
  from vetted_run [OF assms(1,2) this] obtain b m ms where "parse_batch payload = Inr b"
    "fst (fetch_window R (ce_cod E) b (bi_BatchSize b) w) = Inr (m # ms)" and row: "vetted_row E (batch_message_payload m) e"
    by blast
  moreover from row obtain f nonce where "ValidateExtractedFact f = None" "em_entity_name e = xf_EntityName f"
    "em_entity_type e = xf_EntityType f" "em_attribute e = xf_Attribute f" "em_source_quote e = xf_SourceQuote f"
    "em_value_hash e = ValueHash (ce_crypto_lib E) (xf_Value f)"
    "EncryptValue (ce_crypto_lib E) (ce_crypto E) nonce (xf_Value f) (uuid_String (ce_cod E) (msg_TenantID m)) =
      Inr (em_value_encrypted e)"
    unfolding vetted_row_def validate_iff by (auto simp: batch_message_payload_def)
  ultimately show "\<exists>b m ms f nonce. parse_batch payload = Inr b \<and>
      fst (fetch_window R (ce_cod E) b (bi_BatchSize b) w) = Inr (m # ms) \<and>
      em_tenant_id e = msg_TenantID m \<and> em_user_id e = msg_UserID m \<and>
      em_session_id e = msg_SessionID m \<and> em_message_id e = msg_ID m \<and>
      ValidateExtractedFact f = None \<and> em_entity_name e = xf_EntityName f \<and>
      em_entity_type e = xf_EntityType f \<and> em_attribute e = xf_Attribute f \<and>
      em_source_quote e = xf_SourceQuote f \<and> em_value_hash e = ValueHash (ce_crypto_lib E) (xf_Value f) \<and>
      EncryptValue (ce_crypto_lib E) (ce_crypto E) nonce (xf_Value f) (uuid_String (ce_cod E) (msg_TenantID m)) =
        Inr (em_value_encrypted e)"
    using row by (auto simp: vetted_row_def batch_message_payload_def)
qed

text \<open>The demonstration's event names tenant 1, user 2 and session 3; message 13 is the newest.\<close>

theorem batch_stores_vetted_facts_witness:
  "fst demo_cog_run = None \<and>
   (\<exists>e. db_entities (w_db (snd demo_cog_run)) = [e] \<and> em_entity_name e = ''self'' \<and> em_tenant_id e = 1 \<and>
      em_user_id e = 2 \<and> em_session_id e = 3 \<and> em_message_id e = 13)"
proof -
  have run: "processBatchPayload demo_cog mem_redis demo_event demo_world = (fst demo_cog_run, snd demo_cog_run)"
    by (simp add: demo_cog_run_def)
  have orders: "map_orders demo_cog" by (simp add: map_orders_def demo_cog_def)
  have empty: "single_current (w_db demo_world)" "db_entities (w_db demo_world) = []"
    by (simp_all add: demo_world_def) (simp add: demo_db_def empty_db_def)
  obtain e where e: "db_entities (w_db (snd demo_cog_run)) = [e]" "em_entity_name e = ''self''"
    using demo_cog_stored by auto
  have "ce_cod demo_cog = ref_codec" by (simp add: demo_cog_def)
  with batch_stores_vetted_facts [OF orders run empty(1)] e empty(2) have
    "em_tenant_id e = 1 \<and> em_user_id e = 2 \<and> em_session_id e = 3 \<and> em_message_id e = 13"
    by (auto simp: demo_event_parsed demo_fetched) (simp_all add: demo_message_def)
  with e demo_cog_stored show ?thesis by blast
qed

section \<open>Errors\<close>

text \<open>C17: How a delivery ends: it is acknowledged as done exactly when the processing returns no error; an event
  that cannot be parsed is never left pending; a failure is left pending only while fewer than eight attempts
  were made, and otherwise its letter (the payload, the number of attempts, the error's text) is in the stream of
  dead letters of the tenant after the run, unless the server refused that command (Dropped); it is
  then an unrecoverable error or the eighth attempt by the code's own count. A failure has changed no fact, memory,
  message or session.\<close>

theorem delivery_outcomes:
  assumes "stream_server G ob R" "handleStreamMessage E R G stream i payload retries w = (oc, w')"
  shows "(oc = Acked \<longleftrightarrow> fst (processBatchPayload E R payload w) = None) \<and>
    (oc \<in> {Failed, Dead, Dropped} \<longrightarrow> same_knowledge (w_db w) (w_db w')) \<and>
    (oc = Failed \<longrightarrow> retries + 1 < 8) \<and> (\<not> is_ok (parse_batch payload) \<longrightarrow> oc \<in> {Dead, Dropped}) \<and>
    (oc \<in> {Dead, Dropped} \<longrightarrow> (\<exists>e w1 letter. processBatchPayload E R payload w = (Some e, w1) \<and>
       (isUnrecoverable e \<or> 7 \<le> retries) \<and>
       letter = [(''payload'', payload), (''retries'', Text (Itoa (retries + 1))), (''error'', Text (error_text e))] \<and>
       (oc = Dead \<longrightarrow> letter_added ob stream letter (w_redis w1) (w_redis w')) \<and>
       (oc = Dropped \<longrightarrow> letter_refused R stream letter w1)))"
proof -
  note cases = stream_server.handle_cases [OF assms, case_names acked crashed dead failed]
  obtain r w1 where run: "processBatchPayload E R payload w = (r, w1)" by fastforce
  have bad: "\<not> is_ok (parse_batch payload) \<Longrightarrow> \<exists>e. r = Some (Unrecoverable e)"
    using run by (auto simp: processBatchPayload_def is_ok_def split: sum.splits)
  have settled: "\<exists>e w1. processBatchPayload E R payload w = (Some e, w1) \<and> (isUnrecoverable e \<or> 7 \<le> retries) \<and>
      (oc = Dead \<longrightarrow> letter_added ob stream (dead_letter payload retries e) (w_redis w1) (w_redis w')) \<and>
      (oc = Dropped \<longrightarrow> letter_refused R stream (dead_letter payload retries e) w1)" if oc: "oc \<in> {Dead, Dropped}"
    by (rule stream_server.dead_letter_written [OF assms oc]) (auto simp: cognitiveMaxRetries_def)
  have "same_knowledge (w_db w) (w_db w')" if oc: "oc \<in> {Failed, Dead, Dropped}"
  proof (cases rule: cases)
    case (dead e w2 x w3)
    then have "w_db w' = w_db w2" by (simp add: redis_do_db)
    with run_error [OF dead(2)] dead(3) show ?thesis by simp
  next
    case (failed e)
    with run_error show ?thesis by blast
  qed (use oc in auto)
  moreover have "oc = Failed \<Longrightarrow> retries + 1 < 8"
    by (cases rule: cases) (auto simp: cognitiveMaxRetries_def split: if_splits)
  moreover have "oc = Acked \<longleftrightarrow> fst (processBatchPayload E R payload w) = None"
    by (cases rule: cases) (auto split: if_splits)
  moreover have "oc \<in> {Dead, Dropped}" if "\<not> is_ok (parse_batch payload)"
    using bad [OF that] run by (cases rule: cases) (auto split: if_splits)
  ultimately show ?thesis using settled unfolding dead_letter_def by blast
qed

text \<open>The model's service is down: the seventh delivery stays pending, the eighth is dead-lettered.\<close>

definition demo_down :: cog_env where
  "demo_down = demo_cog\<lparr>ce_llm := demo_llm\<lparr>Generate := \<lambda>_. Inl (Err ''timeout'')\<rparr>\<rparr>"

definition demo_gm_world :: "group_mem world" where
  "demo_gm_world = \<lparr>w_db = demo_db, w_redis = empty_group_mem\<rparr>"

lemma demo_gm_world_fetched:
  "fetch_window gm_redis ref_codec \<lparr>bi_TenantID = text_of 1, bi_UserID = text_of 2, bi_SessionID = text_of 3,
     bi_BatchSize = 10, bi_LastMessageID = text_of 13\<rparr> 10 demo_gm_world =
   (Inr [demo_message 13 30, demo_message 12 20, demo_message 11 10], demo_gm_world)"
  by (simp add: fetch_window_def GetRawMessagesUntil_def redis_do_def gm_redis_def demo_gm_world_def empty_group_mem_def
      empty_mem_def on_db_def GetRecentMessagesUntil_def anchor_time_def GetRecentMessages_def demo_faults newest_first_def
      message_time_def demo_db_def empty_db_def demo_message_def in_session_def order_desc_def sql_limit_def)

lemma demo_down_run:
  "processBatchPayload demo_down gm_redis demo_event demo_gm_world = (Some (Err ''timeout''), demo_gm_world)"
proof -
  have "process_messages demo_down ms mp demo_db = (Some (Err ''timeout''), demo_db)" for ms mp
    by (subst process_messages_def, subst demo_prompt) (simp add: demo_down_def)
  then show ?thesis
    by (simp add: processBatchPayload_def demo_event_parsed demo_gm_world_fetched on_db_def demo_down_def demo_cog_def)
      (simp add: demo_gm_world_def)
qed

theorem delivery_outcomes_witness:
  "fst (handleStreamMessage demo_down gm_redis gm_groups ''t:stream:cognitive'' ''1'' demo_event 6 demo_gm_world) = Failed \<and>
   (\<exists>w'. handleStreamMessage demo_down gm_redis gm_groups ''t:stream:cognitive'' ''1'' demo_event 7 demo_gm_world = (Dead, w') \<and>
      same_knowledge demo_db (w_db w') \<and>
      letter_added gm_observers ''t:stream:cognitive''
        [(''payload'', demo_event), (''retries'', Text ''8''), (''error'', Text ''timeout'')] empty_group_mem (w_redis w'))"
proof -
  let ?h = "\<lambda>n. handleStreamMessage demo_down gm_redis gm_groups ''t:stream:cognitive'' ''1'' demo_event n demo_gm_world"
  have 6: "fst (?h 6) = Failed"
    by (simp add: handleStreamMessage_def demo_down_run cognitiveMaxRetries_def)
  have 7: "?h 7 = (Dead, snd (?h 7))"
    by (simp add: handleStreamMessage_def demo_down_run cognitiveMaxRetries_def Let_def split_beta gm_redis_xadd)
  have "Itoa 8 = ''8''" by code_simp
  moreover have "w_db demo_gm_world = demo_db" "w_redis demo_gm_world = empty_group_mem" by (simp_all add: demo_gm_world_def)
  ultimately show ?thesis
    using delivery_outcomes [OF gms.stream_server_axioms 7] 6 7 by (auto simp: demo_down_run)
qed

section \<open>Repetition\<close>

text \<open>C9: A run that is delivered again, with other nonces, another answer time and other map orders, changes no
  fact: when all facts of a batch were encrypted and the batch was committed, the second run leaves
  every row as it was except for its embedding.\<close>

theorem redelivery_idempotent:
  assumes "map_orders E" "map_orders E'" "ce_crypto_lib E' = ce_crypto_lib E"
    and "length (fact_items E mp (unique_facts fs)) = length (unique_facts fs)"
    and "fst (send_batch (upsert_items mp (fact_items E mp (unique_facts fs))) d) = Inr ()"
    and "single_current d"
    and "store_facts E mp (unique_facts fs) d = (r1, d1)" "store_facts E' mp (unique_facts fs) d1 = (r2, d2)"
  shows "same_history (db_entities d1) d2 \<and> current_hash d2 = current_hash d1"
proof
  show same: "same_history (db_entities d1) d2" by (rule redelivered [OF assms])
  show "current_hash d2 = current_hash d1"
    by (rule same_history_hash [OF _ same]) (simp add: same_history_def)
qed

text \<open>The second run has another nonce.\<close>

definition demo_cog_again :: cog_env where
  "demo_cog_again = demo_cog\<lparr>ce_nonce := \<lambda>_. Some (replicate 12 (CHR ''m''))\<rparr>"

theorem redelivery_idempotent_witness:
  "same_history (db_entities (snd (store_facts demo_cog demo_payload [demo_fact ''An''] demo_db)))
     (snd (store_facts demo_cog_again demo_payload [demo_fact ''An'']
        (snd (store_facts demo_cog demo_payload [demo_fact ''An''] demo_db))))"
proof -
  have enc: "EncryptValue ref_crypto (Crypto demo_key) (Some demo_nonce) v T =
      Inr (demo_nonce @ gcm_seal ref_crypto (deriveKey ref_crypto (Crypto demo_key) T) demo_nonce v)" for v T
    by (simp add: refc.encrypt_ok demo_nonce_def gcm_nonce_size_def)
  have items: "length (fact_items demo_cog demo_payload [demo_fact ''An'']) = 1"
    by (simp add: fact_items_def demo_cog_def enc)
  have "fst (send_batch (upsert_items demo_payload (fact_items demo_cog demo_payload [demo_fact ''An''])) demo_db) = Inr ()"
    by (simp add: upsert_items_def fact_items_def demo_cog_def enc send_batch_def pool_exec_def pool_call_def demo_faults
        upsertFactCTE_eval insert_entity_row_def gen_uuid_def Let_def)
      (simp add: demo_db_def empty_db_def demo_payload_def demo_message_def demo_fact_def message.defs fact_of_def
        current_def insert_entity_row_def gen_uuid_def Let_def)
  moreover have "map_orders demo_cog" "map_orders demo_cog_again" "ce_crypto_lib demo_cog_again = ce_crypto_lib demo_cog"
    by (simp_all add: map_orders_def demo_cog_again_def demo_cog_def)
  ultimately show ?thesis
    using redelivery_idempotent [of demo_cog demo_cog_again demo_payload "[demo_fact ''An'']" demo_db] items
    by (simp add: demo_unique split_beta prod_eq_iff)
qed

end
