(* ===== verification/TurnProperties.thy ===== *)
theory TurnProperties
  imports Demo
begin

text \<open>
  Properties of what a stored turn sets off: the batch trigger of the append handler, the cache at the
  first turn after its list has expired, the keyword gate and the slice of the experience worker, and
  the embedding of a tenant's messages.
\<close>

section \<open>The batch trigger\<close>

text \<open>C12: A user turn either leaves the session's counter one higher and the session active, or, when that makes
  it reach the batch size, resets it, takes the session out of the active set and publishes one event
  with twice the count and the turn's message as anchor; another role's turn changes nothing.\<close>

theorem batch_trigger:
  assumes "redis_store R ob" "reliable R" "counters_ok ob w" "0 < batch"
    and "is_ok (fst (IncrementCognitiveBatch R (ar_TenantID req) (ar_SessionID req) now w))"
    and "length (obs_stream ob (w_redis w) (ar_TenantID req @ '':stream:cognitive'')) < 10000"
    and "n = pending ob (ar_TenantID req) (ar_SessionID req) w + 1"
    and "w' = batch_check R cod batch req i now w"
  shows "(ar_Role req \<noteq> ''user'' \<longrightarrow> w' = w) \<and>
    (ar_Role req = ''user'' \<and> n < batch \<longrightarrow>
       pending ob (ar_TenantID req) (ar_SessionID req) w' = n \<and>
       active_member (ar_TenantID req) (ar_SessionID req) \<in> snd ` set (active ob w') \<and>
       obs_stream ob (w_redis w') (ar_TenantID req @ '':stream:cognitive'') =
         obs_stream ob (w_redis w) (ar_TenantID req @ '':stream:cognitive'')) \<and>
    (ar_Role req = ''user'' \<and> batch \<le> n \<longrightarrow>
       pending ob (ar_TenantID req) (ar_SessionID req) w' = 0 \<and>
       active_member (ar_TenantID req) (ar_SessionID req) \<notin> snd ` set (active ob w') \<and>
       obs_stream ob (w_redis w') (ar_TenantID req @ '':stream:cognitive'') =
         obs_stream ob (w_redis w) (ar_TenantID req @ '':stream:cognitive'') @
         [[(''payload'', Json (batch_payload (ar_TenantID req) (ar_UserID req) (ar_SessionID req) (n * 2) (uuid_String cod i))),
           (''retries'', Text ''0'')]])"
proof -
  have user: "ar_Role req = ''user'' \<Longrightarrow> ?thesis"
    using redis_store.batch_check_user [OF assms(1-3) _ assms(5,6,8)] unfolding assms(7) [symmetric]
    by (cases "batch \<le> n") auto
  show ?thesis
  proof (cases "ar_Role req = ''user''")
    case False
    with assms(4,8) show ?thesis by (simp add: batch_check_other)
  qed (rule user)
qed

definition demo_turn :: AppendRequest where
  "demo_turn = \<lparr>ar_TenantID = ''t'', ar_UserID = ''u'', ar_SessionID = ''s'', ar_Role = ''user'', ar_Content = ''hi''\<rparr>"

theorem batch_trigger_witness:
  "obs_stream mem_observers (w_redis (batch_check mem_redis ref_codec 1 demo_turn 14 0 demo_world)) ''t:stream:cognitive'' =
     [[(''payload'', Json (batch_payload ''t'' ''u'' ''s'' 2 (text_of 14))), (''retries'', Text ''0'')]]"
proof -
  have "is_ok (fst (IncrementCognitiveBatch mem_redis ''t'' ''s'' 0 demo_world))"
    by (simp add: IncrementCognitiveBatch_def redis_do_def demo_world_def empty_mem_def int64_def)
  moreover have "obs_stream mem_observers (w_redis demo_world) k = []" "pending mem_observers ''t'' ''s'' demo_world = 0" for k
    by (simp_all add: demo_world_def empty_mem_def mem_observers_def pending_def)
  ultimately show ?thesis
    using batch_trigger [OF mem.redis_store_axioms mem_reliable demo_counters, of 1 demo_turn 0 1 _ ref_codec 14]
    by (simp add: demo_turn_def)
qed

section \<open>The cache after its list has expired\<close>

text \<open>C37: When the cached list of a session is gone, the append that follows the storing of a message puts that
  message into the list twice: the reload already reads it from the database, and the append adds it
  once more.\<close>

theorem expired_cache_duplicates:
  assumes "redis_store R ob" "go_codec cod"
    and "InsertMessage m (w_db w) = (None, d')" "db_faults (w_db w) = []"
    and "\<And>r. r \<in> set (db_messages (w_db w)) \<Longrightarrow> msg_CreatedAt r < db_now (w_db w)"
    and "cached ob (uuid_String cod (msg_TenantID m)) (uuid_String cod (msg_SessionID m)) w = []"
    and "\<not> obs_other ob (w_redis w) (msgs_key (uuid_String cod (msg_TenantID m)) (uuid_String cod (msg_SessionID m)))"
    and "AppendMessages R cod (uuid_String cod (msg_TenantID m)) (uuid_String cod (msg_SessionID m)) [m]
      (w\<lparr>w_db := d'\<rparr>) = (None, w')"
  shows "take 2 (cached ob (uuid_String cod (msg_TenantID m)) (uuid_String cod (msg_SessionID m)) w') =
    [marshal_message cod m, marshal_message cod (m\<lparr>msg_CreatedAt := db_now (w_db w)\<rparr>)]"
  by (rule cache_store.append_after_insert_duplicates [OF cache_store.intro [OF assms(1,2)] assms(3-8)])

theorem expired_cache_duplicates_witness:
  "take 2 (cached mem_observers (text_of 1) (text_of 3)
      (snd (AppendMessages mem_redis ref_codec (text_of 1) (text_of 3) [demo_message 14 100]
        (demo_world\<lparr>w_db := snd (InsertMessage (demo_message 14 100) demo_db)\<rparr>)))) =
     [marshal_message ref_codec (demo_message 14 100), marshal_message ref_codec (demo_message 14 100)]"
proof -
  let ?w = "snd (AppendMessages mem_redis ref_codec (text_of 1) (text_of 3) [demo_message 14 100]
        (demo_world\<lparr>w_db := snd (InsertMessage (demo_message 14 100) demo_db)\<rparr>))"
  have ins: "InsertMessage (demo_message 14 100) (w_db demo_world) = (None, snd (InsertMessage (demo_message 14 100) demo_db))"
    unfolding demo_world_def by (intro prod_eqI) (simp_all, code_simp)
  have up: "db_faults (w_db demo_world) = []" by (simp add: demo_world_def demo_faults)
  have old: "r \<in> set (db_messages (w_db demo_world)) \<Longrightarrow> msg_CreatedAt r < db_now (w_db demo_world)" for r
    by (auto simp: demo_world_def demo_db_def empty_db_def demo_message_def message.defs)
  have miss: "cached mem_observers T S demo_world = []" "\<not> obs_other mem_observers (w_redis demo_world) k" for T S k
    by (simp_all add: cached_def demo_world_def mem_observers_def empty_mem_def mem_other_def)
  have app: "AppendMessages mem_redis ref_codec (text_of 1) (text_of 3) [demo_message 14 100]
      (demo_world\<lparr>w_db := snd (InsertMessage (demo_message 14 100) demo_db)\<rparr>) = (None, ?w)"
    using mem.append_reliable [OF mem_reliable, of ref_codec "text_of 1" "text_of 3"] by (simp add: prod_eq_iff)
  have ids: "msg_TenantID (demo_message 14 100) = 1" "msg_SessionID (demo_message 14 100) = 3"
    "(demo_message 14 100)\<lparr>msg_CreatedAt := db_now (w_db demo_world)\<rparr> = demo_message 14 100"
    by (simp_all add: demo_message_def demo_world_def demo_db_def empty_db_def)
  from expired_cache_duplicates [OF mem.redis_store_axioms ref.go_codec_axioms ins up old] miss app
  show ?thesis by (simp add: ids)
qed

section \<open>The keyword gate\<close>

text \<open>C33: A batch whose newest eight messages hold no keyword does not reach the model unless it is a third one;
  and the slice of a conversation that is sent begins one message before the first one with a keyword,
  so that no message with a keyword is cut off.\<close>

theorem experience_gate:
  assumes "parse_exp_batch payload = Inr b" "fetch_window R (xe_cod E) b experienceWindowSize w = (Inr msgs, w1)"
    and "msgs \<noteq> []"
  shows "((n + 1) mod 3 \<noteq> 0 \<and> \<not> hasTier1Signal (xe_lower E) (rev (take 8 msgs)) \<longrightarrow>
      processPayload E R n payload w = (None, n + 1, w1)) \<and>
    (hasTier1Signal (xe_lower E) (rev msgs) \<longrightarrow>
      (\<exists>pre ctx m post. rev msgs = pre @ ctx @ m # post \<and> findSmartSlice (xe_lower E) (rev msgs) = ctx @ m # post \<and>
        has_keyword (xe_lower E) m \<and> \<not> hasTier1Signal (xe_lower E) (pre @ ctx) \<and>
        length ctx = min 1 (length (pre @ ctx))))"
  using gate_closed [OF assms, of n] findSmartSlice_split [of "xe_lower E" "rev msgs"] by blast

text \<open>A conversation whose second turn asks to remember something, followed by eight that say nothing; the batch
  count is zero.\<close>

definition chat :: "nat \<Rightarrow> message" where
  "chat i = (demo_message (of_nat i) (10 * int i))\<lparr>msg_Content := if i = 2 then ''remember'' else ''hi''\<rparr>"

definition chat_newest :: "message list" where
  "chat_newest = map chat [10, 9, 8, 7, 6, 5, 4, 3, 2, 1]"

definition chat_world :: "mem world" where
  "chat_world = demo_world\<lparr>w_db := demo_db\<lparr>db_messages := map (\<lambda>m. message.extend m \<lparr>msg_embedding = None\<rparr>) chat_newest\<rparr>\<rparr>"

definition chat_info :: batch_info where
  "chat_info = \<lparr>bi_TenantID = text_of 1, bi_UserID = text_of 2, bi_SessionID = text_of 3, bi_BatchSize = 0,
     bi_LastMessageID = []\<rparr>"

definition chat_event :: bulk where
  "chat_event = Json (batch_payload (text_of 1) (text_of 2) (text_of 3) 10 [])"

definition chat_env :: exp_env where
  "chat_env = \<lparr>xe_cod = ref_codec, xe_crypto_lib = ref_crypto, xe_master_key = ''k'', xe_lower = id, xe_upper = id,
     xe_search = \<lparr>fts_match = (\<lambda>_ _. False), trgm_match = (\<lambda>_ _. False), fts_rank = (\<lambda>_ _. 0), vec_dist = (\<lambda>_ _. 0),
       collation = (\<lambda>_. 0)\<rparr>,
     xe_llm = \<lparr>Generate = (\<lambda>_. Inl (Err ''no model'')), Embed = (\<lambda>_. Inr [1]), EmbedBatch = (\<lambda>_. Inr []), ModelName = ''m''\<rparr>,
     xe_prompt = [], xe_now_text = []\<rparr>"

lemma chat_keyword: "has_keyword id (chat i) \<longleftrightarrow> i = 2"
proof -
  have "ToLower id ''hi'' = ''hi''" "ToLower id ''remember'' = ''remember''"
    by (rule ToLower_lower; simp add: byte_def)+
  moreover have "\<not> contains ''hi'' k" if "k \<in> set tier1Keywords" for k
  proof -
    have "list_all (\<lambda>k. 2 < length k) tier1Keywords" by (simp add: tier1Keywords_def)
    with that have "2 < length k" by (simp add: list_all_iff)
    then show ?thesis by (auto simp: contains_iff dest!: arg_cong [where f = length])
  qed
  moreover have "''remember'' \<in> set tier1Keywords" by (simp add: tier1Keywords_def)
  moreover have "contains ''remember'' ''remember''" by simp
  ultimately show ?thesis by (auto simp: has_keyword_def chat_def demo_message_def Let_def list_ex_iff simp del: contains.simps)
qed

lemma chat_fetched:
  "fetch_window mem_redis ref_codec chat_info experienceWindowSize chat_world = (Inr chat_newest, chat_world)"
proof -
  have "db_faults (w_db chat_world) = []" by code_simp
  moreover have "take 20 (newest_first (in_session 1 3) (w_db chat_world)) = chat_newest" by code_simp
  ultimately have "GetSessionHistory ref_codec (text_of 1) (text_of 3) 20 [] (w_db chat_world) = (Inr chat_newest, w_db chat_world)"
    using history_first_page [of "w_db chat_world" ref_codec "text_of 1" 1 "text_of 3" 3 20] by simp
  moreover have "redis_do mem_redis (LRANGE k i j) chat_world = (Inr (RList []), chat_world)" for k i j
    by (simp add: redis_do_def chat_world_def demo_world_def empty_mem_def redis_range_def)
  moreover obtain m ms where "m # ms = chat_newest" by (simp add: chat_newest_def)
  ultimately show ?thesis
    by (auto simp: fetch_window_def chat_info_def GetRawMessagesUntil_def GetRawMessages_def on_db_def experienceWindowSize_def
        dest: sym split: list.splits)
qed

theorem experience_gate_witness:
  "processPayload chat_env mem_redis 0 chat_event chat_world = (None, 1, chat_world) \<and>
   (\<exists>ctx m post. findSmartSlice id (rev chat_newest) = ctx @ m # post \<and> has_keyword id m \<and> length ctx \<le> 1)"
proof -
  have valid: "valid_utf8 (text_of u)" for u
    unfolding text_of_def by (rule valid_utf8_ascii [OF ref.uuid_ascii])
  have env: "xe_cod chat_env = ref_codec" "xe_lower chat_env = id" by (simp_all add: chat_env_def)
  have p: "parse_exp_batch chat_event = Inr chat_info"
    using valid
    by (simp add: chat_event_def chat_info_def parse_exp_batch_def exp_batch_fields_def unmarshal_def batch_payload_def
      batch_fields_def zero_batch_def unmarshal_struct_def text_simps batch_keys)
  have f: "fetch_window mem_redis (xe_cod chat_env) chat_info experienceWindowSize chat_world = (Inr chat_newest, chat_world)"
    by (simp add: env chat_fetched)
  have "chat_newest \<noteq> []" "\<not> hasTier1Signal id (rev (take 8 chat_newest))" "hasTier1Signal id (rev chat_newest)"
    by (simp_all add: chat_newest_def hasTier1Signal_def chat_keyword)
  note chat = this
  from experience_gate [OF p f chat(1), of 0] chat(2,3) show ?thesis by (fastforce simp: env)
qed

section \<open>The embedding of a tenant's messages\<close>

text \<open>C32: Embedding a tenant's batch writes all of its vectors or none: either the tables are as they were, or
  exactly the stored messages that the batch names have got the model's vectors, each the vector of its
  own text, and nothing else of any message has changed.\<close>

theorem tenant_batch_embedded:
  assumes "go_codec (em_cod E)" "distinct (map msg_ID (db_messages (w_db w)))"
    and "processTenantBatch E R payloads w = (r, w')"
    and "asked = filter (\<lambda>m. uuid_String (em_cod E) (msg_ID m) \<in>
           set (map (\<lambda>p. uuid_String (em_cod E) (mp_MessageID p)) payloads)) (db_messages (w_db w))"
  shows "same_tables (w_db w) (w_db w') \<or>
    (\<exists>vs. db_messages (w_db w') = with_vectors (em_cod E) vs (db_messages (w_db w)) \<and>
       map fst vs = map (\<lambda>m. uuid_String (em_cod E) (msg_ID m)) asked \<and>
       EmbedBatch (em_llm E) (map msg_Content asked) = Inr (map snd vs))"
  using tenant_batch_all_or_nothing [OF assms(1-3)] unfolding assms(4) .

definition demo_embedder :: embed_env where
  "demo_embedder = \<lparr>em_cod = ref_codec,
     em_llm = \<lparr>Generate = (\<lambda>_. Inl (Err ''no model'')), Embed = (\<lambda>_. Inr [1]), EmbedBatch = (\<lambda>ts. Inr (map (\<lambda>_. [1]) ts)),
       ModelName = ''m''\<rparr>,
     em_consumer = ''c'', em_order = (\<lambda>ts. ts)\<rparr>"

lemma demo_embedded:
  "map msg_embedding (db_messages (w_db (snd (processTenantBatch demo_embedder mem_redis [demo_payload] demo_world)))) =
     [Some [1], None, None]"
proof -
  have ids: "text_of i = text_of j \<longleftrightarrow> i = j" for i j
    by (metis option.inject text_of_simps(2))
  show ?thesis
    by (simp add: processTenantBatch_def demo_embedder_def message_records_def on_db_def demo_world_def pool_query_def
        pool_call_def demo_faults send_batch_def pool_exec_def publish_all_db redis_do_def demo_payload_def Let_def split_beta)
      (simp add: demo_db_def empty_db_def demo_message_def message.defs ids set_embedding_def)
qed

theorem tenant_batch_embedded_witness:
  "\<exists>vs. db_messages (w_db (snd (processTenantBatch demo_embedder mem_redis [demo_payload] demo_world))) =
      with_vectors ref_codec vs (db_messages demo_db) \<and> map fst vs = [text_of 11] \<and> map snd vs = [[1]]"
proof -
  let ?w = "snd (processTenantBatch demo_embedder mem_redis [demo_payload] demo_world)"
  have "\<not> same_tables demo_db (w_db ?w)"
    using demo_embedded by (auto simp: same_tables_def demo_db_def empty_db_def message.defs)
  moreover have ids: "text_of i = text_of j \<longleftrightarrow> i = j" for i j
    by (metis option.inject text_of_simps(2))
  have "filter (\<lambda>m. text_of (msg_ID m) = text_of 11) (db_messages demo_db) =
      [message.extend (demo_message 11 10) \<lparr>msg_embedding = None\<rparr>]"
    by (simp add: ids demo_db_def empty_db_def demo_message_def message.defs)
  moreover have "w_db demo_world = demo_db" "em_cod demo_embedder = ref_codec"
    "EmbedBatch (em_llm demo_embedder) = (\<lambda>ts. Inr (map (\<lambda>_. [1]) ts))" "mp_MessageID demo_payload = 11"
    by (simp_all add: demo_world_def demo_embedder_def demo_payload_def)
  ultimately show ?thesis
    using tenant_batch_embedded [of demo_embedder demo_world mem_redis "[demo_payload]" _ ?w] demo_ids ref.go_codec_axioms
    by (simp add: prod_eq_iff message.defs demo_message_def) metis
qed

end
