(* ===== verification/System.thy ===== *)
theory System
  imports Statements
begin

text \<open>
  The whole system on one database: requests of the API server, runs of the workers, the tickers and
  single statements of processes that are in the middle of their work, in any order. What every such
  history keeps as long as no two statements run at the same time: the referential integrity of the schema,
  one current row for each fact, distinct persona traits, and the bounds of importance, confidence and counters.
\<close>

definition knowledge_ok :: "pg_json \<Rightarrow> db \<Rightarrow> bool" where
  "knowledge_ok J d \<longleftrightarrow> integrity d \<and> single_current d \<and> memory_ok J d \<and> experiences_ok d"

section \<open>Which tables a statement touches\<close>

interpretation beside_messages: table_invariant "\<lambda>d. (db_entities d, db_memories d, db_experiences d) = x" for x
  by unfold_locales (auto simp: same_tables_def)

interpretation beside_facts: table_invariant "\<lambda>d. (db_sessions d, db_messages d, db_memories d, db_experiences d) = x" for x
  by unfold_locales (auto simp: same_tables_def)

interpretation beside_memories: outside_memories "\<lambda>d. (db_sessions d, db_messages d, db_entities d, db_experiences d) = x" for x
  by unfold_locales auto

interpretation beside_experiences: table_invariant "\<lambda>d. (db_sessions d, db_messages d, db_entities d, db_memories d) = x" for x
  by unfold_locales (auto simp: same_tables_def)

lemma part_congs:
  "db_sessions d' = db_sessions d \<Longrightarrow> db_messages d' = db_messages d \<Longrightarrow> db_entities d' = db_entities d \<Longrightarrow>
     integrity d' = integrity d"
  "db_entities d' = db_entities d \<Longrightarrow> single_current d' = single_current d"
  "db_memories d' = db_memories d \<Longrightarrow> memory_ok J d' = memory_ok J d"
  "db_experiences d' = db_experiences d \<Longrightarrow> experiences_ok d' = experiences_ok d"
  by (simp_all add: integrity_def session_exists_def single_current_def memory_ok_def importance_ok_def
      traits_distinct_def experiences_ok_def)

lemma knowledge_parts:
  "db_entities d' = db_entities d \<Longrightarrow> db_memories d' = db_memories d \<Longrightarrow> db_experiences d' = db_experiences d \<Longrightarrow>
     (integrity d \<Longrightarrow> integrity d') \<Longrightarrow> knowledge_ok J d \<Longrightarrow> knowledge_ok J d'"
  "db_sessions d' = db_sessions d \<Longrightarrow> db_messages d' = db_messages d \<Longrightarrow> db_memories d' = db_memories d \<Longrightarrow>
     db_experiences d' = db_experiences d \<Longrightarrow> (integrity d \<Longrightarrow> integrity d') \<Longrightarrow>
     (single_current d \<Longrightarrow> single_current d') \<Longrightarrow> knowledge_ok J d \<Longrightarrow> knowledge_ok J d'"
  "db_sessions d' = db_sessions d \<Longrightarrow> db_messages d' = db_messages d \<Longrightarrow> db_entities d' = db_entities d \<Longrightarrow>
     db_experiences d' = db_experiences d \<Longrightarrow> (memory_ok J d \<Longrightarrow> memory_ok J d') \<Longrightarrow> knowledge_ok J d \<Longrightarrow> knowledge_ok J d'"
  "db_sessions d' = db_sessions d \<Longrightarrow> db_messages d' = db_messages d \<Longrightarrow> db_entities d' = db_entities d \<Longrightarrow>
     db_memories d' = db_memories d \<Longrightarrow> (experiences_ok d \<Longrightarrow> experiences_ok d') \<Longrightarrow> knowledge_ok J d \<Longrightarrow> knowledge_ok J d'"
  unfolding knowledge_ok_def using part_congs [of d' d] by blast+

lemma knowledge_tables: "same_tables d d' \<Longrightarrow> knowledge_ok J d \<Longrightarrow> knowledge_ok J d'"
  by (rule knowledge_parts(1)) (auto simp: same_tables_def intro: integrity_tables [unfolded same_tables_def])

section \<open>Messages and sessions\<close>

lemma messages_beside:
  "InsertMessage m d = (r, d') \<Longrightarrow> (db_entities d', db_memories d', db_experiences d') = (db_entities d, db_memories d, db_experiences d)"
  "CreateSession s d = (r, d') \<Longrightarrow> (db_entities d', db_memories d', db_experiences d') = (db_entities d, db_memories d, db_experiences d)"
  "DeleteSession cod t i d = (q, d') \<Longrightarrow> (db_entities d', db_memories d', db_experiences d') = (db_entities d, db_memories d, db_experiences d)"
  by (auto simp: InsertMessage_def CreateSession_def DeleteSession_def pool_exec_def ensure_session_def insert_message_row_def
      create_session_row_def delete_session_row_def exec_uuid_def same_tables_def
      split: prod.splits option.splits sum.splits if_splits dest!: apfst_err_of pool_call_tables)

lemma set_embedding_parts:
  assumes "send_batch (map (\<lambda>((i, _), v). set_embedding cod i v) (zip records vs)) d = (u, d')"
  shows "(db_entities d', db_memories d', db_experiences d') = (db_entities d, db_memories d, db_experiences d)"
    and "integrity d \<Longrightarrow> integrity d'"
proof -
  show "(db_entities d', db_memories d', db_experiences d') = (db_entities d, db_memories d, db_experiences d)"
    by (rule beside_messages.batch_keeps [OF _ assms]) (auto simp: set_embedding_def)
  have "integrity (a\<lparr>db_messages := update_where p (\<lambda>m. m\<lparr>msg_embedding := w\<rparr>) (db_messages a)\<rparr>)" if "integrity a" for a p w
    using that by (auto simp: integrity_def session_exists_def set_update_where map_update_where_same)
  then show "integrity d \<Longrightarrow> integrity d'"
    by (intro integ.batch_keeps [OF _ assms]) (auto simp: set_embedding_def)
qed

section \<open>Facts\<close>

lemma upsert_seeing_beside:
  "upsert_seeing seen mp f e h d = (r, d') \<Longrightarrow>
     (db_sessions d', db_messages d', db_memories d', db_experiences d') =
     (db_sessions d, db_messages d, db_memories d, db_experiences d)"
  by (erule upsert_seeing_cases) (auto simp: same_tables_def)

lemma upsert_seeing_integrity:
  assumes "upsert_seeing seen mp f e h d = (r, d')" "integrity d"
  shows "integrity d'"
  using assms(1)
proof (cases rule: upsert_seeing_cases)
  case (failed x)
  then show ?thesis using assms(2) by (auto intro: integrity_tables)
next
  case (replaced old i)
  have "\<exists>r \<in> set rs. em_message_id x = em_message_id r" if "x \<in> set (invalidate j now rs)" for x j now rs
    using that by (auto simp: invalidate_def set_update_where split: if_splits)
  with replaced assms(2) show ?thesis
    by (fastforce simp: integrity_def session_exists_def inserted_row_def)
qed (use assms(2) in \<open>auto simp: integrity_def session_exists_def inserted_row_def\<close>)

lemmas upsert_beside = upsert_seeing_beside [where seen = "\<lambda>_. True", folded upsertFactCTE_def]
  and upsert_integrity = upsert_seeing_integrity [where seen = "\<lambda>_. True", folded upsertFactCTE_def]

lemma update_embedding_parts:
  assumes "update_embedding_stmt cod t u f v d = (r, d')"
  shows "(db_sessions d', db_messages d', db_memories d', db_experiences d') =
      (db_sessions d, db_messages d, db_memories d, db_experiences d)"
    and "integrity d \<Longrightarrow> integrity d'"
  using assms
  by (auto simp: update_embedding_stmt_def exec_uuid_def integrity_def session_exists_def set_update_where
      split: option.splits if_splits)

lemma fact_batch_parts:
  assumes "UpsertFactBatch mp fs es hs d = (r, d')"
  shows "(db_sessions d', db_messages d', db_memories d', db_experiences d') =
      (db_sessions d, db_messages d, db_memories d, db_experiences d)"
    and "integrity d \<Longrightarrow> integrity d'"
proof (atomize (full), cases "length hs < length fs \<or> length es < length fs")
  case False
  let ?qs = "upsert_items mp (zip fs (zip es hs))"
  obtain u d1 where one: "send_batch ?qs d = (u, d1)" by fastforce
  with assms False have "d' = d1" by (simp add: UpsertFactBatch_items not_less)
  moreover have "(db_sessions d1, db_messages d1, db_memories d1, db_experiences d1) =
      (db_sessions d, db_messages d, db_memories d, db_experiences d)"
    by (rule beside_facts.batch_keeps [OF _ one]) (auto simp: upsert_items_def dest!: upsert_beside)
  moreover have "integrity d \<Longrightarrow> integrity d1"
    by (intro integ.batch_keeps [OF _ one]) (auto simp: upsert_items_def intro: upsert_integrity)
  ultimately show "(db_sessions d', db_messages d', db_memories d', db_experiences d') =
      (db_sessions d, db_messages d, db_memories d, db_experiences d) \<and> (integrity d \<longrightarrow> integrity d')" by blast
qed (use assms in \<open>simp add: UpsertFactBatch_def\<close>)

lemma fact_vectors_parts:
  assumes "UpdateFactEmbeddingsBatch cod t u fs vs d = (r, d')"
  shows "(db_sessions d', db_messages d', db_memories d', db_experiences d') =
      (db_sessions d, db_messages d, db_memories d, db_experiences d)"
    and "integrity d \<Longrightarrow> integrity d'"
proof (atomize (full), cases "fs = []")
  case False
  let ?qs = "map (\<lambda>(f, v). update_embedding_stmt cod t u f v) (filter (\<lambda>(f, v). v \<noteq> []) (zip fs vs))"
  obtain q d1 where one: "send_batch ?qs d = (q, d1)" by fastforce
  with assms False have "d' = d1" by (simp add: UpdateFactEmbeddingsBatch_def)
  moreover have "(db_sessions d1, db_messages d1, db_memories d1, db_experiences d1) =
      (db_sessions d, db_messages d, db_memories d, db_experiences d)"
    by (rule beside_facts.batch_keeps [OF _ one]) (auto dest!: update_embedding_parts)
  moreover have "integrity d \<Longrightarrow> integrity d1"
    by (intro integ.batch_keeps [OF _ one]) (auto intro: update_embedding_parts(2))
  ultimately show "(db_sessions d', db_messages d', db_memories d', db_experiences d') =
      (db_sessions d, db_messages d, db_memories d, db_experiences d) \<and> (integrity d \<longrightarrow> integrity d')" by blast
qed (use assms in \<open>simp add: UpdateFactEmbeddingsBatch_def\<close>)

section \<open>Memory records, experiences and usage\<close>

context outside_memories
begin

lemma RecordFeedback_keeps: "RecordFeedback cod t u i p d = (r, d') \<Longrightarrow> inv d \<Longrightarrow> inv d'"
  by (auto simp: RecordFeedback_def exec_uuid_def split: option.splits dest!: apfst_err_of
      elim!: exec_keeps [rotated] intro: other_tables)

lemma decay_keeps:
  assumes "inv d"
  shows "inv (decay w d)"
proof -
  obtain r d1 where run: "DecayImportance (dw_rate w) (dw_ageDays w) d = (r, d1)" by fastforce
  from DecayImportance_cases [OF run] have "inv d1"
  proof (elim disjE conjE exE)
    fix d4 assume "same_tables d d4" "decay_stmt (dw_rate w) (dw_ageDays w) d4 = (r, d1)"
    then show ?thesis using other_tables(2) [OF tables_only [OF _ assms]] by (auto simp: decay_stmt_def)
  qed (rule tables_only [OF _ assms])
  with run show ?thesis by (simp add: decay_def)
qed

end

lemma experiences_beside:
  "UpsertExperience cod t u s m ds st v sim d = (r, d') \<Longrightarrow> (db_sessions d', db_messages d', db_entities d', db_memories d') =
     (db_sessions d, db_messages d, db_entities d, db_memories d)"
  "RecordUsage cod t i d = (r, d') \<Longrightarrow> (db_sessions d', db_messages d', db_entities d', db_memories d') =
     (db_sessions d, db_messages d, db_entities d, db_memories d)"
  "ExperienceRecordFeedback cod t u i p d = (r, d') \<Longrightarrow> (db_sessions d', db_messages d', db_entities d', db_memories d') =
     (db_sessions d, db_messages d, db_entities d, db_memories d)"
  "Deactivate cod t u i d = (r, d') \<Longrightarrow> (db_sessions d', db_messages d', db_entities d', db_memories d') =
     (db_sessions d, db_messages d, db_entities d, db_memories d)"
  by (auto simp: UpsertExperience_def RecordUsage_def ExperienceRecordFeedback_def Deactivate_def pool_exec_def
      merge_experience_stmt_def insert_experience_stmt_def experience_update_def exec_uuid_def gen_uuid_def Let_def same_tables_def
      split: prod.splits option.splits if_splits dest!: apfst_err_of pool_call_tables)

section \<open>Every statement keeps the knowledge in order\<close>

lemma trait_memory_ok:
  assumes "pool_exec (insert_trait cod J t u s tr) d = (i, d')" "valid_utf8 tr" "memory_ok J d"
  shows "memory_ok J d'"
proof -
  have "memory_ok J b" if "insert_trait cod J t u s tr a = (r, b)" "memory_ok J a" for a r b
    using that assms(2) by (auto simp: memory_ok_def intro: insert_trait_importance insert_trait_distinct)
  from memory.exec_keeps [OF this assms(1,3)] show ?thesis .
qed

lemma message_knowledge:
  "InsertMessage m d = (r, d') \<Longrightarrow> knowledge_ok J d \<Longrightarrow> knowledge_ok J d'"
  "CreateSession s d = (r, d') \<Longrightarrow> knowledge_ok J d \<Longrightarrow> knowledge_ok J d'"
  "DeleteSession cod t i d = (q, d') \<Longrightarrow> knowledge_ok J d \<Longrightarrow> knowledge_ok J d'"
  "send_batch (map (\<lambda>((i, _), v). set_embedding cod i v) (zip records vs)) d = (u, d') \<Longrightarrow>
     knowledge_ok J d \<Longrightarrow> knowledge_ok J d'"
  by (erule knowledge_parts(1) [rotated -1];
      auto dest: messages_beside set_embedding_parts InsertMessage_integrity CreateSession_integrity DeleteSession_integrity)+

lemma fact_knowledge:
  "UpsertFactBatch mp fs es hs d = (r, d') \<Longrightarrow> knowledge_ok J d \<Longrightarrow> knowledge_ok J d'"
  "UpdateFactEmbeddingsBatch cod t u fs vs d = (r, d') \<Longrightarrow> knowledge_ok J d \<Longrightarrow> knowledge_ok J d'"
  by (erule knowledge_parts(2) [rotated -1];
      auto dest: fact_batch_parts fact_vectors_parts UpsertFactBatch_single UpdateFactEmbeddingsBatch_single)+

lemma trait_knowledge:
  assumes "valid_utf8 tr" "pool_exec (insert_trait cod J t s x tr) d = (i, d')" "knowledge_ok J d"
  shows "knowledge_ok J d'"
  by (rule knowledge_parts(3) [OF _ _ _ _ _ assms(3)])
    (use beside_memories.exec_keeps [OF beside_memories.insert_trait_keeps assms(2) refl]
      trait_memory_ok [OF assms(2,1)] in auto)

lemma runs_in_order:
  "UpdatePersonaEmbeddingsBatch cod t is vs d = (r, d') \<Longrightarrow> memory_ok J d \<Longrightarrow> memory_ok J d'"
  "UpsertEventBatch cod J t s x ps d = (r, d') \<Longrightarrow> memory_ok J d \<Longrightarrow> memory_ok J d'"
  "RecordFeedback cod t s y positive d = (r, d') \<Longrightarrow> memory_ok J d \<Longrightarrow> memory_ok J d'"
  "RecordUsage cod t s d = (r, d') \<Longrightarrow> experiences_ok d \<Longrightarrow> experiences_ok d'"
  "Deactivate cod t s y d = (r, d') \<Longrightarrow> experiences_ok d \<Longrightarrow> experiences_ok d'"
  by (metis run_embeddings_ok run_event_batch_ok run_feedback_ok run_usage_ok run_deactivate_ok snd_conv)+

lemma memory_knowledge:
  "UpdatePersonaEmbeddingsBatch cod t is vs d = (r, d') \<Longrightarrow> knowledge_ok J d \<Longrightarrow> knowledge_ok J d'"
  "UpsertEventBatch cod J t s x ps d = (r, d') \<Longrightarrow> knowledge_ok J d \<Longrightarrow> knowledge_ok J d'"
  "RecordFeedback cod t s y positive d = (r, d') \<Longrightarrow> knowledge_ok J d \<Longrightarrow> knowledge_ok J d'"
  "0 \<le> dw_rate w \<Longrightarrow> knowledge_ok J d \<Longrightarrow> knowledge_ok J (decay w d)"
  by (erule knowledge_parts(3) [rotated -1];
      use beside_memories.decay_keeps [OF refl] in \<open>auto dest: runs_in_order
        beside_memories.UpdatePersonaEmbeddingsBatch_keeps [OF _ refl] beside_memories.UpsertEventBatch_keeps [OF _ refl]
        beside_memories.RecordFeedback_keeps [OF _ refl] intro: run_decay_ok\<close>)+

lemma experience_knowledge:
  "UpsertExperience cod t s x m ds st v sim d = (r, d') \<Longrightarrow> knowledge_ok J d \<Longrightarrow> knowledge_ok J d'"
  "RecordUsage cod t s d = (r, d') \<Longrightarrow> knowledge_ok J d \<Longrightarrow> knowledge_ok J d'"
  "ExperienceRecordFeedback cod t s y positive d = (r, d') \<Longrightarrow> knowledge_ok J d \<Longrightarrow> knowledge_ok J d'"
  "Deactivate cod t s y d = (r, d') \<Longrightarrow> knowledge_ok J d \<Longrightarrow> knowledge_ok J d'"
  by (erule knowledge_parts(4) [rotated -1];
      auto dest: experiences_beside UpsertExperience_ok ExperienceRecordFeedback_ok runs_in_order)+

lemma token_knowledge: "Record new_id use d = (r, d') \<Longrightarrow> knowledge_ok J d \<Longrightarrow> knowledge_ok J d'"
proof -
  have "knowledge_ok J (a\<lparr>db_usage := us\<rparr>)" if "knowledge_ok J a" for a us
    by (rule knowledge_parts(1) [OF _ _ _ _ that]) (auto simp: integrity_def session_exists_def)
  then show "Record new_id use d = (r, d') \<Longrightarrow> knowledge_ok J d \<Longrightarrow> knowledge_ok J d'"
    by (auto simp: Record_def pool_exec_def apfst_def map_prod_def split: prod.splits option.splits if_splits
        dest!: pool_call_tables intro: knowledge_tables)
qed

lemma statement_knowledge: "statement J cod d d' \<Longrightarrow> knowledge_ok J d \<Longrightarrow> knowledge_ok J d'"
  by (erule statement.cases)
    (auto intro: knowledge_tables trait_knowledge memory_knowledge(4)
      dest: message_knowledge fact_knowledge memory_knowledge(1-3) experience_knowledge token_knowledge)

interpretation knowledge_kept: every_statement J cod "knowledge_ok J" for J cod
  by unfold_locales (rule statement_knowledge)

text \<open>Being reached by statements is itself kept by every statement: so whole runs are sequences of statements.\<close>

interpretation reached: every_statement J cod "(statement J cod)\<^sup>*\<^sup>* d" for J cod d
  by unfold_locales (rule rtranclp.rtrancl_into_rtrancl)

section \<open>The system\<close>

text \<open>
  A step of the system is a request, the handling of a stream entry, a batch of the embedder, a tick of the
  decay worker or of the flusher, or one statement of a process in between (\<open>others\<close>), while anything may
  happen on the Redis server. A process that dies has executed some of its statements, and so has one
  that is in the middle of its work: any interleaving of runs is a sequence of such statements.
\<close>

inductive system_step ::
  "pg_json \<Rightarrow> codec \<Rightarrow> (db \<Rightarrow> db \<Rightarrow> bool) \<Rightarrow> 'r redis \<Rightarrow> 'r groups \<Rightarrow> 'r world \<Rightarrow> 'r world \<Rightarrow> bool"
  for J :: pg_json and cod :: codec and others :: "db \<Rightarrow> db \<Rightarrow> bool" and R :: "'r redis" and G :: "'r groups" where
  request: "serve R E ep rq w = (resp, w') \<Longrightarrow> sv_cod E = cod \<Longrightarrow> system_step J cod others R G w w'"
| cognitive_delivery: "handleStreamMessage E R G stream i payload n w = (oc, w') \<Longrightarrow> ce_cod E = cod \<Longrightarrow>
    ce_pg_json E = J \<Longrightarrow> system_step J cod others R G w w'"
| experience_delivery: "experience_handle E R G n stream i payload w = (oc, n', w') \<Longrightarrow> xe_cod E = cod \<Longrightarrow>
    system_step J cod others R G w w'"
| embedding: "embed_task E R G batch w = (r, w') \<Longrightarrow> em_cod E = cod \<Longrightarrow> system_step J cod others R G w w'"
| decay_tick: "system_step J cod others R G w (w\<lparr>w_db := decay (main_decay_worker cfg) (w_db w)\<rparr>)"
| flush_tick: "system_step J cod others R G w (runFlushCycle R cod main_flush_age now w)"
| other: "others (w_db w) (w_db w') \<Longrightarrow> system_step J cod others R G w w'"

context every_statement
begin

lemma system_step_keeps:
  assumes "system_step J cod others R G w w'" "inv (w_db w)" "\<And>d d'. others d d' \<Longrightarrow> inv d \<Longrightarrow> inv d'"
  shows "inv (w_db w')"
  using assms(1)
proof cases
  case request
  then show ?thesis using assms(2) by (rule serve_keeps)
next
  case cognitive_delivery
  then show ?thesis using assms(2) by (rule cognitive_delivery_step)
next
  case experience_delivery
  then show ?thesis using assms(2) by (rule experience_delivery_step)
next
  case embedding
  then show ?thesis using assms(2) by (rule embed_task_step)
next
  case (decay_tick cfg)
  have "statement J cod (w_db w) (decay (main_decay_worker cfg) (w_db w))"
    by (rule statement.decay_run) (simp add: main_decay_worker_def)
  then show ?thesis using assms(2) unfolding decay_tick by (auto intro: step)
next
  case flush_tick
  then show ?thesis using flush_cycle_step [OF assms(2)] by simp
next
  case other
  then show ?thesis using assms(2) by (rule assms(3))
qed

lemma system_steps_keep:
  "(system_step J cod others R G)\<^sup>*\<^sup>* w w' \<Longrightarrow> inv (w_db w) \<Longrightarrow>
     (\<And>d d'. others d d' \<Longrightarrow> inv d \<Longrightarrow> inv d') \<Longrightarrow> inv (w_db w')"
  by (induction rule: rtranclp_induct) (auto dest: system_step_keeps)

end

end
