(* ===== verification/Races.thy ===== *)
theory Races
  imports System
begin

text \<open>
  Statements that run at the same time. PostgreSQL runs every statement at the isolation level READ
  COMMITTED: it does not see what others commit after it has started. For the insertions that first look
  whether a row is there (facts, traits, events) that matters, because the schema has no unique index
  behind them. \<open>racing_statement\<close> are the program's statements with any view of the rows that are there;
  what they still keep is \<open>sound_ok\<close>, and what they break is shown by two lemmas.
\<close>

inductive racing_statement :: "pg_json \<Rightarrow> codec \<Rightarrow> db \<Rightarrow> db \<Rightarrow> bool" for J :: pg_json and cod :: codec where
  alone: "statement J cod d d' \<Longrightarrow> racing_statement J cod d d'"
| session_row: "pool_exec (\<lambda>d. (Inr () :: unit res, ensure_session m d)) d = (r, d') \<Longrightarrow> racing_statement J cod d d'"
| message_row: "pool_exec (insert_message_row m) d = (r, d') \<Longrightarrow> racing_statement J cod d d'"
| racing_facts: "send_batch (map (\<lambda>(seen, f, e, h). upsert_seeing seen mp f e h) items) d = (r, d') \<Longrightarrow>
    racing_statement J cod d d'"
| racing_trait: "pool_exec (insert_trait_seeing seen cod J t s x tr) d = (i, d') \<Longrightarrow> racing_statement J cod d d'"
| racing_events: "send_batch (map (\<lambda>(seen, p). insert_event_seeing seen cod J t s x p) ps) d = (r, d') \<Longrightarrow>
    racing_statement J cod d d'"

definition sound_ok :: "db \<Rightarrow> bool" where
  "sound_ok d \<longleftrightarrow> integrity d \<and> importance_ok d \<and> experiences_ok d"

lemma sound_parts:
  "db_memories d' = db_memories d \<Longrightarrow> db_experiences d' = db_experiences d \<Longrightarrow> (integrity d \<Longrightarrow> integrity d') \<Longrightarrow>
     sound_ok d \<Longrightarrow> sound_ok d'"
  "db_sessions d' = db_sessions d \<Longrightarrow> db_messages d' = db_messages d \<Longrightarrow> db_entities d' = db_entities d \<Longrightarrow>
     db_experiences d' = db_experiences d \<Longrightarrow> (importance_ok d \<Longrightarrow> importance_ok d') \<Longrightarrow> sound_ok d \<Longrightarrow> sound_ok d'"
  "db_sessions d' = db_sessions d \<Longrightarrow> db_messages d' = db_messages d \<Longrightarrow> db_entities d' = db_entities d \<Longrightarrow>
     db_memories d' = db_memories d \<Longrightarrow> (experiences_ok d \<Longrightarrow> experiences_ok d') \<Longrightarrow> sound_ok d \<Longrightarrow> sound_ok d'"
  unfolding sound_ok_def using part_congs(1,4) [of d' d] by (auto simp: importance_ok_def)

lemma sound_tables: "same_tables d d' \<Longrightarrow> sound_ok d \<Longrightarrow> sound_ok d'"
  by (rule sound_parts(1)) (auto simp: same_tables_def intro: integrity_tables [unfolded same_tables_def])

interpretation sound: table_invariant sound_ok
  by unfold_locales (rule sound_tables)

section \<open>What every statement keeps, whatever it sees\<close>

lemma message_sound:
  "InsertMessage m d = (r, d') \<Longrightarrow> sound_ok d \<Longrightarrow> sound_ok d'"
  "CreateSession s d = (r, d') \<Longrightarrow> sound_ok d \<Longrightarrow> sound_ok d'"
  "DeleteSession cod t i d = (q, d') \<Longrightarrow> sound_ok d \<Longrightarrow> sound_ok d'"
  "send_batch (map (\<lambda>((i, _), v). set_embedding cod i v) (zip records vs)) d = (u, d') \<Longrightarrow> sound_ok d \<Longrightarrow> sound_ok d'"
  by (erule sound_parts(1) [rotated -1];
      auto dest: messages_beside set_embedding_parts InsertMessage_integrity CreateSession_integrity DeleteSession_integrity)+

lemma fact_sound:
  "UpsertFactBatch mp fs es hs d = (r, d') \<Longrightarrow> sound_ok d \<Longrightarrow> sound_ok d'"
  "UpdateFactEmbeddingsBatch cod t u fs vs d = (r, d') \<Longrightarrow> sound_ok d \<Longrightarrow> sound_ok d'"
  by (erule sound_parts(1) [rotated -1]; auto dest: fact_batch_parts fact_vectors_parts)+

lemma upsert_seeing_sound: "upsert_seeing seen mp f e h d = (r, d') \<Longrightarrow> sound_ok d \<Longrightarrow> sound_ok d'"
  by (erule sound_parts(1) [rotated -1]; auto dest: upsert_seeing_beside upsert_seeing_integrity)

text \<open>A change of the memory records: whoever writes nothing else and keeps the importances in range is sound.\<close>

lemma memory_sound:
  assumes "\<And>x. (db_sessions d, db_messages d, db_entities d, db_experiences d) = x \<Longrightarrow>
      (db_sessions d', db_messages d', db_entities d', db_experiences d') = x"
    and "importance_ok d \<Longrightarrow> importance_ok d'" "sound_ok d"
  shows "sound_ok d'"
  using assms(1) [OF refl] by (intro sound_parts(2) [OF _ _ _ _ assms(2,3)]) auto

lemma insert_seeing_sound:
  "insert_trait_seeing seen cod J t u s tr d = (i, d') \<Longrightarrow> sound_ok d \<Longrightarrow> sound_ok d'"
  "insert_event_seeing seen cod J t u s p d = (r, d') \<Longrightarrow> sound_ok d \<Longrightarrow> sound_ok d'"
proof -
  have beside: "(db_sessions d', db_messages d', db_entities d', db_experiences d') =
      (db_sessions d, db_messages d, db_entities d, db_experiences d)" if "insert_memory_row a b c ty q im d = (x, d')"
    for a b c ty q im x
    using that by (auto simp: insert_memory_row_def gen_uuid_def split: if_splits)
  show "insert_trait_seeing seen cod J t u s tr d = (i, d') \<Longrightarrow> sound_ok d \<Longrightarrow> sound_ok d'"
    by (rule memory_sound [OF _ insert_trait_seeing_importance])
      (auto simp: insert_trait_seeing_def exec_uuid_def split: option.splits if_splits dest: beside)
  show "insert_event_seeing seen cod J t u s p d = (r, d') \<Longrightarrow> sound_ok d \<Longrightarrow> sound_ok d'"
    by (rule memory_sound [OF _ insert_event_seeing_importance])
      (auto simp: insert_event_seeing_def exec_uuid_def split: option.splits if_splits sum.splits prod.splits dest: beside)
qed

lemma trait_vectors_importance:
  assumes "UpdatePersonaEmbeddingsBatch cod t is vs d = (r, d')" "importance_ok d"
  shows "importance_ok d'"
proof (cases "zip is vs = []")
  case False
  let ?qs = "map (\<lambda>(i, v). exec_uuid cod i (\<lambda>iu. exec_uuid cod t (\<lambda>t d.
             (Inr () :: unit res, d\<lparr>db_memories := update_where (\<lambda>r. me_id r = iu \<and> me_tenant_id r = t)
                (\<lambda>r. r\<lparr>me_embedding := Some v\<rparr>) (db_memories d)\<rparr>)))) (zip is vs)"
  have run: "send_batch ?qs d = (fst (send_batch ?qs d), d')"
    using assms(1) False by (auto simp: UpdatePersonaEmbeddingsBatch_def)
  show ?thesis
  proof (rule importance.batch_keeps [OF _ run assms(2)])
    fix q a x b
    assume "q \<in> set ?qs" "q a = (x, b)" "importance_ok a"
    then show "importance_ok b"
      by (auto simp: exec_uuid_def importance_ok_def set_update_where split: option.splits if_splits)
  qed
qed (use assms in \<open>simp add: UpdatePersonaEmbeddingsBatch_def\<close>)

lemma records_sound:
  "UpdatePersonaEmbeddingsBatch cod t is vs d = (r, d') \<Longrightarrow> sound_ok d \<Longrightarrow> sound_ok d'"
  "UpsertEventBatch cod J t s x ps d = (r, d') \<Longrightarrow> sound_ok d \<Longrightarrow> sound_ok d'"
  "RecordFeedback cod t s y positive d = (r, d') \<Longrightarrow> sound_ok d \<Longrightarrow> sound_ok d'"
  "0 \<le> dw_rate w \<Longrightarrow> sound_ok d \<Longrightarrow> sound_ok (decay w d)"
proof -
  show "UpdatePersonaEmbeddingsBatch cod t is vs d = (r, d') \<Longrightarrow> sound_ok d \<Longrightarrow> sound_ok d'"
    by (rule memory_sound [OF beside_memories.UpdatePersonaEmbeddingsBatch_keeps trait_vectors_importance])
  show "UpsertEventBatch cod J t s x ps d = (r, d') \<Longrightarrow> sound_ok d \<Longrightarrow> sound_ok d'"
    by (rule memory_sound [OF beside_memories.UpsertEventBatch_keeps UpsertEventBatch_importance])
  show "RecordFeedback cod t s y positive d = (r, d') \<Longrightarrow> sound_ok d \<Longrightarrow> sound_ok d'"
    by (rule memory_sound [OF beside_memories.RecordFeedback_keeps RecordFeedback_importance])
  obtain q a where a: "DecayImportance (dw_rate w) (dw_ageDays w) d = (q, a)" by fastforce
  then have "decay w d = a" by (simp add: decay_def)
  with DecayImportance_importance [OF a] show "0 \<le> dw_rate w \<Longrightarrow> sound_ok d \<Longrightarrow> sound_ok (decay w d)"
    by (intro memory_sound [OF beside_memories.decay_keeps]) auto
qed

lemma experience_sound:
  "UpsertExperience cod t s x m ds st v sim d = (r, d') \<Longrightarrow> sound_ok d \<Longrightarrow> sound_ok d'"
  "RecordUsage cod t s d = (r, d') \<Longrightarrow> sound_ok d \<Longrightarrow> sound_ok d'"
  "ExperienceRecordFeedback cod t s y positive d = (r, d') \<Longrightarrow> sound_ok d \<Longrightarrow> sound_ok d'"
  "Deactivate cod t s y d = (r, d') \<Longrightarrow> sound_ok d \<Longrightarrow> sound_ok d'"
  by (erule sound_parts(3) [rotated -1];
      auto dest: experiences_beside UpsertExperience_ok ExperienceRecordFeedback_ok runs_in_order)+

lemma token_sound: "Record new_id use d = (r, d') \<Longrightarrow> sound_ok d \<Longrightarrow> sound_ok d'"
proof -
  have "sound_ok (a\<lparr>db_usage := us\<rparr>)" if "sound_ok a" for a us
    by (rule sound_parts(1) [OF _ _ _ that]) (auto simp: integrity_def session_exists_def)
  then show "Record new_id use d = (r, d') \<Longrightarrow> sound_ok d \<Longrightarrow> sound_ok d'"
    by (auto simp: Record_def pool_exec_def apfst_def map_prod_def split: prod.splits option.splits if_splits
        dest!: pool_call_tables intro: sound_tables)
qed

lemma trait_sound: "pool_exec (insert_trait_seeing seen cod J t s x tr) d = (i, d') \<Longrightarrow> sound_ok d \<Longrightarrow> sound_ok d'"
  by (rule sound.exec_keeps [OF insert_seeing_sound(1)])

lemma statement_sound: "statement J cod d d' \<Longrightarrow> sound_ok d \<Longrightarrow> sound_ok d'"
  by (erule statement.cases)
    (auto intro: sound_tables records_sound(4) trait_sound [where seen = "\<lambda>_. True", folded insert_trait_def]
      dest: message_sound fact_sound records_sound(1-3) experience_sound token_sound)

lemma racing_sound: "racing_statement J cod d d' \<Longrightarrow> sound_ok d \<Longrightarrow> sound_ok d'"
proof (induction rule: racing_statement.induct)
  case (session_row m d r d')
  have "sound_ok (ensure_session m a)" if "sound_ok a" for a
    by (rule sound_parts(1) [OF _ _ _ that]) (simp_all add: ensure_session_integrity, simp_all add: ensure_session_def)
  then show ?case by (intro sound.exec_keeps [OF _ session_row]) auto
next
  case (message_row m d r d')
  have "sound_ok b" if "insert_message_row m a = (x, b)" "sound_ok a" for a x b
    by (rule sound_parts(1) [OF _ _ insert_message_row_integrity [OF that(1)] that(2)])
      (use that(1) in \<open>auto simp: insert_message_row_def split: if_splits\<close>)
  then show ?case by (rule sound.exec_keeps [OF _ message_row])
next
  case (racing_facts mp items d r d')
  then show ?case by (elim sound.batch_keeps [rotated]) (auto dest: upsert_seeing_sound)
next
  case (racing_events t s x ps d r d')
  then show ?case by (elim sound.batch_keeps [rotated]) (auto dest: insert_seeing_sound(2))
qed (auto dest: statement_sound trait_sound)

interpretation sound_kept: every_statement J cod sound_ok for J cod
  by unfold_locales (rule statement_sound)

interpretation raced: every_statement J cod "(racing_statement J cod)\<^sup>*\<^sup>* d" for J cod d
  by unfold_locales (blast intro: rtranclp.rtrancl_into_rtrancl racing_statement.alone)

section \<open>What a race breaks\<close>

text \<open>
  Two upserts of one fact that has no current row: the second started before the first was committed and
  sees the rows from before. Both insert, and the fact has two current rows.
\<close>

lemma upsert_race:
  assumes "upsertFactCTE mp f e h d = (Inr (), d1)"
    and "upsert_seeing (\<lambda>r. r \<in> set (db_entities d)) mp' f' e' h' d1 = (Inr (), d2)"
    and key: "upsert_key mp' f' = upsert_key mp f"
    and none: "\<not> (\<exists>r \<in> set (db_entities d). fact_of r = upsert_key mp f \<and> current r)"
  shows "\<not> single_current d2"
proof -
  let ?old = "\<lambda>r. fact_of r = upsert_key mp f \<and> current r"
  have "List.find ?old (db_entities d) = None" using none by (auto simp: find_None_iff)
  with assms(1) obtain i where i: "i \<notin> set (map em_id (db_entities d))"
    "db_entities d1 = db_entities d @ [inserted_row mp f e h None i (db_now d)]"
    by (cases rule: upsert_cases) auto
  have "List.find ?old (filter (\<lambda>r. r \<in> set (db_entities d)) (db_entities d1)) = None"
    using none by (auto simp: find_None_iff)
  with assms(2) key obtain j where
    "db_entities d2 = db_entities d1 @ [inserted_row mp' f' e' h' None j (db_now d1)]"
    by (cases rule: upsert_seeing_cases) auto
  with i key show ?thesis by (simp add: single_current_def inserted_row_def current_def fact_of_def upsert_key_def)
qed

text \<open>Two insertions of one new trait: the user has it twice.\<close>

lemma trait_race:
  assumes "insert_trait cod J t u s tr d = (Inr i, d1)"
    and "insert_trait_seeing (\<lambda>r. r \<in> set (db_memories d)) cod J t u s tr d1 = (Inr j, d2)"
  shows "\<not> traits_distinct J d2"
proof -
  let ?row = "\<lambda>a b s' i now. \<lparr>me_id = i, me_tenant_id = a, me_user_id = b, me_session_id = Some s', me_type = ''persona'',
    me_payload = JObj [(''trait'', jstr tr)], me_embedding = None, me_importance = 1, me_access_count = 0,
    me_last_accessed_at = None, me_created_at = now\<rparr>"
  obtain a b s' where ids: "pg_uuid cod t = Some a" "pg_uuid cod u = Some b" "pg_uuid cod s = Some s'"
    using assms(1) by (auto simp: insert_trait_eval exec_uuid_def split: option.splits)
  have one: "db_memories d1 = db_memories d @ [?row a b s' i (db_now d)]"
    using assms(1) ids
    by (auto simp: insert_trait_eval insert_memory_row_def gen_uuid_def Let_def split: if_splits)
  have two: "db_memories d2 = db_memories d1 @ [?row a b s' j (db_now d1)]"
    using assms(2) ids
    by (auto simp: insert_trait_seeing_def insert_memory_row_def gen_uuid_def Let_def split: if_splits)
  show ?thesis unfolding traits_distinct_def two one by (simp add: persona_key_def)
qed

end
