(* ===== verification/Startup.thy ===== *)
theory Startup
  imports WorkerProcess MemoryRuns Server Flusher
begin

text \<open>
  How the processes start (\<^verbatim>\<open>cmd/worker/main.go\<close>, \<^verbatim>\<open>cmd/server/main.go\<close>), the connection pool they share
  (\<^verbatim>\<open>internal/repository/db.go\<close>), and the tickers of the decay worker and of the flusher
  (\<^verbatim>\<open>internal/worker/decay.go\<close>, \<^verbatim>\<open>internal/worker/flusher.go\<close>). \<^verbatim>\<open>log.Fatalf\<close> ends the process: it is an
  error of the start. The driver (pgx) is an argument: how it reads a URL and whether it gives a pool.
\<close>

section \<open>The pool\<close>

record 'c pgx =
  pgx_ParseConfig :: "string \<Rightarrow> 'c res"
  pgx_NewWithConfig :: "'c \<Rightarrow> 32 word \<Rightarrow> unit res"

text \<open>The pool is made once; its result, an error included, is what every later call returns.\<close>

definition GetDB :: "'c pgx \<Rightarrow> Config \<Rightarrow> unit res option \<Rightarrow> unit res \<times> unit res option" where
  "GetDB P cfg dbOnce =
     (case dbOnce of
        Some r \<Rightarrow> (r, dbOnce)
      | None \<Rightarrow>
          (let r = (case pgx_ParseConfig P (cf_DatabaseURL cfg) of
                      Inl e \<Rightarrow> Inl e
                    | Inr c \<Rightarrow> pgx_NewWithConfig P c (cf_DBMaxConns cfg))
           in (r, Some r)))"

lemma GetDB_once: "GetDB P cfg s = (r, s') \<Longrightarrow> GetDB Q cfg' s' = (r, s')"
  by (auto simp: GetDB_def Let_def split: option.splits)

section \<open>Tickers\<close>

text \<open>\<^verbatim>\<open>time.Duration(hours)*time.Hour\<close> is a product of 64-bit integers: it wraps around.\<close>

definition decay_interval :: "Config \<Rightarrow> time" where
  "decay_interval cfg = sint ((word_of_int (cf_DecayIntervalHours cfg) :: 64 word) * word_of_int (60 * 60 * second))"

lemma sint_duration: "0 \<le> n \<Longrightarrow> n < 2 ^ 63 \<Longrightarrow> sint (word_of_int n :: 64 word) = n"
  by (simp add: signed_take_bit_int_eq_self sint_uint uint_word_of_int take_bit_int_eq_self)

text \<open>
  The decay worker runs once at its start and then at every tick; \<^verbatim>\<open>time.NewTicker\<close> panics on an
  interval that is not positive. The times are those of the runs.
\<close>

definition decay_Run :: "DecayWorker \<Rightarrow> time \<Rightarrow> time \<Rightarrow> time list \<Rightarrow> db \<Rightarrow> unit res \<times> db" where
  "decay_Run w interval now ticks d =
     (let d1 = decay_at w now d in
      if interval \<le> 0 then (Inl (Panic ''non-positive interval for NewTicker''), d1)
      else (Inr (), fold (decay_at w) ticks d1))"

text \<open>The flusher runs a cycle at every tick, and none at its start.\<close>

definition flusher_Start :: "'r redis \<Rightarrow> codec \<Rightarrow> time \<Rightarrow> time \<Rightarrow> time list \<Rightarrow> 'r world \<Rightarrow> unit res \<times> 'r world" where
  "flusher_Start R cod interval olderThan ticks w =
     (if interval \<le> 0 then (Inl (Panic ''non-positive interval for NewTicker''), w)
      else (Inr (), fold (runFlushCycle R cod olderThan) ticks w))"

section \<open>The entry points\<close>

record worker_setup =
  ws_provider :: provider
  ws_crypto :: crypto
  ws_concurrency :: nat
  ws_decay :: DecayWorker
  ws_decay_interval :: time
  ws_flush_interval :: time
  ws_flush_age :: time

text \<open>The constructor of the cognitive worker checks the master key.\<close>

definition NewCognitiveWorker :: "Config \<Rightarrow> crypto res" where
  "NewCognitiveWorker cfg =
     (case NewCrypto (cf_MasterKey cfg) of
        Inl e \<Rightarrow> Inl (Wrapped ''CognitiveWorker: failed to init crypto (check MASTER_KEY)'' e)
      | Inr c \<Rightarrow> Inr c)"

definition main_flush_interval :: time where
  "main_flush_interval = 60 * second"

definition worker_main ::
  "(nat \<Rightarrow> nat) \<Rightarrow> (string \<Rightarrow> string) \<Rightarrow> file_system \<Rightarrow> 'c pgx \<Rightarrow> worker_setup res" where
  "worker_main tab env F P =
     (case load_config env F of
        Inl e \<Rightarrow> Inl e
      | Inr cfg \<Rightarrow>
          (case fst (GetDB P cfg None) of
             Inl e \<Rightarrow> Inl (Wrapped ''Failed to connect to DB'' e)
           | Inr _ \<Rightarrow>
               (case NewClient tab env of
                  Inl e \<Rightarrow> Inl e
                | Inr p \<Rightarrow>
                    (case NewCognitiveWorker cfg of
                       Inl e \<Rightarrow> Inl e
                     | Inr c \<Rightarrow> Inr
                         \<lparr>ws_provider = p, ws_crypto = c, ws_concurrency = worker_concurrency cfg,
                          ws_decay = main_decay_worker cfg, ws_decay_interval = decay_interval cfg,
                          ws_flush_interval = main_flush_interval, ws_flush_age = main_flush_age\<rparr>))))"

text \<open>The server does not look at the master key; it listens on the configured port.\<close>

definition server_main ::
  "(nat \<Rightarrow> nat) \<Rightarrow> (string \<Rightarrow> string) \<Rightarrow> file_system \<Rightarrow> 'c pgx \<Rightarrow> (provider \<times> string) res" where
  "server_main tab env F P =
     (case load_config env F of
        Inl e \<Rightarrow> Inl e
      | Inr cfg \<Rightarrow>
          (case fst (GetDB P cfg None) of
             Inl e \<Rightarrow> Inl (Wrapped ''Failed to connect to DB'' e)
           | Inr _ \<Rightarrow>
               (case NewClient tab env of
                  Inl e \<Rightarrow> Inl e
                | Inr p \<Rightarrow> Inr (p, cf_ServerPort cfg))))"

text \<open>A worker that has started has a key of 32 bytes, at least one slot, and an interval for the flusher.\<close>

lemma worker_main_started:
  assumes "worker_main tab env F P = Inr s"
  shows "length (masterKey (ws_crypto s)) = 32 \<and> 1 \<le> ws_concurrency s \<and> 0 < ws_flush_interval s \<and>
    hex_decode (env ''MASTER_KEY'') = Some (masterKey (ws_crypto s))"
proof -
  obtain cfg c where ok: "load_config env F = Inr cfg" "NewCrypto (cf_MasterKey cfg) = Inr c" "ws_crypto s = c"
    "ws_concurrency s = worker_concurrency cfg" "ws_flush_interval s = main_flush_interval"
    using assms by (auto simp: worker_main_def NewCognitiveWorker_def split: sum.splits)
  have "cf_MasterKey cfg = env ''MASTER_KEY''"
    using ok(1) by (auto simp: load_config_def split: sum.splits if_splits)
  moreover have "hex_decode (cf_MasterKey cfg) = Some (masterKey c) \<and> length (masterKey c) = 32"
    using ok(2) by (auto simp: NewCrypto_def split: option.splits if_splits)
  moreover have "1 \<le> cf_CognitiveConcurrency cfg" using load_config_ok [OF ok(1)] by (simp add: config_ok_def)
  ultimately show ?thesis
    using ok(3-5) by (simp add: worker_concurrency_def main_flush_interval_def second_def)
qed

text \<open>With a text that is no key the worker stops and the server starts; every use of a fact then fails.\<close>

lemma server_without_key:
  assumes "server_main tab env F P = Inr r" "hex_decode (env ''MASTER_KEY'') = None"
  shows "\<exists>e. worker_main tab env F P = Inl e"
  using assms worker_main_started [of tab env F P] by (cases "worker_main tab env F P") auto

end
