(* ===== verification/SystemProperties.thy ===== *)
theory SystemProperties
  imports Races Startup CognitiveProperties StoreProperties
begin

text \<open>
  Properties of the whole: what every history of requests, worker runs, ticks and single statements keeps
  of the database, and the interval of the decay ticker.
\<close>

section \<open>The system\<close>

text \<open>C2: Whatever requests are served, stream entries handled, batches embedded, ticks run and statements of
  other processes executed, in any order and with any failures, the effect on the database is a sequence of
  the program's statements. Also when the statements of others run at the same time and do not see what
  is not committed, messages keep their sessions and facts their messages, identifiers stay unique, importance stays
  between 0.01 and 1, confidence above 0 and at most 1. When no two statements run at the same time, every
  fact keeps at most one current row and no user gets a persona trait twice as well; statements that
  overlap can break both (lemmas upsert_race and trait_race, and the second half of the witness).\<close>

theorem system_invariant:
  "((system_step J cod (racing_statement J cod) R G)\<^sup>*\<^sup>* w w' \<longrightarrow>
      (racing_statement J cod)\<^sup>*\<^sup>* (w_db w) (w_db w') \<and> (sound_ok (w_db w) \<longrightarrow> sound_ok (w_db w'))) \<and>
   ((system_step J cod (statement J cod) R G)\<^sup>*\<^sup>* w w' \<longrightarrow>
      (statement J cod)\<^sup>*\<^sup>* (w_db w) (w_db w') \<and> (knowledge_ok J (w_db w) \<longrightarrow> knowledge_ok J (w_db w')))"
proof (intro conjI impI)
  assume run: "(system_step J cod (racing_statement J cod) R G)\<^sup>*\<^sup>* w w'"
  show "(racing_statement J cod)\<^sup>*\<^sup>* (w_db w) (w_db w')"
    by (rule raced.system_steps_keep [OF run rtranclp.rtrancl_refl rtranclp.rtrancl_into_rtrancl])
  show "sound_ok (w_db w)  \<Longrightarrow> sound_ok (w_db w')"
    by (rule sound_kept.system_steps_keep [OF run _ racing_sound])
next
  assume run: "(system_step J cod (statement J cod) R G)\<^sup>*\<^sup>* w w'"
  show "(statement J cod)\<^sup>*\<^sup>* (w_db w) (w_db w')"
    by (rule reached.system_steps_keep [OF run rtranclp.rtrancl_refl rtranclp.rtrancl_into_rtrancl])
  show "knowledge_ok J (w_db w) \<Longrightarrow> knowledge_ok J (w_db w')"
    by (rule knowledge_kept.system_steps_keep [OF run _ statement_knowledge])
qed

text \<open>A request that stores a message, and the handling of a batch event.\<close>

definition demo_server :: server_env where
  "demo_server = \<lparr>sv_cod = ref_codec, sv_case = id, sv_config = projr (load_config demo_env demo_files), sv_backend = (\<lambda>_. demo_backend),
     sv_metrics = handleHealth, sv_new_id = 14, sv_now = 500\<rparr>"

definition demo_groups :: "mem groups" where
  "demo_groups c st = (Inr (GAcked 1), st)"

definition demo_served :: "mem world" where
  "demo_served = snd (serve mem_redis demo_server MessagesEP \<lparr>rq_Param = \<lambda>_. [], rq_Query = \<lambda>_. [], rq_Body = demo_body\<rparr> demo_world)"

definition demo_delivered :: "mem world" where
  "demo_delivered = snd (handleStreamMessage demo_cog mem_redis demo_groups ''t:stream:cognitive'' ''1'' demo_event 0 demo_served)"

lemma demo_knowledge: "knowledge_ok J demo_db"
  by (simp add: knowledge_ok_def integrity_def session_exists_def memory_ok_def importance_ok_def traits_distinct_def
      experiences_ok_def)
    (simp add: demo_db_def empty_db_def demo_message_def message.defs validRoles_def)

text \<open>Two workers store the same new fact at the same time: neither sees the other's row.\<close>

definition demo_once :: db where
  "demo_once = snd (upsertFactCTE demo_payload (demo_fact ''An'') ''e'' ''h'' demo_db)"

definition demo_twice :: db where
  "demo_twice = snd (upsert_seeing (\<lambda>r. r \<in> set (db_entities demo_db)) demo_payload (demo_fact ''Binh'') ''f'' ''g'' demo_once)"

lemma demo_race_runs:
  "upsertFactCTE demo_payload (demo_fact ''An'') ''e'' ''h'' demo_db = (Inr (), demo_once)"
  "upsert_seeing (\<lambda>r. r \<in> set (db_entities demo_db)) demo_payload (demo_fact ''Binh'') ''f'' ''g'' demo_once =
     (Inr (), demo_twice)"
proof -
  have "fst (upsertFactCTE demo_payload (demo_fact ''An'') ''e'' ''h'' demo_db) = Inr ()" by code_simp
  then show "upsertFactCTE demo_payload (demo_fact ''An'') ''e'' ''h'' demo_db = (Inr (), demo_once)"
    by (simp add: demo_once_def prod_eq_iff)
  have "fst (upsert_seeing (\<lambda>r. r \<in> set (db_entities demo_db)) demo_payload (demo_fact ''Binh'') ''f'' ''g'' demo_once) = Inr ()"
    by code_simp
  then show "upsert_seeing (\<lambda>r. r \<in> set (db_entities demo_db)) demo_payload (demo_fact ''Binh'') ''f'' ''g'' demo_once =
     (Inr (), demo_twice)"
    by (simp add: demo_twice_def prod_eq_iff)
qed

lemma demo_race:
  "(system_step J cod (racing_statement J cod) mem_redis demo_groups)\<^sup>*\<^sup>* demo_world (demo_world\<lparr>w_db := demo_twice\<rparr>)"
proof -
  let ?step = "system_step J cod (racing_statement J cod) mem_redis demo_groups"
  have up: "db_faults demo_db = []" by (rule demo_faults)
  have up1: "db_faults demo_once = []" by code_simp
  have "racing_statement J cod demo_db demo_once"
    by (rule racing_statement.racing_facts [where r = "Inr ()" and mp = demo_payload and items = "[(\<lambda>_. True, demo_fact ''An'', ''e'', ''h'')]"])
      (simp add: send_batch_def up demo_race_runs(1) [unfolded upsertFactCTE_def])
  then have "?step demo_world (demo_world\<lparr>w_db := demo_once\<rparr>)"
    by (intro system_step.other) (simp add: demo_world_def)
  moreover have "racing_statement J cod demo_once demo_twice"
    by (rule racing_statement.racing_facts [where r = "Inr ()" and mp = demo_payload and
          items = "[(\<lambda>r. r \<in> set (db_entities demo_db), demo_fact ''Binh'', ''f'', ''g'')]"])
      (simp add: send_batch_def up1 demo_race_runs(2))
  then have "?step (demo_world\<lparr>w_db := demo_once\<rparr>) (demo_world\<lparr>w_db := demo_twice\<rparr>)"
    by (intro system_step.other) simp
  ultimately show ?thesis by (meson converse_rtranclp_into_rtranclp r_into_rtranclp)
qed

theorem system_invariant_witness:
  "knowledge_ok (ce_pg_json demo_cog) (w_db demo_delivered) \<and> length (db_messages (w_db demo_served)) = 4 \<and>
   sound_ok demo_twice \<and> \<not> single_current demo_twice"
proof (intro conjI)
  let ?J = "ce_pg_json demo_cog"
  let ?step = "system_step ?J ref_codec (statement ?J ref_codec) mem_redis demo_groups"
  have "?step demo_world demo_served"
    unfolding demo_served_def by (rule system_step.request [OF prod.collapse [symmetric]]) (simp add: demo_server_def)
  moreover have "?step demo_served demo_delivered"
    unfolding demo_delivered_def
    by (rule system_step.cognitive_delivery [OF prod.collapse [symmetric]]) (simp_all add: demo_cog_def)
  ultimately have run: "?step\<^sup>*\<^sup>* demo_world demo_delivered" by (meson converse_rtranclp_into_rtranclp r_into_rtranclp)
  have db: "w_db demo_world = demo_db" by (simp add: demo_world_def)
  with system_invariant [THEN conjunct2, rule_format, OF run] demo_knowledge
  show "knowledge_ok ?J (w_db demo_delivered)" by simp
  show "length (db_messages (w_db demo_served)) = 4"
  proof -
    let ?h = "handleAppendMessages mem_redis ref_codec (cf_CognitiveBatch (sv_config demo_server)) 14 500 demo_body demo_world"
    have "demo_served = snd ?h" by (simp add: demo_served_def serve_def demo_server_def)
    moreover have "length (db_messages (w_db demo_world)) = 3" by (simp add: demo_world_def demo_db_def empty_db_def)
    ultimately show ?thesis
      using append_handler_rows [OF prod.collapse [of ?h, symmetric]] demo_appended by auto
  qed
  have "sound_ok demo_db" using demo_knowledge by (auto simp: knowledge_ok_def memory_ok_def sound_ok_def)
  with system_invariant [THEN conjunct1, rule_format, OF demo_race] db show "sound_ok demo_twice" by simp
  show "\<not> single_current demo_twice"
    by (rule upsert_race [OF demo_race_runs])
      (simp_all add: demo_db_def empty_db_def upsert_key_def demo_fact_def)
qed

section \<open>The decay ticker\<close>

text \<open>C38: The interval of the decay ticker is the configured number of hours as long as that is at most 2562047;
  one hour more wraps around to a negative interval, which the configuration accepts and at which the decay
  worker panics after its first run.\<close>

theorem decay_interval_wraps:
  "(1 \<le> cf_DecayIntervalHours cfg \<and> cf_DecayIntervalHours cfg \<le> 2562047 \<longrightarrow>
      decay_interval cfg = cf_DecayIntervalHours cfg * (60 * 60 * second) \<and> 0 < decay_interval cfg \<and>
      is_ok (fst (decay_Run w (decay_interval cfg) now ticks d))) \<and>
    (load_config env F = Inr cfg \<and> env ''DECAY_INTERVAL_HOURS'' = ''2562048'' \<longrightarrow>
      decay_interval cfg < 0 \<and> decay_Run w (decay_interval cfg) now ticks d =
        (Inl (Panic ''non-positive interval for NewTicker''), decay_at w now d))"
proof (intro conjI impI)
  assume h: "1 \<le> cf_DecayIntervalHours cfg \<and> cf_DecayIntervalHours cfg \<le> 2562047"
  show *: "decay_interval cfg = cf_DecayIntervalHours cfg * (60 * 60 * second)"
  proof -
    have "sint (word_of_int (cf_DecayIntervalHours cfg * 3600000000000) :: 64 word) = cf_DecayIntervalHours cfg * 3600000000000"
      using h by (intro sint_duration) simp_all
    then show ?thesis by (simp add: decay_interval_def second_def)
  qed
  then show "0 < decay_interval cfg" using h by (simp add: second_def)
  then show "is_ok (fst (decay_Run w (decay_interval cfg) now ticks d))" by (simp add: decay_Run_def Let_def)
next
  assume l: "load_config env F = Inr cfg \<and> env ''DECAY_INTERVAL_HOURS'' = ''2562048''"
  have "Atoi ''2562048'' = Some 2562048"
    by (simp add: Atoi_def is_digit_def byte_def int64_def Let_def)
  then have "int_setting None DefaultDecayIntervalHrs ''2562048'' = 2562048" by (simp add: int_setting_def)
  then have "cf_DecayIntervalHours cfg = 2562048"
    using l by (auto simp: load_config_def split: sum.splits if_splits)
  then show "decay_interval cfg < 0" by (simp add: decay_interval_def second_def)
  then show "decay_Run w (decay_interval cfg) now ticks d =
        (Inl (Panic ''non-positive interval for NewTicker''), decay_at w now d)"
    by (simp add: decay_Run_def Let_def)
qed

theorem decay_interval_wraps_witness:
  "\<exists>cfg. load_config (demo_env(''DECAY_INTERVAL_HOURS'' := ''2562048'')) demo_files = Inr cfg \<and>
     decay_interval cfg < 0 \<and>
     decay_Run \<lparr>dw_rate = 1 / 20, dw_ageDays = 7\<rparr> (decay_interval cfg) 500 [] demo_db =
       (Inl (Panic ''non-positive interval for NewTicker''), decay_at \<lparr>dw_rate = 1 / 20, dw_ageDays = 7\<rparr> 500 demo_db)"
proof -
  let ?env = "demo_env(''DECAY_INTERVAL_HOURS'' := ''2562048'')"
  obtain cfg where "load_config ?env demo_files = Inr cfg"
    by (simp add: load_config_def demo_env_def demo_files_def llm_providers_def server_port_def text_setting_def)
  moreover have "?env ''DECAY_INTERVAL_HOURS'' = ''2562048''" by simp
  ultimately show ?thesis using decay_interval_wraps by blast
qed

end
