(* ===== verification/Spec2Isabelle.thy ===== *)
theory Spec2Isabelle
  imports StoreProperties WorkerProperties CognitiveProperties TurnProperties SystemProperties
begin

text \<open>
  Cortexa is a memory service for conversational agents, written in Go (\<^verbatim>\<open>src/cortexa\<close>). A REST server
  stores the turns of a conversation in PostgreSQL, keeps the newest of them in Redis and answers with the
  context of a user: recent messages, facts, persona traits, upcoming events, learned experiences. Worker
  processes read batches of stored turns from Redis streams, let a language model extract what is worth
  keeping, and write it to the database, encrypted where it is personal. This development models both
  processes and proves what they promise. One world (\<open>world\<close>: the tables and the Redis server) is passed
  through every operation; errors, \<^verbatim>\<open>log.Fatal\<close> and panics are values of a sum type.

  \<^bold>\<open>Theories and the code they model.\<close>
  \<^item> \<open>Prelude\<close>, \<open>GoText\<close>, \<open>GoJson\<close>, \<open>GoJsonText\<close>: Go errors and results, strings as bytes (UTF-8, trimming,
    splitting, numbers), \<^verbatim>\<open>encoding/json\<close> in both directions, from values to fields and from bytes to values.
  \<^item> \<open>Model\<close> (\<^verbatim>\<open>internal/model\<close>) the structs; \<open>Tables\<close> the rows, the constraints and the pool's calls, each of
    which fails as the database's schedule of faults says.
  \<^item> \<open>Messages\<close>, \<open>EntityStore\<close>, \<open>MemoryStore\<close>, \<open>ExperienceStore\<close>, \<open>VectorSearch\<close>, \<open>Accounts\<close>
    (\<^verbatim>\<open>internal/repository\<close>): every statement as a function of the tables; \<open>MemoryRuns\<close> their sequences.
  \<^item> \<open>Crypto\<close>, \<open>Validator\<close> (\<^verbatim>\<open>internal/security\<close>): encryption by tenant, the validator of extracted facts.
  \<^item> \<open>Redis\<close>, \<open>Cache\<close> (\<^verbatim>\<open>internal/repository/cache.go\<close>): the server's commands, the cache of messages, the batch
    counter, the active set, the lock, the producers of stream entries.
  \<^item> \<open>Facts\<close>, \<open>Retriever\<close> (\<^verbatim>\<open>internal/service/retriever.go\<close>): the clean-up of facts, the parallel tasks.
  \<^item> \<open>Api\<close>, \<open>Server\<close>, \<open>Middleware\<close> (\<^verbatim>\<open>internal/api\<close>): the handlers, the routes, what surrounds them.
  \<^item> \<open>Llm\<close>, \<open>Config\<close> (\<^verbatim>\<open>internal/llm\<close>, \<^verbatim>\<open>internal/config\<close>): requests and answers of the providers, the settings.
  \<^item> \<open>Streams\<close>, \<open>StreamServer\<close>, \<open>StreamFetch\<close>: consumer groups and the reading loop the workers share; \<open>Worker\<close>,
    \<open>Cognitive\<close>, \<open>CognitiveStream\<close> (\<^verbatim>\<open>internal/worker/cognitive.go\<close>), \<open>ExperienceWorker\<close>
    (\<^verbatim>\<open>internal/worker/experience.go\<close>), \<open>Embedder\<close>, \<open>Flusher\<close>: what each of them does with an entry or a tick.
  \<^item> \<open>WorkerProcess\<close>, \<open>Startup\<close> (\<^verbatim>\<open>cmd\<close>): the two stream workers side by side, how the processes start;
    \<open>Statements\<close>, \<open>System\<close>: everything that may write to the database, in any order; \<open>Races\<close>: statements that
    overlap. \<open>ValidTexts\<close>: what the decoder yields is valid UTF-8. \<open>Demo\<close>: data for the witnesses.
  \<^item> The properties C1 to C40 are in this theory and in \<open>StoreProperties\<close>, \<open>WorkerProperties\<close>,
    \<open>CognitiveProperties\<close>, \<open>TurnProperties\<close>, \<open>SystemProperties\<close>; the numbers give their rank, not their place.

  \<^bold>\<open>Interfaces.\<close> What is not in the repository is an argument with the laws the code relies on: \<open>aead\<close> (AES-GCM,
  HKDF, SHA-256), \<open>go_codec\<close> (uuid and time texts), \<open>redis_store\<close> (keys, lists, sets, streams) and \<open>group_store\<close>
  (consumer groups), joined in \<open>stream_server\<close> (which adds that an XADD that is answered without an error puts
  its entry into the stream, and that an acknowledgement takes none out). Each has an instance that satisfies its laws (\<open>ref_crypto\<close>,
  \<open>ref_codec\<close>, \<open>mem_redis\<close>, \<open>gm_groups\<close>), on which the witnesses run. The components meet in locales of their own:
  \<open>cache_store\<close>; \<open>stream_worker\<close>, the reading loop with any policy and handler, interpreted (as sublocales of
  \<open>stream_server\<close>) for the cognitive and the experience worker; \<open>table_invariant\<close>, \<open>outside_memories\<close> and
  \<open>every_statement\<close>, an invariant of the database that operations keep, interpreted for the schema's integrity,
  the uniqueness of current facts, the bounds of the memories and experiences, and the history of statements
  itself. Text search, distance, collation and JSONB of PostgreSQL are the records \<open>pg_search\<close> and \<open>pg_json\<close>.

  \<^bold>\<open>What the lemmas show.\<close>
  \<^item> The system: every history of requests, deliveries, ticks and foreign statements keeps \<open>sound_ok\<close> even when
    statements overlap, and \<open>knowledge_ok\<close>, with the uniqueness of current facts and of traits, when they do
    not (C2); what an overlap breaks is shown by \<open>upsert_race\<close> and \<open>trait_race\<close>.
  \<^item> Streams: under every interleaving, crash and failure an entry is pending for the next claim, or a run of the
    process has settled it: processed, dead letter in its stream, or dead letter refused by the server, the one
    way to lose an entry (C3); it is tried a bounded number of times (C4), and the scan for streams returns when the
    server's does (C28). The log of a worker is a history variable; \<open>cognitive_log\<close> and \<open>experience_log\<close>
    tie each of its entries to the run that made it.
  \<^item> Facts: the upsert refines a map update (C1, C16), what is encrypted is read back (C7, C24), only vetted
    facts are stored (C5), a repeated delivery changes nothing (C9), failures leave the entry for a retry or in
    the dead letters (C17); retrieval stays within tenant and user (C6) and cleans the facts (C8, C26, C27).
  \<^item> Memories and experiences: invariants, what the decay does and does not change, bounds (C10, C19, C20).
  \<^item> Conversations: the pages of a session are its history up to equal times (C11), the life of a session and of
    its messages (C29), writes are read back from the cache (C14, C34,
    C35), the counter and the flusher publish each batch (C12, C13, C21 to C23), stored rows are answered (C30).
  \<^item> Lemmas outside the properties give the behaviour of every handler on its error branches and the
    equations of every operation on a database without faults.

  \<^bold>\<open>Bounds and fuel.\<close> \<open>parse_json\<close> recurses with fuel twice the length of the text plus two; \<open>parse_fuel\<close> shows that
  more changes nothing. \<open>walk_history\<close>, a client reading page after page, takes as many requests as it needs
  when the fuel exceeds the number of messages, which C11 assumes. The scan for streams is a partial function:
  \<open>None\<close> means that it does not return, and C28 shows that it does. Integers of Go are \<open>int\<close> with
  the range \<open>int64\<close> where it matters and wrap around in the duration of the decay ticker (C38); the doubling
  of the batch count in \<open>flushSession\<close> is unbounded, which differs from 2 to the 62nd pending turns on.

  \<^bold>\<open>Not modelled.\<close>
  \<^item> Row-level security inside the statements: the code's own tenant filters are what is proved to scope;
    \<open>BeforeAcquire\<close>, which sets the tenant, is modelled on a connection.
  \<^item> Errors of the database that depend on values beyond the modelled constraints (vector dimension, NUL bytes,
    invalid UTF-8 in columns other than the persona's) come from the schedule of faults.
  \<^item> Concurrency in the database: a statement is one step, also one that updates many rows. Statements that run at
    the same time at READ COMMITTED are \<open>racing_statement\<close>, where the insertions of facts, traits and events
    get the rows they see as an argument. The properties of single operations and runs (C1, C5, C9, C10, C16) are about
    statements that run alone.
  \<^item> Failing calls: a call of the pool either has its effect and is answered, or fails without an effect. A commit whose
    answer is lost has the effect of a statement of another process (\<open>others\<close>) before a failed call. A read
    that breaks off is an error or all of the rows: most queries do not look at \<^verbatim>\<open>rows.Err\<close>, so the
    program may also take the first part of the rows for all of them, which is not represented (except for
    \<open>GetUpcomingEvents\<close>, whose cast fails after the query has been accepted).
  \<^item> Goroutines: a poll with its acceptance loop and a handler's run are each one step; that others write in
    between is the relation \<open>others\<close>, for Redis in \<open>worker_step\<close> and for the database in \<open>system_step\<close>. Clock readings, new identifiers and
    ticks are arguments; the experience worker's count of batches is any number at each delivery.
  \<^item> Rounding: scores, importance and confidence are rational numbers. Map iteration of Go is a parameter where
    the result depends on it (\<open>arrange\<close>, \<open>ce_order\<close>, \<open>em_order\<close>).
  \<^item> The HTTP transport, the matching of paths by gin, panic recovery, the formats of logs and metrics, the driver
    pgx (an argument of \<open>GetDB\<close>), the .env file and the singleton around the configuration. Slices that
    \<^verbatim>\<open>encoding/json\<close> reuses when a key occurs twice. Shutdown of the processes after a signal. Trimming of streams
    is only a licence of the server to drop entries, never an obligation.
\<close>

section \<open>Facts: validation, encryption and the upsert\<close>

text \<open>C1: Upserting a batch of facts is, on the map from a fact (tenant, user, entity, attribute) to the
  hash of its current value, the sequence of the map updates of its items, or nothing at all when the
  transaction failed; and every fact keeps at most one current row. (No statement of others runs at the same
  time.)\<close>

theorem fact_batch_refines:
  assumes "UpsertFactBatch mp facts encVals valHashes d = (None, d')" "single_current d"
  shows "single_current d' \<and>
    (same_tables d d' \<or>
     current_hash d' = upserted mp (zip facts (zip encVals valHashes)) (current_hash d))"
  using UpsertFactBatch_single [OF assms] UpsertFactBatch_refines [OF assms] by blast

definition demo_batch :: "err option \<times> db" where
  "demo_batch = UpsertFactBatch demo_payload [demo_fact ''A'', demo_fact ''B''] [''a'', ''b''] [''ha'', ''hb''] demo_db"

theorem fact_batch_refines_witness:
  "single_current (snd demo_batch) \<and> \<not> same_tables demo_db (snd demo_batch) \<and>
   current_hash (snd demo_batch) (1, 2, ''self'', ''name'') = Some ''hb''"
proof -
  have run: "UpsertFactBatch demo_payload [demo_fact ''A'', demo_fact ''B''] [''a'', ''b''] [''ha'', ''hb''] demo_db =
      (None, snd demo_batch)"
    by (simp add: demo_batch_def UpsertFactBatch_def)
  have "\<not> same_tables demo_db (snd demo_batch)" by code_simp
  with fact_batch_refines [OF run demo_single] show ?thesis
    by (simp add: upsert_key_def demo_payload_def demo_fact_def)
qed

text \<open>C16: A successful upsert leaves exactly one current row for its fact, with the new hash; all rows of
  the other facts are as they were, and writing the same value again changes nothing.\<close>

theorem fact_upsert_supersedes:
  assumes "UpsertFact mp f encVal valHash d = (None, d')" "db_faults d = []" "single_current d"
  shows "(\<exists>row. filter (\<lambda>r. fact_of r = upsert_key mp f \<and> current r) (db_entities d') = [row] \<and>
            em_value_hash row = valHash) \<and>
    (\<forall>k. k \<noteq> upsert_key mp f \<longrightarrow>
       filter (\<lambda>r. fact_of r = k) (db_entities d') = filter (\<lambda>r. fact_of r = k) (db_entities d)) \<and>
    upsertFactCTE mp f encVal2 valHash d' = (Inr (), d')"
proof -
  have up: "upsertFactCTE mp f encVal valHash d = (Inr (), d')"
    by (rule UpsertFact_up [OF assms(1,2)])
  show ?thesis
    using upsert_current [OF up assms(3)] upsert_frame [OF up assms(3)] upsert_again [OF up assms(3)] by blast
qed

definition demo_upsert :: "err option \<times> db" where
  "demo_upsert = UpsertFact demo_payload (demo_fact ''A'') ''a'' ''ha'' demo_db"

theorem fact_upsert_supersedes_witness:
  "length (filter (\<lambda>r. fact_of r = (1, 2, ''self'', ''name'') \<and> current r) (db_entities (snd demo_upsert))) = 1 \<and>
   upsertFactCTE demo_payload (demo_fact ''A'') ''x'' ''ha'' (snd demo_upsert) = (Inr (), snd demo_upsert)"
proof -
  have run: "UpsertFact demo_payload (demo_fact ''A'') ''a'' ''ha'' demo_db = (None, snd demo_upsert)"
    unfolding demo_upsert_def by (intro prod_eqI) (simp_all, code_simp)
  have up: "db_faults demo_db = []" by (simp add: demo_db_def empty_db_def)
  from fact_upsert_supersedes [OF run up demo_single, of "''x''"] show ?thesis
    by (auto simp: upsert_key_def demo_payload_def demo_fact_def)
qed

text \<open>C7: A value encrypted for a tenant and upserted under a hash that was not the current one is read back
  in the clear by the query of the tenant's current facts.\<close>

theorem fact_roundtrip:
  assumes "aead L" "NewCrypto mk = Inr c" "length nonce = gcm_nonce_size"
    and "EncryptValue L c (Some nonce) (xf_Value f) T = Inr ct"
    and "pg_uuid cod T = Some (mp_TenantID mp)" "pg_uuid cod U = Some (mp_UserID mp)"
    and "db_faults d = []" "single_current d"
    and "current_hash d (upsert_key mp f) \<noteq> Some (ValueHash L (xf_Value f))"
    and "UpsertFact mp f ct (ValueHash L (xf_Value f)) d = (None, d')"
  shows "\<exists>facts. QueryCurrent cod L mk T U d' = (Inr facts, d') \<and>
    (\<exists>x \<in> set facts. ef_EntityName x = xf_EntityName f \<and> ef_Attribute x = xf_Attribute f \<and>
       ef_Value x = xf_Value f)"
proof -
  let ?h = "ValueHash L (xf_Value f)"
  have up: "upsertFactCTE mp f ct ?h d = (Inr (), d')"
    by (rule UpsertFact_up [OF assms(10,7)])
  obtain sup i where row: "inserted_row mp f ct ?h sup i (db_now d) \<in> set (db_entities d')"
    and faults: "db_faults d' = []"
    using up
  proof (cases rule: upsert_cases)
    case (same old)
    with assms(9) show ?thesis by (simp add: current_hash_def)
  qed (use assms(7) that in auto)
  let ?row = "inserted_row mp f ct ?h sup i (db_now d)"
  have "DecryptValue L c ct T = Inr (xf_Value f)"
    by (rule aead.decrypt_encrypt [OF assms(1,3,4)])
  then have "ef_Value (scan_fact L c T ?row) = xf_Value f" by (simp add: scan_fact_def)
  moreover have "ef_EntityName (scan_fact L c T ?row) = xf_EntityName f"
    "ef_Attribute (scan_fact L c T ?row) = xf_Attribute f"
    by (simp_all add: scan_fact_def inserted_row_def)
  moreover have "of_user (mp_TenantID mp) (mp_UserID mp) ?row \<and> current ?row"
    by (simp add: of_user_def inserted_row_def current_def)
  ultimately show ?thesis
    using row faults assms(2,5,6)
    by (auto simp: QueryCurrent_def scanEntityFacts_def intro!: bexI [of _ ?row])
qed

definition demo_cipher :: string where
  "demo_cipher = demo_nonce @ gcm_seal ref_crypto (deriveKey ref_crypto (Crypto demo_key) (text_of 1)) demo_nonce ''An''"

definition demo_stored :: "err option \<times> db" where
  "demo_stored = UpsertFact demo_payload (demo_fact ''An'') demo_cipher (ValueHash ref_crypto ''An'') demo_db"

lemma demo_stored_ok: "demo_stored = (None, snd demo_stored)"
proof -
  have ids: "mp_MessageID demo_payload \<in> set (map msg_ID (db_messages demo_db))" by code_simp
  have "db_entities demo_db = []" by code_simp
  moreover have "db_faults demo_db = []" by code_simp
  ultimately show ?thesis
    using ids by (simp add: demo_stored_def UpsertFact_def upsertFactCTE_eval insert_entity_row_def gen_uuid_def)
qed

theorem fact_roundtrip_witness:
  "\<exists>facts. QueryCurrent ref_codec ref_crypto (hex_encode demo_key) (text_of 1) (text_of 2) (snd demo_stored) =
      (Inr facts, snd demo_stored) \<and>
    (\<exists>x \<in> set facts. ef_EntityName x = ''self'' \<and> ef_Attribute x = ''name'' \<and> ef_Value x = ''An'')"
proof -
  have len: "length demo_nonce = gcm_nonce_size" by (simp add: demo_nonce_def gcm_nonce_size_def)
  have enc: "EncryptValue ref_crypto (Crypto demo_key) (Some demo_nonce) (xf_Value (demo_fact ''An'')) (text_of 1) =
      Inr demo_cipher"
    by (simp add: refc.encrypt_ok demo_cipher_def demo_fact_def)
  have key: "NewCrypto (hex_encode demo_key) = Inr (Crypto demo_key)"
    by (rule NewCrypto_encoded) (simp add: demo_key_def)
  have empty: "db_entities demo_db = []" "db_faults demo_db = []" by code_simp+
  have new: "current_hash demo_db k \<noteq> Some h" for k h
    using empty by (simp add: current_hash_def)
  have stored: "UpsertFact demo_payload (demo_fact ''An'') demo_cipher (ValueHash ref_crypto (xf_Value (demo_fact ''An''))) demo_db =
      (None, snd demo_stored)"
    using demo_stored_ok by (simp add: demo_stored_def demo_fact_def)
  show ?thesis
    using fact_roundtrip [OF refc.aead_axioms key len enc _ _ empty(2) demo_single new stored, of ref_codec "text_of 2"]
    by (simp add: demo_payload_def demo_fact_def)
qed

text \<open>C24: Decrypting what was encrypted for the same tenant gives the plaintext, the ciphertext is 28 bytes
  longer than the plaintext, and anything shorter than a nonce is refused as an invalid ciphertext.\<close>

theorem encryption_roundtrip:
  assumes "aead L" "length nonce = gcm_nonce_size" "EncryptValue L c (Some nonce) v T = Inr ct"
  shows "DecryptValue L c ct T = Inr v \<and> length ct = length v + 28 \<and>
    (length short < gcm_nonce_size \<longrightarrow> DecryptValue L c short T = Inl ErrInvalidCiphertext)"
  using aead.decrypt_encrypt [OF assms] aead.ciphertext_length [OF assms] aead.decrypt_short [OF assms(1)]
  by blast

theorem encryption_roundtrip_witness:
  "DecryptValue ref_crypto (Crypto demo_key) demo_cipher (text_of 1) = Inr ''An'' \<and> length demo_cipher = 30 \<and>
   DecryptValue ref_crypto (Crypto demo_key) ''short'' (text_of 1) = Inl ErrInvalidCiphertext"
  using encryption_roundtrip [OF refc.aead_axioms, of demo_nonce "Crypto demo_key" "''An''" "text_of 1" demo_cipher "''short''"]
  by (simp add: refc.encrypt_ok demo_cipher_def demo_nonce_def gcm_nonce_size_def)

text \<open>C40: A master key is accepted iff it is the hexadecimal text of 32 bytes; so an accepted text has 64
  characters, and the hexadecimal form of every 32 byte key is accepted as that key.\<close>

theorem master_key_accepted:
  "(NewCrypto h = Inr c \<longleftrightarrow> hex_decode h = Some (masterKey c) \<and> length (masterKey c) = 32) \<and>
   (is_ok (NewCrypto h) \<longrightarrow> length h = 64) \<and>
   (length k = 32 \<longrightarrow> NewCrypto (hex_encode k) = Inr (Crypto k))"
  using NewCrypto_Inr NewCrypto_length NewCrypto_encoded by (auto simp: is_ok_iff)

theorem master_key_accepted_witness:
  "NewCrypto (hex_encode demo_key) = Inr (Crypto demo_key) \<and> \<not> is_ok (NewCrypto ''00'')"
  using master_key_accepted [of "hex_encode demo_key" "Crypto demo_key" demo_key]
    master_key_accepted [of "''00''" "Crypto demo_key" demo_key]
  by (auto simp: demo_key_def)

text \<open>C25: The validator accepts exactly the facts with a name of 1 to 100 bytes, a value of at most 500, an
  allowed type and attribute, and no injection pattern occurring in the name or the value.\<close>

theorem validator_accepts:
  "ValidateExtractedFact f = None \<longleftrightarrow> acceptable f"
  by (rule validate_iff)

section \<open>Context retrieval\<close>

text \<open>C26: The in-place loops of the context clean-up compute what copying ones would: deduplication keeps the
  first fact of every (entity, attribute) key, which need not be the most confident one as the comment has it
  (lemma first_not_best), and the confidence filter is a filter.\<close>

theorem cleanup_in_place:
  "deduplicateByAttribute facts = first_by fact_key [] facts \<and>
   filterByConfidence facts c = filter (\<lambda>f. c \<le> ef_Confidence f) facts \<and>
   distinct (map fact_key (deduplicateByAttribute facts)) \<and>
   fact_key ` set (deduplicateByAttribute facts) = fact_key ` set facts"
  by (simp add: deduplicate_first_by filterByConfidence_filter first_by_distinct first_by_keys)

lemma first_not_best: "deduplicateByAttribute [demo_ef ''a'' (1 / 2), demo_ef ''a'' (9 / 10)] = [demo_ef ''a'' (1 / 2)]"
  by (simp add: deduplicate_first_by demo_ef_def fact_key_def)

text \<open>C27: The budget cut returns a prefix that fits the budget, or the first fact alone; and every longer
  prefix would have exceeded the budget.\<close>

theorem truncation_is_maximal:
  assumes "0 < budget" "facts \<noteq> []"
  shows "\<exists>n. truncateFactsToBudget facts budget = take n facts \<and> 1 \<le> n \<and> n \<le> length facts \<and>
    (total_chars (take n facts) \<le> budget \<or> n = 1) \<and>
    (\<forall>m. n < m \<and> m \<le> length facts \<longrightarrow> budget < total_chars (take m facts))"
proof -
  obtain n where n: "truncateFactsToBudget facts budget = take n facts" using truncate_prefix by blast
  let ?n = "length (truncateFactsToBudget facts budget)"
  have eq: "take ?n facts = truncateFactsToBudget facts budget" "?n \<le> length facts"
    using n by (simp_all add: min_def)
  have "1 \<le> ?n" using truncate_nonempty [OF assms] by (simp add: Suc_le_eq)
  with eq truncate_fits [of facts budget] truncate_maximal [OF assms(1)] truncate_nonempty [OF assms]
  show ?thesis by (intro exI [of _ ?n]) auto
qed

theorem truncation_is_maximal_witness:
  "\<exists>n. truncateFactsToBudget [demo_ef ''a'' 1, demo_ef ''b'' 1] 5 = take n [demo_ef ''a'' 1, demo_ef ''b'' 1] \<and>
    1 \<le> n \<and> n \<le> 2"
  using truncation_is_maximal [of 5 "[demo_ef ''a'' 1, demo_ef ''b'' 1]"] by auto

text \<open>C8: When the text search does not fail, the entity facts of a context have distinct keys, confidence at
  least 0.25, and at most 4000 characters unless there is a single fact; the self facts are deduplicated
  and confident in any case.\<close>

theorem context_facts_clean:
  assumes "wantsType req ''entity_facts''" "\<And>names. is_ok (b_QueryFactsByFTS B names)"
  shows "clean (cb_EntityFacts (fetchContextParallel req B b)) \<and>
    distinct (map fact_key (cb_SelfFacts (fetchContextParallel req B b))) \<and>
    (\<forall>f \<in> set (cb_SelfFacts (fetchContextParallel req B b)). 1 / 4 \<le> ef_Confidence f)"
  using entity_result_clean [OF assms(2)] clean_self_distinct clean_self_confident
  by (simp add: fetch_entities [OF assms(1)] fetch_self)

definition demo_request :: GetContextRequest where
  "demo_request = \<lparr>req_TenantID = text_of 1, req_UserID = text_of 2, req_SessionID = text_of 3, req_Query = ''q'',
     req_MemoryTypes = [], req_TimeRange = None\<rparr>"

theorem context_facts_clean_witness:
  "clean (cb_EntityFacts (fetchContextParallel demo_request demo_backend empty_bundle)) \<and>
   length (cb_EntityFacts (fetchContextParallel demo_request demo_backend empty_bundle)) = 1"
proof -
  have "wantsType demo_request ''entity_facts''" by (simp add: wantsType_def demo_request_def)
  moreover have "is_ok (b_QueryFactsByFTS demo_backend names)" for names by (simp add: demo_backend_def)
  moreover have "length (cb_EntityFacts (fetchContextParallel demo_request demo_backend empty_bundle)) = 1"
    by code_simp
  ultimately show ?thesis using context_facts_clean [of demo_request demo_backend empty_bundle] by simp
qed

text \<open>C18: The context does not depend on the order in which the parallel tasks answer, and after a timeout
  every field is either untouched or what it would have been with all the answers.\<close>

theorem context_order_independent:
  "(fetch_returns req B b [] b' \<longleftrightarrow> b' = fetchContextParallel req B b) \<and>
   (fetch_returns req B b missing b' \<longrightarrow>
     cb_SelfFacts b' \<in> {cb_SelfFacts b, cb_SelfFacts (fetchContextParallel req B b)} \<and>
     cb_EntityFacts b' \<in> {cb_EntityFacts b, cb_EntityFacts (fetchContextParallel req B b)} \<and>
     cb_Persona b' \<in> {cb_Persona b, cb_Persona (fetchContextParallel req B b)} \<and>
     cb_UpcomingEvents b' \<in> {cb_UpcomingEvents b, cb_UpcomingEvents (fetchContextParallel req B b)} \<and>
     cb_Experiences b' \<in> {cb_Experiences b, cb_Experiences (fetchContextParallel req B b)} \<and>
     cb_RecentMessages b' = cb_RecentMessages b)"
  using fetch_all [of req B b b'] fetch_all_possible [of req B b] fetch_partial [of req B b missing b'] by auto

theorem context_order_independent_witness:
  "fetch_returns demo_request demo_backend empty_bundle [] (fetchContextParallel demo_request demo_backend empty_bundle) \<and>
   cb_RecentMessages (fetchContextParallel demo_request demo_backend empty_bundle) = []"
proof -
  note p = context_order_independent [of demo_request demo_backend empty_bundle _ "[]"]
  have r: "fetch_returns demo_request demo_backend empty_bundle []
      (fetchContextParallel demo_request demo_backend empty_bundle)"
    using p by blast
  with p show ?thesis by (auto simp: empty_bundle_def)
qed

text \<open>C6: Every fact in a context is the decryption, under the tenant asked for, of a current row of that
  tenant and that user: self rows in the self facts, third-party rows in the entity facts.\<close>

theorem context_scoped:
  assumes "wantsType req ''entity_facts''"
  shows "(\<forall>f \<in> set (cb_SelfFacts (fetchContextParallel req (store_backend cod L P J mk req emb d) b)).
       reads_facts cod L mk (req_TenantID req) (req_UserID req)
         (\<lambda>t u r. of_user t u r \<and> current r \<and> em_entity_type r = ''self'') d [f]) \<and>
    (\<forall>f \<in> set (cb_EntityFacts (fetchContextParallel req (store_backend cod L P J mk req emb d) b)).
       reads_facts cod L mk (req_TenantID req) (req_UserID req) third_party d [f])"
  using self_scoped entities_scoped [OF assms] by blast

definition demo_scoped :: ContextBundle where
  "demo_scoped = fetchContextParallel demo_request
     (store_backend ref_codec ref_crypto
        \<lparr>fts_match = (\<lambda>_ _. False), trgm_match = (\<lambda>_ _. False), fts_rank = (\<lambda>_ _. 0), vec_dist = (\<lambda>_ _. 0),
         collation = (\<lambda>_. 0)\<rparr>
        \<lparr>jsonb_eq = (=), json_render = (\<lambda>_. []), ts_parse = (\<lambda>_. None)\<rparr>
        (hex_encode demo_key) demo_request (Inr [1]) (snd demo_stored)) empty_bundle"

theorem context_scoped_witness:
  "list_all (\<lambda>f. reads_facts ref_codec ref_crypto (hex_encode demo_key) (text_of 1) (text_of 2)
      (\<lambda>t u r. of_user t u r \<and> current r \<and> em_entity_type r = ''self'') (snd demo_stored) [f])
      (cb_SelfFacts demo_scoped) \<and>
   length (cb_SelfFacts demo_scoped) = 1"
proof -
  have "wantsType demo_request ''entity_facts''" by (simp add: wantsType_def demo_request_def)
  moreover have "length (cb_SelfFacts demo_scoped) = 1"
  proof -
    have key: "NewCrypto (hex_encode demo_key) = Inr (Crypto demo_key)"
      by (rule NewCrypto_encoded) (simp add: demo_key_def)
    have empty: "db_entities demo_db = []" "db_faults demo_db = []"
      "mp_MessageID demo_payload \<in> set (map msg_ID (db_messages demo_db))" by code_simp+
    show ?thesis
      using empty key
      by (simp add: Let_def demo_scoped_def fetch_self store_backend_def SearchSelfFacts_def query_facts_def demo_stored_def
          UpsertFact_def upsertFactCTE_eval insert_entity_row_def gen_uuid_def demo_request_def demo_payload_def
          demo_fact_def of_user_def current_def best_first_def order_desc_def scanEntityFacts_def clean_self_def
          deduplicate_first_by filterByConfidence_filter scan_fact_def EntityFactMinConfidence_def)
  qed
  ultimately show ?thesis
    using context_scoped [of demo_request ref_codec ref_crypto]
    by (simp add: demo_scoped_def demo_request_def list_all_iff)
qed

section \<open>Messages and sessions\<close>

text \<open>Three messages, two of them of the same moment: in pages of one, the second of the two is never seen.\<close>

definition demo_tie_db :: db where
  "demo_tie_db = demo_db\<lparr>db_messages := map (\<lambda>m. message.extend m \<lparr>msg_embedding = None\<rparr>)
     [demo_message 11 10, demo_message 12 20, demo_message 13 20]\<rparr>"

lemma equal_times_lost:
  "walk_history ref_codec (text_of 3) (text_of 1) (Itoa 1) 4 [] demo_tie_db = Some [demo_message 12 20, demo_message 11 10]"
proof -
  have H: "newest_first (in_session 1 3) demo_tie_db = [demo_message 12 20, demo_message 13 20, demo_message 11 10]"
    by code_simp
  have d: "db_faults demo_tie_db = []" "distinct (map msg_ID (db_messages demo_tie_db))" by code_simp+
  note page = ref.handler_page [OF d(1) _ _ H [symmetric] _ d(2), of 1]
  have rest: "history_rest (Some (demo_message 12 20)) [demo_message 12 20, demo_message 13 20, demo_message 11 10] = [demo_message 11 10]"
    "history_rest (Some (demo_message 11 10)) [demo_message 12 20, demo_message 13 20, demo_message 11 10] = []"
    "history_rest None [demo_message 12 20, demo_message 13 20, demo_message 11 10] =
       [demo_message 12 20, demo_message 13 20, demo_message 11 10]"
    by (simp_all add: history_rest_def demo_message_def)
  have start: "ref.cursor_of None = []" by (simp add: ref.cursor_of_def)
  show ?thesis
    using page [of None] page [of "Some (demo_message 12 20)"] page [of "Some (demo_message 11 10)"]
    by (simp add: eval_nat_numeral start rest)
qed

text \<open>C11: Following the cursor of the history endpoint with any page size from 1 to 100 ends after finitely
  many requests and yields messages of the session only, newest first and each at most once; it yields at least
  one message of every creation time, and every message when no two have the same creation time. (Messages
  of the same creation time on both sides of a page boundary are lost, lemma equal_times_lost: the
  query's cursor is the time alone.)\<close>

theorem history_walk_complete:
  assumes "go_codec cod" "db_faults d = []" "0 < limit" "limit \<le> 100"
    and "distinct (map msg_ID (db_messages d))"
    and "length (newest_first (in_session t s) d) < fuel"
  shows "\<exists>xs. walk_history cod (uuid_String cod s) (uuid_String cod t) (Itoa limit) fuel [] d = Some xs \<and>
    subseq xs (newest_first (in_session t s) d) \<and> distinct (map msg_ID xs) \<and>
    (\<forall>m \<in> set (newest_first (in_session t s) d). \<exists>x \<in> set xs. msg_CreatedAt x = msg_CreatedAt m) \<and>
    (distinct (map msg_CreatedAt (newest_first (in_session t s) d)) \<longrightarrow> xs = newest_first (in_session t s) d)"
proof -
  from go_codec.walk_all [OF assms] obtain xs where xs:
    "walk_history cod (uuid_String cod s) (uuid_String cod t) (Itoa limit) fuel [] d = Some xs"
    "walked xs (newest_first (in_session t s) d)" by blast
  then have "subseq (map msg_ID xs) (map msg_ID (newest_first (in_session t s) d))"
    by (simp add: walked_def subseq_map)
  then have "distinct (map msg_ID xs)"
    using newest_first_ids_distinct [OF assms(5)] by (auto simp: subseq_conv_nths intro: distinct_nthsI)
  with xs show ?thesis by (auto simp: walked_def)
qed

theorem history_walk_complete_witness:
  "walk_history ref_codec (text_of 3) (text_of 1) (Itoa 2) 4 [] demo_db =
     Some [demo_message 13 30, demo_message 12 20, demo_message 11 10]"
proof -
  have "db_faults demo_db = []" by code_simp
  moreover have "distinct (map msg_CreatedAt (newest_first (in_session 1 3) demo_db))"
    by (simp add: demo_history demo_message_def)
  ultimately show ?thesis
    using history_walk_complete [OF ref.go_codec_axioms, of demo_db 2 1 3 4] demo_ids
    by (simp add: demo_history)
qed

text \<open>C36: Whatever the cursor or the anchor, the history queries return messages of the tenant, session and
  (for the anchored query) user they were asked for, and nothing else.\<close>

theorem history_scoped_to_session:
  assumes "GetSessionHistory cod T S limit B d = (Inr ms, d')"
    and "GetRecentMessagesUntil cod T U S A limit d = (Inr rs, d'')"
  shows "(\<forall>m \<in> set ms. pg_uuid cod T = Some (msg_TenantID m) \<and> pg_uuid cod S = Some (msg_SessionID m)) \<and>
    (\<forall>m \<in> set rs. pg_uuid cod T = Some (msg_TenantID m) \<and> pg_uuid cod S = Some (msg_SessionID m) \<and>
       pg_uuid cod U = Some (msg_UserID m))"
  using history_scoped [OF assms(1)] recent_until_scoped [OF assms(2)] by blast

theorem history_scoped_to_session_witness:
  "list_all (\<lambda>m. msg_TenantID m = 1 \<and> msg_SessionID m = 3) (map message.truncate (db_messages demo_db))"
proof -
  have up: "db_faults demo_db = []" by code_simp
  have h: "GetSessionHistory ref_codec (text_of 1) (text_of 3) 50 [] demo_db =
      (Inr [demo_message 13 30, demo_message 12 20, demo_message 11 10], demo_db)"
    using history_first_page [OF up, of ref_codec "text_of 1" 1 "text_of 3" 3 50] by (simp add: demo_history)
  have "newest_first (\<lambda>m. in_session 1 3 m \<and> msg_UserID m = 2) demo_db =
      [demo_message 13 30, demo_message 12 20, demo_message 11 10]" by code_simp
  then have r: "GetRecentMessagesUntil ref_codec (text_of 1) (text_of 2) (text_of 3) [] 50 demo_db =
      (Inr [demo_message 13 30, demo_message 12 20, demo_message 11 10], demo_db)"
    using up by (simp add: GetRecentMessagesUntil_def GetRecentMessages_def sql_limit_def)
  from history_scoped_to_session [OF h r] show ?thesis
    by (simp add: demo_db_def demo_message_def)
qed




text \<open>C30: The append handler acknowledges a request exactly when it has added one message row: its
  identifier is the one answered, its tenant, user and session are the request's, its role (one of the three)
  and content (at most 100000 bytes) the request's, its token count a quarter of the runes of the content
  (rounded down), its time the database's, its embedding NULL. Any other answer leaves the messages as they were.\<close>

theorem append_acknowledges_stored:
  assumes "handleAppendMessages R cod batch new_id now j w = (resp, w')"
  shows "(\<exists>req row. resp = Response 200 (AppendedBody (uuid_String cod new_id)) \<and> bind_append j = Some req \<and>
      db_messages (w_db w') = db_messages (w_db w) @ [row] \<and> msg_ID row = new_id \<and>
      uuid_Parse cod (ar_TenantID req) = Some (msg_TenantID row) \<and>
      uuid_Parse cod (ar_UserID req) = Some (msg_UserID row) \<and>
      uuid_Parse cod (ar_SessionID req) = Some (msg_SessionID row) \<and>
      msg_Role row = ar_Role req \<and> ar_Role req \<in> {''user'', ''assistant'', ''system''} \<and>
      msg_Content row = ar_Content req \<and> length (ar_Content req) \<le> 100000 \<and>
      msg_TokenCount row = int (RuneCount (ar_Content req)) div 4 \<and>
      msg_CreatedAt row = db_now (w_db w) \<and> msg_embedding row = None) \<or>
    status resp \<noteq> 200 \<and> db_messages (w_db w') = db_messages (w_db w)"
  using append_handler_rows [OF assms]
proof (elim disjE exE conjE)
  fix req t u s m
  assume req: "resp = Response 200 (AppendedBody (uuid_String cod new_id))" "bind_append j = Some req"
    "ar_Role req \<in> set validRoles" "length (ar_Content req) \<le> MaxContentLength"
    "uuid_Parse cod (ar_TenantID req) = Some t" "uuid_Parse cod (ar_UserID req) = Some u"
    "uuid_Parse cod (ar_SessionID req) = Some s" "m = new_message req new_id t s u (db_now (w_db w))"
    "db_messages (w_db w') = db_messages (w_db w) @ [message.extend m \<lparr>msg_embedding = None\<rparr>]"
  show ?thesis
    by (intro disjI1 exI [of _ req] exI [of _ "message.extend m \<lparr>msg_embedding = None\<rparr>"])
      (use req in \<open>simp add: new_message_def validRoles_def MaxContentLength_def message.defs\<close>)
qed simp

theorem append_acknowledges_stored_witness:
  "status (fst (handleAppendMessages mem_redis ref_codec 3 14 500 demo_body demo_world)) = 200 \<and>
   length (db_messages (w_db (snd (handleAppendMessages mem_redis ref_codec 3 14 500 demo_body demo_world)))) = 4"
proof -
  let ?h = "handleAppendMessages mem_redis ref_codec 3 14 500 demo_body demo_world"
  have st: "status (fst ?h) = 200" by (rule demo_appended)
  have rows: "length (db_messages (w_db demo_world)) = 3" by code_simp
  from append_acknowledges_stored [of mem_redis ref_codec 3 14 500 demo_body demo_world "fst ?h" "snd ?h"] st rows
  show ?thesis by auto
qed

section \<open>The cache, the counter and the flusher\<close>

text \<open>C34: A successful append makes the cached list of the session the new messages on top of what it held, or,
  when it held nothing, on top of the newest fifty of the database, cut to fifty; no other list changes.\<close>

theorem cache_append:
  assumes "redis_store R ob" "AppendMessages R cod T S ms w = (None, w')"
    and "\<not> obs_other ob (w_redis w) (msgs_key T S)"
  shows "obs_list ob (w_redis w') = (obs_list ob (w_redis w))(msgs_key T S :=
      take 50 (rev (map (marshal_message cod) ms) @
        (if cached ob T S w \<noteq> [] then cached ob T S w
         else map (marshal_message cod)
           (case fst (GetSessionHistory cod T S 50 [] (w_db w)) of Inl _ \<Rightarrow> [] | Inr h \<Rightarrow> h))))"
  using redis_store.append_hit [OF assms(1,2)] redis_store.append_miss [OF assms(1,2) _ assms(3)]
  by (cases "cached ob T S w = []") simp_all

definition demo_cached :: "mem world" where
  "demo_cached = snd (AppendMessages mem_redis ref_codec (text_of 1) (text_of 3)
     [demo_message 21 40, demo_message 22 50] demo_world)"

lemma demo_cached_run:
  "AppendMessages mem_redis ref_codec (text_of 1) (text_of 3) [demo_message 21 40, demo_message 22 50] demo_world =
     (None, demo_cached)"
  using mem.append_reliable [OF mem_reliable, of ref_codec "text_of 1" "text_of 3"]
  by (simp add: demo_cached_def prod_eq_iff)

theorem cache_append_witness:
  "cached mem_observers (text_of 1) (text_of 3) demo_cached = map (marshal_message ref_codec)
     [demo_message 22 50, demo_message 21 40, demo_message 13 30, demo_message 12 20, demo_message 11 10]"
proof -
  have "cached mem_observers (text_of 1) (text_of 3) demo_world = []"
    "\<not> obs_other mem_observers (w_redis demo_world) (msgs_key (text_of 1) (text_of 3))"
    by (simp_all add: cached_def demo_world_def mem_observers_def empty_mem_def mem_other_def)
  moreover have "fst (GetSessionHistory ref_codec (text_of 1) (text_of 3) 50 [] (w_db demo_world)) =
      Inr [demo_message 13 30, demo_message 12 20, demo_message 11 10]"
    using history_first_page [OF demo_faults, of ref_codec "text_of 1" 1 "text_of 3" 3 50]
    by (simp add: demo_history demo_world_def)
  ultimately show ?thesis
    using cache_append [OF mem.redis_store_axioms demo_cached_run] by (simp add: cached_def)
qed

lemma demo_cached_list:
  "cached mem_observers (text_of 1) (text_of 3) demo_cached = map (marshal_message ref_codec)
     [demo_message 22 50, demo_message 21 40, demo_message 13 30, demo_message 12 20, demo_message 11 10]"
proof -
  have "cached mem_observers (text_of 1) (text_of 3) demo_world = []"
    "\<not> obs_other mem_observers (w_redis demo_world) (msgs_key (text_of 1) (text_of 3))"
    by (simp_all add: cached_def demo_world_def mem_observers_def empty_mem_def mem_other_def)
  moreover have "fst (GetSessionHistory ref_codec (text_of 1) (text_of 3) 50 [] (w_db demo_world)) =
      Inr [demo_message 13 30, demo_message 12 20, demo_message 11 10]"
    using history_first_page [OF demo_faults, of ref_codec "text_of 1" 1 "text_of 3" 3 50]
    by (simp add: demo_history demo_world_def)
  ultimately show ?thesis
    using mem.append_miss [OF demo_cached_run] by (simp add: cached_def)
qed

text \<open>C14: What was appended is read back: right after a successful append, reading n messages gives the newest n
  of the appended messages and the cached ones, the last appended first.\<close>

theorem cache_read_your_writes:
  assumes "redis_store R ob" "go_codec cod" "AppendMessages R cod T S ms w = (None, w1)"
    and "cached ob T S w = map (marshal_message cod) xs" "xs \<noteq> []"
    and "list_all storable (ms @ xs)" "0 < n" "n \<le> 50"
    and "GetRawMessages R cod T S n w1 = (Inr rs, w2)"
  shows "rs = take (nat n) (rev ms @ xs)"
proof -
  have cs: "cache_store R ob cod" by (rule cache_store.intro [OF assms(1,2)])
  have l: "cached ob T S w1 = map (marshal_message cod) (take 50 (rev ms @ xs))"
    using redis_store.append_hit [OF assms(1,3)] assms(4,5) by (simp add: cached_def rev_map take_map)
  have "list_all storable (take 50 (rev ms @ xs))"
    using assms(6) by (auto simp: list_all_iff dest: in_set_takeD)
  then have "rs = take (nat n) (take 50 (rev ms @ xs))"
    using cache_store.raw_read [OF cs assms(9) l] assms(5,7) by simp
  moreover have "take (nat n) (take 50 ys) = take (nat n) ys" for ys :: "message list"
    using assms(8) by (simp add: min_def nat_le_iff)
  ultimately show ?thesis by (simp only:)
qed

lemma demo_storable [simp]: "storable (demo_message i t)"
proof -
  have "valid_utf8 ''user''" "valid_utf8 ''hi''" by (rule valid_utf8_ascii, code_simp)+
  then show ?thesis by (simp add: storable_def demo_message_def int64_def)
qed

lemma mem_read_ok: "0 < n \<Longrightarrow> cached mem_observers T S w \<noteq> [] \<Longrightarrow> \<exists>rs. GetRawMessages mem_redis cod T S n w = (Inr rs, w)"
  by (auto simp: GetRawMessages_def redis_do_def cached_def mem_observers_def redis_range_prefix)

theorem cache_read_your_writes_witness:
  "fst (GetRawMessages mem_redis ref_codec (text_of 1) (text_of 3) 2
      (snd (AppendMessages mem_redis ref_codec (text_of 1) (text_of 3) [demo_message 23 60] demo_cached))) =
     Inr [demo_message 23 60, demo_message 22 50]"
proof -
  let ?w = "snd (AppendMessages mem_redis ref_codec (text_of 1) (text_of 3) [demo_message 23 60] demo_cached)"
  have run: "AppendMessages mem_redis ref_codec (text_of 1) (text_of 3) [demo_message 23 60] demo_cached = (None, ?w)"
    using mem.append_reliable [OF mem_reliable, of ref_codec "text_of 1" "text_of 3"] by (simp add: prod_eq_iff)
  have "cached mem_observers (text_of 1) (text_of 3) ?w \<noteq> []"
    using redis_store.append_shape [OF mem.redis_store_axioms run] by (auto simp: cached_def)
  then obtain rs where rs: "GetRawMessages mem_redis ref_codec (text_of 1) (text_of 3) 2 ?w = (Inr rs, ?w)"
    using mem_read_ok by force
  have "rs = take (nat 2) (rev [demo_message 23 60] @
      [demo_message 22 50, demo_message 21 40, demo_message 13 30, demo_message 12 20, demo_message 11 10])"
    by (rule cache_read_your_writes [OF mem.redis_store_axioms ref.go_codec_axioms run demo_cached_list _ _ _ _ rs]) simp_all
  with rs show ?thesis by simp
qed

text \<open>C35: Reading up to an anchor gives the anchor and the messages cached before it, at most n of them, however
  many newer messages have come in as long as the list still holds the anchor.\<close>

theorem anchored_window:
  assumes "redis_store R ob" "go_codec cod"
    and "cached ob T S w = map (marshal_message cod) (newer @ m # older)"
    and "length (newer @ m # older) \<le> 50" "list_all storable (newer @ m # older)"
    and "msg_ID m \<notin> msg_ID ` set older" "0 \<le> n"
    and "GetRawMessagesUntil R cod T S (uuid_String cod (msg_ID m)) n w = (Inr rs, w')"
  shows "rs = take (nat n) (m # older)"
  using cache_store.until_read [OF cache_store.intro [OF assms(1,2)] assms(8) _ assms(3-7)] by simp

theorem anchored_window_witness:
  "fst (GetRawMessagesUntil mem_redis ref_codec (text_of 1) (text_of 3) (text_of 21) 2 demo_cached) =
     Inr [demo_message 21 40, demo_message 13 30]"
proof -
  let ?r = "GetRawMessagesUntil mem_redis ref_codec (text_of 1) (text_of 3) (text_of 21) 2 demo_cached"
  have l: "cached mem_observers (text_of 1) (text_of 3) demo_cached = map (marshal_message ref_codec)
      ([demo_message 22 50] @ demo_message 21 40 # [demo_message 13 30, demo_message 12 20, demo_message 11 10])"
    using demo_cached_list by simp
  have ids: "msg_ID (demo_message i t) = i" for i t by (simp add: demo_message_def)
  have ok: "is_ok (fst ?r)"
    using memc.anchor_loop_found [of "[demo_message 22 50]" "demo_message 21 40"
        "[demo_message 13 30, demo_message 12 20, demo_message 11 10]"] l
    by (auto simp: GetRawMessagesUntil_def redis_do_def cached_def mem_observers_def ids anchor_window_def
        simp del: append.simps list.map)
  then obtain rs where rs: "?r = (Inr rs, snd ?r)" by (auto simp: is_ok_iff prod_eq_iff)
  then have "rs = take (nat 2) (demo_message 21 40 # [demo_message 13 30, demo_message 12 20, demo_message 11 10])"
    using anchored_window [OF mem.redis_store_axioms ref.go_codec_axioms l, of 2 rs "snd ?r"] by (simp add: ids)
  then have "rs = [demo_message 21 40, demo_message 13 30]" by simp
  with arg_cong [OF rs, where f = fst] show ?thesis by (simp only: fst_conv)
qed

text \<open>C23: The batch counter counts: an increment adds one and puts the session, with its time, into the active
  set; the count is read back as it is; a reset makes it zero and takes the session out.\<close>

theorem counter_protocol:
  assumes "redis_store R ob" "unlocked ob (batch_key T S) w"
    and "IncrementCognitiveBatch R T S now w = (Inr n, w1)"
    and "unlocked ob (batch_key T S) w1" "GetCognitiveBatchCount R T S w1 = (Inr c, w2)" "int64 n"
    and "ResetCognitiveBatch R T S w2 = (None, w3)"
  shows "n = pending ob T S w + 1 \<and> c = n \<and>
    active ob w1 = zset_add (now div second) (active_member T S) (active ob w) \<and>
    pending ob T S w3 = 0 \<and> active_member T S \<notin> snd ` set (active ob w3)"
proof -
  note i = redis_store.increment_ok [OF assms(1,3,2)]
  have p: "pending ob T S w1 = n" using i by (simp add: pending_def)
  note c = redis_store.batch_count_ok [OF assms(1,5,4)]
  note r = redis_store.reset_ok [OF assms(1,7)]
  show ?thesis using i p c r assms(6) by (simp add: pending_def zset_mem_rem)
qed

definition demo_inc :: "int res \<times> mem world" where
  "demo_inc = IncrementCognitiveBatch mem_redis ''t'' ''s'' (7 * second) demo_world"

theorem counter_protocol_witness:
  "fst demo_inc = Inr 1 \<and> active mem_observers (snd demo_inc) = [(7, ''t:s'')] \<and>
   pending mem_observers ''t'' ''s'' (snd (ResetCognitiveBatch mem_redis ''t'' ''s'' (snd demo_inc))) = 0"
proof -
  have inc: "IncrementCognitiveBatch mem_redis ''t'' ''s'' (7 * second) demo_world = (Inr 1, snd demo_inc)"
    unfolding demo_inc_def by (simp add: IncrementCognitiveBatch_def redis_do_def demo_world_def empty_mem_def int64_def)
  have get: "GetCognitiveBatchCount mem_redis ''t'' ''s'' (snd demo_inc) = (Inr 1, snd demo_inc)"
    unfolding demo_inc_def
    by (simp add: GetCognitiveBatchCount_def IncrementCognitiveBatch_def redis_do_def demo_world_def empty_mem_def int64_def)
  have free: "unlocked mem_observers (batch_key ''t'' ''s'') demo_world"
    "unlocked mem_observers (batch_key ''t'' ''s'') (snd demo_inc)"
    unfolding demo_inc_def
    by (simp_all add: unlocked_def IncrementCognitiveBatch_def redis_do_def demo_world_def empty_mem_def
        mem_observers_def int64_def)
  have reset: "ResetCognitiveBatch mem_redis ''t'' ''s'' (snd demo_inc) =
      (None, snd (ResetCognitiveBatch mem_redis ''t'' ''s'' (snd demo_inc)))"
    by (simp add: ResetCognitiveBatch_def redis_do_def)
  have none: "active mem_observers demo_world = []"
    by (simp add: active_def demo_world_def empty_mem_def mem_observers_def)
  have one: "fst demo_inc = Inr 1" using arg_cong [OF inc, where f = fst] by (simp only: demo_inc_def [symmetric] fst_conv)
  have "int64 1" by (simp add: int64_def)
  note c = counter_protocol [OF mem.redis_store_axioms free(1) inc free(2) get this reset]
  have "zset_add (7 * second div second) (active_member ''t'' ''s'') [] = [(7, ''t:s'')]"
    by (simp add: zset_add_def second_def active_member_def)
  with c none one show ?thesis by metis
qed

text \<open>C22: A flush cycle that gets the lock takes exactly the sessions inactive for too long, at most a hundred of
  them and of the form tenant:session, out of the active set; a cycle that does not get it changes neither
  the active set, the counters, the lists nor the streams.\<close>

theorem flush_cycle:
  assumes "redis_store R ob" "reliable R" "counters_ok ob w"
  shows "(key_free ob flusher_lock w \<longrightarrow> active ob (runFlushCycle R cod olderThan now w) =
      filter (\<lambda>p. \<not> (snd p \<in> set (zset_upto ((now - olderThan) div second) 0 100 (active ob w)) \<and>
        well_formed_member (snd p))) (active ob w)) \<and>
    (\<not> key_free ob flusher_lock w \<longrightarrow> active ob (runFlushCycle R cod olderThan now w) = active ob w \<and>
      obs_count ob (w_redis (runFlushCycle R cod olderThan now w)) = obs_count ob (w_redis w) \<and>
      same_lists_streams ob w (runFlushCycle R cod olderThan now w))"
proof -
  have "is_ok (fst (TryLock R flusher_lock 50 w))"
    using redis_store.lock_reliable [OF assms(1,2), of flusher_lock 50 w] by (metis is_ok_simps(1) prod.collapse)
  note locked = redis_store.cycle_locked [OF assms(1) _ refl this]
  show ?thesis using redis_store.cycle_active [OF assms] by (intro conjI impI) (simp_all add: locked)
qed

theorem flush_cycle_witness:
  "active mem_observers (runFlushCycle mem_redis ref_codec (60 * second) (100 * second) (snd demo_inc)) = []"
proof -
  have ok: "counters_ok mem_observers (snd demo_inc)"
    unfolding demo_inc_def
    by (auto simp: counters_ok_def unlocked_def pending_def IncrementCognitiveBatch_def redis_do_def demo_world_def
        empty_mem_def mem_observers_def int64_def)
  have act: "active mem_observers (snd demo_inc) = [(7, ''t:s'')]"
    unfolding demo_inc_def
    by (simp add: IncrementCognitiveBatch_def redis_do_def demo_world_def empty_mem_def mem_observers_def int64_def
        active_def zset_add_def second_def active_member_def)
  have free: "key_free mem_observers flusher_lock (snd demo_inc)"
    unfolding demo_inc_def
    by (simp add: key_free_def mem_other_def IncrementCognitiveBatch_def redis_do_def demo_world_def empty_mem_def
        mem_observers_def int64_def flusher_lock_def activeKey_def batch_key_def)
  have "well_formed_member ''t:s''" by (simp add: well_formed_member_def)
  then have "filter (\<lambda>p. \<not> (snd p \<in> set (zset_upto ((100 * second - 60 * second) div second) 0 100 [(7, ''t:s'')]) \<and>
      well_formed_member (snd p))) [(7 :: int, ''t:s'')] = []"
    by (simp add: zset_upto_def second_def)
  with flush_cycle [OF mem.redis_store_axioms mem_reliable ok, of ref_codec "60 * second" "100 * second"] act free
  show ?thesis by metis
qed

text \<open>C21: Flushing a session that has messages publishes one batch event with twice the pending count and the
  session's newest message as anchor, and leaves no pending count and no entry in the active set.\<close>

theorem flush_publishes_newest:
  assumes "redis_store R ob" "reliable R"
    and "fst (GetSessionHistory cod T S 1 [] (w_db w)) = Inr (m # ms)"
    and "length (obs_stream ob (w_redis w) (T @ '':stream:cognitive'')) < 10000"
    and "w' = flushSession R cod T S n w"
  shows "obs_stream ob (w_redis w') (T @ '':stream:cognitive'') =
      obs_stream ob (w_redis w) (T @ '':stream:cognitive'') @
      [[(''payload'', Json (batch_payload T (uuid_String cod (msg_UserID m)) S (n * 2) (uuid_String cod (msg_ID m)))),
        (''retries'', Text ''0'')]] \<and>
    pending ob T S w' = 0 \<and> active_member T S \<notin> snd ` set (active ob w')"
  by (rule redis_store.flush_publishes [OF assms])

theorem flush_publishes_newest_witness:
  "obs_stream mem_observers (w_redis (flushSession mem_redis ref_codec (text_of 1) (text_of 3) 5 demo_world))
      (text_of 1 @ '':stream:cognitive'') =
     [[(''payload'', Json (batch_payload (text_of 1) (text_of 2) (text_of 3) 10 (text_of 13))), (''retries'', Text ''0'')]]"
proof -
  have "fst (GetSessionHistory ref_codec (text_of 1) (text_of 3) 1 [] (w_db demo_world)) = Inr (demo_message 13 30 # [])"
    using history_first_page [OF demo_faults, of ref_codec "text_of 1" 1 "text_of 3" 3 1]
    by (simp add: demo_history demo_world_def)
  moreover have "obs_stream mem_observers (w_redis demo_world) k = []" for k
    by (simp add: demo_world_def empty_mem_def mem_observers_def)
  ultimately show ?thesis
    using flush_publishes_newest [OF mem.redis_store_axioms mem_reliable, of ref_codec "text_of 1" "text_of 3" demo_world]
    by (simp add: demo_message_def)
qed

end
